(* ===== verification/Prelude.thy ===== *)
theory Prelude
  imports Main "HOL-Library.Word" "HOL-Library.Char_ord" "HOL-Library.List_Lexorder"
begin

unbundle bit_operations_syntax

text \<open>
  The base of the library: how the Go types the program uses are represented, the parts of the
  standard packages \<^verbatim>\<open>strings\<close>, \<^verbatim>\<open>strconv\<close>, \<^verbatim>\<open>fmt\<close> and \<^verbatim>\<open>path\<close> it relies on, and the lemmas on lists
  and strings every component shares.

  A Go string is a byte sequence, and so is a \<^verbatim>\<open>[]byte\<close>: both are \<^typ>\<open>string\<close>, a list of \<^typ>\<open>char\<close>,
  which is an 8 bit byte in HOL. The order on strings is the lexicographic order on bytes, as in Go.
  \<^verbatim>\<open>uint8\<close> and \<^verbatim>\<open>uint32\<close> are words. An \<^verbatim>\<open>int64\<close> is an \<^typ>\<open>int\<close> and the operations that may leave its
  range are wrapped by \<^verbatim>\<open>wrap64\<close>. A Go \<^verbatim>\<open>error\<close> result is an \<^verbatim>\<open>option\<close>, None being nil, and a result
  with an error is a sum.
\<close>

named_theorems go_defs \<open>definitions of the Go runtime and standard library that proofs unfold\<close>
named_theorems frame \<open>what an operation leaves alone\<close>
named_theorems inv_intros \<open>operations that keep an invariant\<close>

type_synonym bytes = string
type_synonym uint8 = "8 word"
type_synonym uint32 = "32 word"
type_synonym uint64 = "64 word"

section \<open>int64\<close>

definition max_int64 :: int where
  "max_int64 = 9223372036854775807"

definition min_int64 :: int where
  "min_int64 = - 9223372036854775808"

definition is_int64 :: "int \<Rightarrow> bool" where
  "is_int64 x \<longleftrightarrow> min_int64 \<le> x \<and> x \<le> max_int64"

text \<open>Two's complement wrap-around of a 64 bit result.\<close>

definition wrap64 :: "int \<Rightarrow> int" where
  "wrap64 x = (x - min_int64) mod 18446744073709551616 + min_int64"

lemmas int64_defs = max_int64_def min_int64_def is_int64_def wrap64_def

lemma wrap64_id [simp]: "is_int64 x \<Longrightarrow> wrap64 x = x"
  by (simp add: int64_defs)

lemma wrap64_range [simp]: "is_int64 (wrap64 x)"
  by (simp add: int64_defs)

section \<open>Decimal numbers: fmt's \<^verbatim>\<open>%d\<close> and strconv.ParseInt\<close>

definition digit :: "nat \<Rightarrow> char" where
  "digit n = ''0123456789'' ! (n mod 10)"

definition digit_val :: "char \<Rightarrow> nat option" where
  "digit_val c =
     (let k = of_char c :: nat in if 48 \<le> k \<and> k \<le> 57 then Some (k - 48) else None)"

fun dec_nat :: "nat \<Rightarrow> string" where
  "dec_nat n = (if n < 10 then [digit n] else dec_nat (n div 10) @ [digit (n mod 10)])"

declare dec_nat.simps [simp del]

definition dec_int :: "int \<Rightarrow> string" where
  "dec_int i = (if i < 0 then CHR ''-'' # dec_nat (nat (- i)) else dec_nat (nat i))"

text \<open>The digits of a number, or None at the first character that is not a digit.\<close>

fun digits_val :: "nat \<Rightarrow> string \<Rightarrow> nat option" where
  "digits_val acc [] = Some acc"
| "digits_val acc (c # cs) =
     (case digit_val c of None \<Rightarrow> None | Some d \<Rightarrow> digits_val (10 * acc + d) cs)"

definition unsigned_val :: "string \<Rightarrow> nat option" where
  "unsigned_val s = (if s = [] then None else digits_val 0 s)"

text \<open>\<^verbatim>\<open>strconv.ParseInt(s, 10, 64)\<close>: an optional sign, digits, and a range check; None is the error.\<close>

definition ParseInt :: "string \<Rightarrow> int option" where
  "ParseInt s =
     (let r = (case s of
                 [] \<Rightarrow> None
               | c # cs \<Rightarrow>
                   if c = CHR ''-'' then map_option (\<lambda>n. - int n) (unsigned_val cs)
                   else if c = CHR ''+'' then map_option int (unsigned_val cs)
                   else map_option int (unsigned_val s))
      in case r of None \<Rightarrow> None | Some i \<Rightarrow> if is_int64 i then Some i else None)"

lemma digit_cases: "n < 10 \<Longrightarrow> n \<in> {0, 1, 2, 3, 4, 5, 6, 7, 8, 9 :: nat}"
  by auto

lemma digit_val_digit [simp]: "n < 10 \<Longrightarrow> digit_val (digit n) = Some n"
  by (drule digit_cases) (auto simp: digit_def digit_val_def)

lemma digit_not_sign [simp]: "digit n \<noteq> CHR ''-''" "digit n \<noteq> CHR ''+''"
proof -
  have "n mod 10 \<in> {0, 1, 2, 3, 4, 5, 6, 7, 8, 9}"
    by (rule digit_cases) simp
  then show "digit n \<noteq> CHR ''-''" "digit n \<noteq> CHR ''+''"
    by (auto simp: digit_def)
qed

lemma digits_val_append:
  "digits_val acc (xs @ [c]) =
     (case digits_val acc xs of
        None \<Rightarrow> None
      | Some a \<Rightarrow> map_option (\<lambda>d. 10 * a + d) (digit_val c))"
  by (induction xs arbitrary: acc) (auto split: option.splits)

lemma dec_nat_nonempty [simp]: "dec_nat n \<noteq> []"
  by (subst dec_nat.simps) simp

lemma digits_val_dec_nat [simp]: "digits_val 0 (dec_nat n) = Some n"
proof (induction n rule: dec_nat.induct)
  case (1 n)
  then show ?case
    by (subst dec_nat.simps) (auto simp: digits_val_append)
qed

lemma unsigned_val_dec_nat [simp]: "unsigned_val (dec_nat n) = Some n"
  by (simp add: unsigned_val_def)

lemma dec_nat_chars: "c \<in> set (dec_nat n) \<Longrightarrow> \<exists>d < 10. c = digit d"
proof (induction n rule: dec_nat.induct)
  case (1 n)
  then show ?case
    by (subst (asm) (2) dec_nat.simps) (auto split: if_splits intro: exI [of _ "n mod 10"])
qed

lemma dec_nat_hd: "\<exists>d. hd (dec_nat n) = digit d"
  using dec_nat_chars [of "hd (dec_nat n)" n] by auto

lemma ParseInt_dec_int [simp]:
  assumes "is_int64 i"
  shows "ParseInt (dec_int i) = Some i"
proof -
  obtain d ds where dn: "dec_nat (nat i) = digit d # ds"
    using dec_nat_hd [of "nat i"] dec_nat_nonempty [of "nat i"] by (metis list.exhaust_sel)
  show ?thesis
    using assms unsigned_val_dec_nat [of "nat i"]
    by (auto simp: ParseInt_def dec_int_def dn)
qed

lemma digit_neq_NUL: "d < 10 \<Longrightarrow> digit d \<noteq> CHR 0x00 \<and> digit d \<noteq> CHR ''/'' \<and> digit d \<noteq> CHR 0x0A"
  by (drule digit_cases) (auto simp: digit_def)

lemma dec_int_chars:
  "CHR 0x00 \<notin> set (dec_int i)" "CHR ''/'' \<notin> set (dec_int i)" "CHR 0x0A \<notin> set (dec_int i)"
  by (auto simp: dec_int_def dest!: dec_nat_chars) (metis digit_neq_NUL)+

lemma dec_int_nonempty [simp]: "dec_int i \<noteq> []"
  by (simp add: dec_int_def)

lemma length_dec_nat: "0 < k \<Longrightarrow> n < 10 ^ k \<Longrightarrow> length (dec_nat n) \<le> k"
proof (induction k arbitrary: n)
  case (Suc k)
  show ?case
  proof (cases "n < 10")
    case True
    then show ?thesis by (subst dec_nat.simps) simp
  next
    case False
    then have "n div 10 < 10 ^ k" "0 < k" using Suc.prems by (auto intro!: gr0I)
    then show ?thesis using Suc.IH False by (subst dec_nat.simps) simp
  qed
qed simp

lemma dec_nat_inj: "dec_nat m = dec_nat n \<Longrightarrow> m = n"
  by (metis digits_val_dec_nat option.inject)

lemma dec_int_inj: "dec_int i = dec_int j \<Longrightarrow> i = j"
proof -
  have aux: "CHR ''-'' # x \<noteq> dec_nat n" for x n
    using dec_nat_hd [of n] digit_not_sign(1) by (metis list.sel(1))
  assume "dec_int i = dec_int j"
  then show "i = j"
    using aux by (auto simp: dec_int_def dest!: dec_nat_inj split: if_splits)
      (metis aux)+
qed

end
