(* ===== verification/Core_HLC.thy ===== *)
theory Core_HLC
  imports Prelude
begin

text \<open>
  \<^verbatim>\<open>internal/core/hlc.go\<close>: hybrid logical clock readings, versions and the clock. The orders the
  program compares with (\<^verbatim>\<open>Compare\<close>, \<^verbatim>\<open>After\<close>) are shown to be the linear orders the types are
  instantiated with, so that the rest of the development can reason with \<open><\<close> and \<open>\<le>\<close>. The clock's
  \<^verbatim>\<open>now func() time.Time\<close> returns a new reading at every call; it is a function of the number of
  readings taken so far, on which nothing is assumed: physical time may stand still or go back.
\<close>

section \<open>Errors\<close>

text \<open>
  The sentinels of the packages, without the text wrapped around them: callers only match them with
  \<^verbatim>\<open>errors.Is\<close>. \<open>ErrDB\<close> is any failure of the database layer, \<open>ErrPeer\<close> any failure of a request to a
  peer, \<open>ErrInvalid\<close> the plain errors made with \<^verbatim>\<open>errors.New\<close> or \<^verbatim>\<open>fmt.Errorf\<close>.
\<close>

datatype err =
    ErrClockDrift
  | ErrTooLarge
  | ErrBadPath
  | ErrWeakSecret
  | ErrNotFound
  | ErrDB
  | ErrPeer
  | ErrInvalid
  | ErrUnauthorized
  | ErrSeal
  | ErrPeerNotFound

section \<open>Timestamps and versions\<close>

definition MaxClockDrift :: int where
  "MaxClockDrift = 5 * 60 * 1000000000"

datatype Timestamp = Timestamp (Wall: int) (Counter: uint32)

definition Compare :: "Timestamp \<Rightarrow> Timestamp \<Rightarrow> int" where
  "Compare t u =
     (if Wall t < Wall u then -1
      else if Wall t > Wall u then 1
      else if Counter t < Counter u then -1
      else if Counter t > Counter u then 1
      else 0)"

datatype Version = Version (HLC: Timestamp) (Origin: string)

definition After :: "Version \<Rightarrow> Version \<Rightarrow> bool" where
  "After v w =
     (let c = Compare (HLC v) (HLC w) in if c \<noteq> 0 then 0 < c else Origin w < Origin v)"

definition Equal :: "Version \<Rightarrow> Version \<Rightarrow> bool" where
  "Equal v w \<longleftrightarrow> Compare (HLC v) (HLC w) = 0 \<and> Origin v = Origin w"

instantiation Timestamp :: linorder
begin

definition less_eq_Timestamp :: "Timestamp \<Rightarrow> Timestamp \<Rightarrow> bool" where
  "less_eq_Timestamp t u \<longleftrightarrow> Compare t u \<le> 0"

definition less_Timestamp :: "Timestamp \<Rightarrow> Timestamp \<Rightarrow> bool" where
  "less_Timestamp t u \<longleftrightarrow> Compare t u < 0"

instance
proof
  fix t u v :: Timestamp
  show "(t < u) = (t \<le> u \<and> \<not> u \<le> t)"
    by (auto simp: less_eq_Timestamp_def less_Timestamp_def Compare_def)
  show "t \<le> t"
    by (simp add: less_eq_Timestamp_def Compare_def)
  show "t \<le> u \<Longrightarrow> u \<le> v \<Longrightarrow> t \<le> v"
    by (auto simp: less_eq_Timestamp_def Compare_def split: if_splits)
  show "t \<le> u \<Longrightarrow> u \<le> t \<Longrightarrow> t = u"
    by (cases t; cases u) (auto simp: less_eq_Timestamp_def Compare_def split: if_splits)
  show "t \<le> u \<or> u \<le> t"
    by (auto simp: less_eq_Timestamp_def Compare_def)
qed

end

lemma Timestamp_less_iff:
  "t < u \<longleftrightarrow> Wall t < Wall u \<or> Wall t = Wall u \<and> Counter t < Counter u"
  by (auto simp: less_Timestamp_def Compare_def)

lemma Timestamp_le_iff:
  "t \<le> u \<longleftrightarrow> Wall t < Wall u \<or> Wall t = Wall u \<and> Counter t \<le> Counter u"
  by (auto simp: less_eq_Timestamp_def Compare_def)

lemma Compare_eq_0 [simp]: "Compare t u = 0 \<longleftrightarrow> t = u"
  by (cases t; cases u) (auto simp: Compare_def)

lemma Compare_pos [simp]: "0 < Compare t u \<longleftrightarrow> u < t"
  by (auto simp: Timestamp_less_iff Compare_def)

lemma Compare_neg [simp]: "Compare t u < 0 \<longleftrightarrow> t < u"
  by (simp add: less_Timestamp_def)

lemma Equal_iff [simp]: "Equal v w \<longleftrightarrow> v = w"
  by (cases v; cases w) (auto simp: Equal_def)

instantiation Version :: linorder
begin

definition less_Version :: "Version \<Rightarrow> Version \<Rightarrow> bool" where
  "less_Version v w \<longleftrightarrow> After w v"

definition less_eq_Version :: "Version \<Rightarrow> Version \<Rightarrow> bool" where
  "less_eq_Version v w \<longleftrightarrow> After w v \<or> v = w"

instance
proof
  fix v w x :: Version
  show "(v < w) = (v \<le> w \<and> \<not> w \<le> v)"
    by (auto simp: less_eq_Version_def less_Version_def After_def Let_def split: if_splits)
  show "v \<le> v"
    by (simp add: less_eq_Version_def)
  show "v \<le> w \<Longrightarrow> w \<le> x \<Longrightarrow> v \<le> x"
    by (auto simp: less_eq_Version_def After_def Let_def split: if_splits)
  show "v \<le> w \<Longrightarrow> w \<le> v \<Longrightarrow> v = w"
    by (auto simp: less_eq_Version_def After_def Let_def split: if_splits)
  show "v \<le> w \<or> w \<le> v"
    by (cases v; cases w) (auto simp: less_eq_Version_def After_def Let_def)
qed

end

lemma After_iff [simp]: "After v w \<longleftrightarrow> w < v"
  by (simp add: less_Version_def)

lemma Version_less_iff:
  "v < w \<longleftrightarrow> HLC v < HLC w \<or> HLC v = HLC w \<and> Origin v < Origin w"
  by (auto simp: less_Version_def After_def Let_def simp del: After_iff)

lemma HLC_mono: "v \<le> w \<Longrightarrow> HLC v \<le> HLC w"
  by (auto simp: le_less Version_less_iff)

section \<open>The clock\<close>

record Clock =
  now_at :: "nat \<Rightarrow> int"
  reads :: nat
  last_ts :: Timestamp

definition NewClock :: "(nat \<Rightarrow> int) \<Rightarrow> Clock" where
  "NewClock now = \<lparr>now_at = now, reads = 0, last_ts = Timestamp 0 0\<rparr>"

abbreviation physical :: "Clock \<Rightarrow> int" where
  "physical c \<equiv> now_at c (reads c)"

definition Now :: "Clock \<Rightarrow> Timestamp \<times> Clock" where
  "Now c =
     (let p = physical c;
          t = (if p > Wall (last_ts c) then Timestamp p 0
               else Timestamp (Wall (last_ts c)) (Counter (last_ts c) + 1))
      in (t, c\<lparr>reads := Suc (reads c), last_ts := t\<rparr>))"

definition Observe :: "Clock \<Rightarrow> Timestamp \<Rightarrow> (err + Timestamp) \<times> Clock" where
  "Observe c remote =
     (let p = physical c; c = c\<lparr>reads := Suc (reads c)\<rparr> in
      if wrap64 (Wall remote - p) > MaxClockDrift then (Inl ErrClockDrift, c)
      else
        let wall = max (max p (Wall (last_ts c))) (Wall remote);
            counter =
              (if wall = Wall (last_ts c) \<and> wall = Wall remote
               then max (Counter (last_ts c)) (Counter remote) + 1
               else if wall = Wall (last_ts c) then Counter (last_ts c) + 1
               else if wall = Wall remote then Counter remote + 1
               else 0);
            t = Timestamp wall counter
        in (Inr t, c\<lparr>last_ts := t\<rparr>))"

text \<open>
  A counter below \<open>b\<close> has room for an increment: the reading after it is greater. Without room the
  32 bit counter starts again at zero.
\<close>

definition room :: "nat \<Rightarrow> Timestamp \<Rightarrow> bool" where
  "room b t \<longleftrightarrow> unat (Counter t) \<le> b"

lemma unat_Suc32: "unat (c :: uint32) < 4294967295 \<Longrightarrow> unat (c + 1) = unat c + 1"
  by (simp add: unat_word_ariths)

lemma less_Suc32: "unat (c :: uint32) < 4294967295 \<Longrightarrow> c < c + 1"
  by (simp add: word_less_nat_alt unat_Suc32)

lemma room_mono: "room b t \<Longrightarrow> b \<le> b' \<Longrightarrow> room b' t"
  by (simp add: room_def)

lemma Now_frame [frame]:
  "now_at (snd (Now c)) = now_at c" "last_ts (snd (Now c)) = fst (Now c)"
  by (simp_all add: Now_def Let_def)

lemma Now_greater:
  assumes "room b (last_ts c)" and "b < 4294967295"
  shows "last_ts c < fst (Now c)" and "room (Suc b) (fst (Now c))"
  using assms by (auto simp: Now_def Let_def room_def Timestamp_less_iff unat_Suc32 less_Suc32)

lemma Observe_rejects: "fst (Observe c t) = Inl e \<Longrightarrow> last_ts (snd (Observe c t)) = last_ts c"
  by (auto simp: Observe_def Let_def split: if_splits)

lemma Observe_frame [frame]: "now_at (snd (Observe c t)) = now_at c"
  by (simp add: Observe_def Let_def)

lemma Observe_last: "fst (Observe c t) = Inr u \<Longrightarrow> last_ts (snd (Observe c t)) = u"
  by (auto simp: Observe_def Let_def split: if_splits)

lemma Observe_greater:
  assumes "fst (Observe c t) = Inr u"
    and "room b (last_ts c)" and "room b t" and "b < 4294967295"
  shows "last_ts c < u" and "t < u" and "room (Suc b) u"
proof -
  let ?w = "max (max (physical c) (Wall (last_ts c))) (Wall t)"
  have u: "u = Timestamp ?w
      (if ?w = Wall (last_ts c) \<and> ?w = Wall t then max (Counter (last_ts c)) (Counter t) + 1
       else if ?w = Wall (last_ts c) then Counter (last_ts c) + 1
       else if ?w = Wall t then Counter t + 1 else 0)"
    using assms(1) by (auto simp: Observe_def Let_def split: if_splits)
  have lt: "unat (Counter (last_ts c)) < 4294967295" "unat (Counter t) < 4294967295"
    using assms(2-4) by (auto simp: room_def)
  have mx: "unat (max (Counter (last_ts c)) (Counter t)) \<le> b"
    using assms(2,3) by (auto simp: room_def max_def)
  have mx_lt: "Counter (last_ts c) < max (Counter (last_ts c)) (Counter t) + 1"
    "Counter t < max (Counter (last_ts c)) (Counter t) + 1"
    using less_Suc32 [of "max (Counter (last_ts c)) (Counter t)"] mx assms(4)
    by (auto intro: le_less_trans)
  show "last_ts c < u" "t < u"
    using lt mx_lt less_Suc32 [of "Counter (last_ts c)"] less_Suc32 [of "Counter t"]
    by (auto simp: u Timestamp_less_iff)
  show "room (Suc b) u"
    using lt mx assms(2-4) by (auto simp: u room_def unat_Suc32)
qed

lemma Observe_accepts_bound:
  assumes "fst (Observe c t) = Inr u" and "is_int64 (Wall t)" and "is_int64 (physical c)"
    and "0 \<le> physical c"
  shows "Wall t \<le> physical c + MaxClockDrift"
proof -
  have "wrap64 (Wall t - physical c) \<le> MaxClockDrift"
    using assms(1) by (auto simp: Observe_def Let_def split: if_splits)
  moreover have "wrap64 (Wall t - physical c) = Wall t - physical c \<or> Wall t < 0"
    using assms(2-4) wrap64_id [of "Wall t - physical c"] by (auto simp: int64_defs)
  ultimately show ?thesis
    using assms(4) by (auto simp: MaxClockDrift_def)
qed

lemma Observe_wall:
  "fst (Observe c t) = Inr u \<Longrightarrow> Wall u = max (max (physical c) (Wall (last_ts c))) (Wall t)"
  by (auto simp: Observe_def Let_def split: if_splits)

section \<open>Runs of the clock\<close>

datatype clock_op = OpNow | OpObserve Timestamp

definition clock_step :: "clock_op \<Rightarrow> Clock \<Rightarrow> Clock" where
  "clock_step x c = (case x of OpNow \<Rightarrow> snd (Now c) | OpObserve t \<Rightarrow> snd (Observe c t))"

text \<open>The readings a step returns, and the peer's reading it has taken in.\<close>

definition clock_seen :: "clock_op \<Rightarrow> Clock \<Rightarrow> Timestamp list" where
  "clock_seen x c =
     (case x of
        OpNow \<Rightarrow> [fst (Now c)]
      | OpObserve t \<Rightarrow> (case fst (Observe c t) of Inl e \<Rightarrow> [] | Inr u \<Rightarrow> [t, u]))"

fun clock_run :: "clock_op list \<Rightarrow> Clock \<Rightarrow> Clock" where
  "clock_run [] c = c"
| "clock_run (x # xs) c = clock_run xs (clock_step x c)"

fun seen_in_run :: "clock_op list \<Rightarrow> Clock \<Rightarrow> Timestamp list" where
  "seen_in_run [] c = []"
| "seen_in_run (x # xs) c = clock_seen x c @ seen_in_run xs (clock_step x c)"

fun room_op :: "nat \<Rightarrow> clock_op \<Rightarrow> bool" where
  "room_op b OpNow = True"
| "room_op b (OpObserve t) = room b t"

lemma clock_step_mono:
  assumes "room b (last_ts c)" and "room_op b x" and "b < 4294967295"
  shows "last_ts c \<le> last_ts (clock_step x c)" (is ?mono)
    and "room (Suc b) (last_ts (clock_step x c))" (is ?room)
    and "\<And>t. t \<in> set (clock_seen x c) \<Longrightarrow> t \<le> last_ts (clock_step x c)"
proof -
  have cases: "?mono \<and> ?room \<and> (\<forall>t \<in> set (clock_seen x c). t \<le> last_ts (clock_step x c))"
  proof (cases x)
    case OpNow
    then show ?thesis
      using Now_greater [OF assms(1,3)] by (simp add: clock_step_def clock_seen_def frame)
  next
    case (OpObserve t)
    show ?thesis
    proof (cases "fst (Observe c t)")
      case (Inl e)
      then show ?thesis
        using OpObserve Observe_rejects [OF Inl] room_mono [OF assms(1), of "Suc b"]
        by (simp add: clock_step_def clock_seen_def)
    next
      case (Inr u)
      then show ?thesis
        using OpObserve Observe_last [OF Inr] Observe_greater [OF Inr assms(1) _ assms(3)] assms(2)
        by (auto simp: clock_step_def clock_seen_def)
    qed
  qed
  then show ?mono ?room "\<And>t. t \<in> set (clock_seen x c) \<Longrightarrow> t \<le> last_ts (clock_step x c)"
    by auto
qed

lemma clock_run_mono:
  assumes "room b (last_ts c)" and "list_all (room_op b) xs" and "b + length xs < 4294967295"
  shows "last_ts c \<le> last_ts (clock_run xs c)
       \<and> room (b + length xs) (last_ts (clock_run xs c))
       \<and> (\<forall>t \<in> set (seen_in_run xs c). t \<le> last_ts (clock_run xs c))"
  using assms
proof (induction xs arbitrary: b c)
  case Nil
  then show ?case by simp
next
  case (Cons x xs)
  let ?c = "clock_step x c"
  have step: "last_ts c \<le> last_ts ?c" "room (Suc b) (last_ts ?c)"
    "\<And>t. t \<in> set (clock_seen x c) \<Longrightarrow> t \<le> last_ts ?c"
    using clock_step_mono [of b c x] Cons.prems by auto
  have "list_all (room_op (Suc b)) xs"
    using Cons.prems(2) by (auto simp: list_all_iff room_def elim!: room_op.elims)
  then have "last_ts ?c \<le> last_ts (clock_run xs ?c)
      \<and> room (Suc b + length xs) (last_ts (clock_run xs ?c))
      \<and> (\<forall>t \<in> set (seen_in_run xs ?c). t \<le> last_ts (clock_run xs ?c))"
    using Cons.IH [of "Suc b" ?c] step(2) Cons.prems(3) by simp
  with step show ?case by (auto intro: order_trans)
qed

lemma Observe_error_iff:
  assumes "is_int64 (Wall t)" and "0 \<le> physical c" and "physical c \<le> max_int64 - MaxClockDrift"
  shows "isl (fst (Observe c t)) \<longleftrightarrow>
           Wall t > physical c + MaxClockDrift \<or> Wall t < physical c + min_int64"
proof -
  have "isl (fst (Observe c t)) \<longleftrightarrow> wrap64 (Wall t - physical c) > MaxClockDrift"
    by (simp add: Observe_def Let_def)
  also have "\<dots> \<longleftrightarrow> Wall t > physical c + MaxClockDrift \<or> Wall t < physical c + min_int64"
  proof (cases "Wall t < physical c + min_int64")
    case True
    have "wrap64 (Wall t - physical c) = Wall t - physical c + 18446744073709551616"
      using True assms
      by (simp add: int64_defs MaxClockDrift_def) (smt (verit) mod_pos_pos_trivial mod_add_self2)
    then show ?thesis
      using True assms by (auto simp: int64_defs MaxClockDrift_def)
  next
    case False
    have "wrap64 (Wall t - physical c) = Wall t - physical c"
      using False assms by (intro wrap64_id) (auto simp: int64_defs MaxClockDrift_def)
    then show ?thesis using False by auto
  qed
  finally show ?thesis .
qed

section \<open>Properties\<close>

text \<open>\<^verbatim>\<open>Version.After\<close> is a strict total order with \<^verbatim>\<open>Version.Equal\<close> as its equality: no version is
  after itself, the relation is transitive, and of two versions either exactly one is after the
  other or they are the same write. This is what every node's choice of the winner rests on.\<close>

theorem After_strict_total_order:
  "\<not> After v v
   \<and> (After v w \<and> After w x \<longrightarrow> After v x)
   \<and> (After v w \<longleftrightarrow> \<not> After w v \<and> \<not> Equal v w)"
  by (auto simp: not_less)

theorem After_strict_total_order_witness:
  "After (Version (Timestamp 200 0) ''n1'') (Version (Timestamp 100 3) ''n2'')
   \<and> After (Version (Timestamp 100 3) ''n2'') (Version (Timestamp 100 3) ''n1'')
   \<and> After (Version (Timestamp 200 0) ''n1'') (Version (Timestamp 100 3) ''n1'')"
proof -
  let ?v = "Version (Timestamp 200 0) ''n1''" and ?w = "Version (Timestamp 100 3) ''n2''"
    and ?x = "Version (Timestamp 100 3) ''n1''"
  have vw: "After ?v ?w" and wx: "After ?w ?x"
    by (simp_all add: Version_less_iff Timestamp_less_iff)
  then show ?thesis
    using After_strict_total_order [of ?v ?w ?x] by blast
qed

text \<open>C18. A reading of \<^verbatim>\<open>Clock.Now\<close> is strictly greater than every reading the clock has returned before
  and every peer reading it has taken in by \<^verbatim>\<open>Observe\<close>, whatever physical time did in between, as
  long as the 32 bit counters involved have room for one increment per operation.\<close>

theorem Now_exceeds_everything_seen:
  assumes "room b (last_ts c)" and "list_all (room_op b) xs" and "b + length xs < 4294967295"
  shows "last_ts c < fst (Now (clock_run xs c))
       \<and> (\<forall>t \<in> set (seen_in_run xs c). t < fst (Now (clock_run xs c)))"
proof -
  have run: "last_ts c \<le> last_ts (clock_run xs c)" "room (b + length xs) (last_ts (clock_run xs c))"
    "\<And>t. t \<in> set (seen_in_run xs c) \<Longrightarrow> t \<le> last_ts (clock_run xs c)"
    using clock_run_mono [OF assms] by auto
  then show ?thesis
    using Now_greater(1) [OF run(2) assms(3)] by (auto intro: le_less_trans)
qed

theorem Now_exceeds_everything_seen_witness:
  "let c = NewClock (\<lambda>n. if n = 0 then 100 else 50);
       xs = [OpNow, OpObserve (Timestamp 200 7), OpNow]
   in seen_in_run xs c = [Timestamp 100 0, Timestamp 200 7, Timestamp 200 8, Timestamp 200 9]
      \<and> fst (Now (clock_run xs c)) = Timestamp 200 10
      \<and> Timestamp 200 9 < fst (Now (clock_run xs c))"
proof -
  let ?c = "NewClock (\<lambda>n. if n = 0 then 100 else 50)"
    and ?xs = "[OpNow, OpObserve (Timestamp 200 7), OpNow]"
  have hyps: "room 7 (last_ts ?c)" "list_all (room_op 7) ?xs" "7 + length ?xs < 4294967295"
    by (simp_all add: NewClock_def room_def)
  have seen: "seen_in_run ?xs ?c =
      [Timestamp 100 0, Timestamp 200 7, Timestamp 200 8, Timestamp 200 9]"
    and res: "fst (Now (clock_run ?xs ?c)) = Timestamp 200 10"
    by (simp_all add: clock_seen_def clock_step_def Now_def Observe_def NewClock_def int64_defs
        MaxClockDrift_def Let_def)
  have "Timestamp 200 9 < fst (Now (clock_run ?xs ?c))"
    using Now_exceeds_everything_seen [OF hyps] by (simp only: seen) simp
  with seen res show ?thesis by (simp add: Let_def)
qed

text \<open>C19. \<^verbatim>\<open>Clock.Observe\<close> refuses a peer's reading exactly when its wall part is more than
  \<^verbatim>\<open>MaxClockDrift\<close> ahead of physical time (or so far in the past that the difference leaves 64 bits),
  and then leaves the clock's reading alone; a reading it accepts never moves the clock further than
  \<^verbatim>\<open>MaxClockDrift\<close> past physical time. So one node with a broken clock cannot drag the others along.\<close>

theorem Observe_drift_guard:
  assumes "is_int64 (Wall t)" and "0 \<le> physical c" and "physical c \<le> max_int64 - MaxClockDrift"
  shows "case Observe c t of
           (Inl e, c') \<Rightarrow> e = ErrClockDrift \<and> last_ts c' = last_ts c
              \<and> (Wall t > physical c + MaxClockDrift \<or> Wall t < physical c + min_int64)
         | (Inr u, c') \<Rightarrow> last_ts c' = u \<and> Wall t \<le> physical c + MaxClockDrift
              \<and> Wall u \<le> max (Wall (last_ts c)) (physical c + MaxClockDrift)"
proof (cases "fst (Observe c t)")
  case (Inl e)
  then have "e = ErrClockDrift"
    by (auto simp: Observe_def Let_def split: if_splits)
  then show ?thesis
    using Inl Observe_rejects [OF Inl] Observe_error_iff [OF assms] by (auto split: prod.splits)
next
  case (Inr u)
  then show ?thesis
    using Observe_last [OF Inr] Observe_wall [OF Inr] Observe_error_iff [OF assms]
    by (auto split: prod.splits simp: MaxClockDrift_def)
qed

theorem Observe_drift_guard_witness:
  "fst (Observe (NewClock (\<lambda>_. 1000)) (Timestamp 300000001001 0)) = Inl ErrClockDrift
   \<and> fst (Observe (NewClock (\<lambda>_. 1000)) (Timestamp 300000001000 4)) = Inr (Timestamp 300000001000 5)
   \<and> (300000001000 :: int) \<le> 1000 + MaxClockDrift"
  using Observe_drift_guard [of "Timestamp 300000001001 0" "NewClock (\<lambda>_. 1000)"]
    Observe_drift_guard [of "Timestamp 300000001000 4" "NewClock (\<lambda>_. 1000)"]
  by (simp add: Observe_def NewClock_def int64_defs MaxClockDrift_def Let_def)

text \<open>The counter of an accepted reading is not checked: a peer's reading with the largest counter
  and a wall part ahead of ours makes \<^verbatim>\<open>Observe\<close> wrap the counter to zero. The clock then stands
  before the reading it has just taken in, and the next local write is ordered before the remote
  write it reacts to, contrary to what the comments on \<^verbatim>\<open>Now\<close> and \<^verbatim>\<open>Observe\<close> promise.\<close>

theorem Observe_counter_wraps:
  assumes "Counter t = 4294967295" and "physical c < Wall t" and "Wall (last_ts c) < Wall t"
    and "wrap64 (Wall t - physical c) \<le> MaxClockDrift"
    and "now_at c (Suc (reads c)) \<le> Wall t"
  shows "fst (Observe c t) = Inr (Timestamp (Wall t) 0)
       \<and> last_ts (snd (Observe c t)) < t
       \<and> fst (Now (snd (Observe c t))) < t"
proof -
  have "Observe c t =
      (Inr (Timestamp (Wall t) 0), c\<lparr>reads := Suc (reads c), last_ts := Timestamp (Wall t) 0\<rparr>)"
    using assms by (simp add: Observe_def Let_def max_def)
  then show ?thesis
    using assms by (simp add: Now_def Timestamp_less_iff Let_def)
qed

theorem Observe_counter_wraps_witness:
  "let c = NewClock (\<lambda>_. 1000); t = Timestamp 2000 4294967295
   in fst (Now (snd (Observe c t))) = Timestamp 2000 1 \<and> fst (Now (snd (Observe c t))) < t"
  using Observe_counter_wraps [of "Timestamp 2000 4294967295" "NewClock (\<lambda>_. 1000)"]
  by (simp add: Observe_def Now_def NewClock_def int64_defs MaxClockDrift_def Let_def)

end
