(* ===== verification/Go_Strings.thy ===== *)
theory Go_Strings
  imports Prelude
begin

text \<open>
  The functions of the packages \<^verbatim>\<open>strings\<close>, \<^verbatim>\<open>path\<close> and \<^verbatim>\<open>encoding/hex\<close> the program calls, with the
  lemmas the components use: splitting and joining on a separator are inverse to each other, and
  \<^verbatim>\<open>path.Clean\<close> leaves a path alone exactly when its elements are in canonical form.
\<close>

section \<open>strings\<close>

text \<open>\<^verbatim>\<open>strings.Split(s, sep)\<close> for a separator of one byte.\<close>

fun split_on :: "char \<Rightarrow> string \<Rightarrow> string list" where
  "split_on c [] = [[]]"
| "split_on c (x # xs) =
     (if x = c then [] # split_on c xs
      else (case split_on c xs of [] \<Rightarrow> [[x]] | w # ws \<Rightarrow> (x # w) # ws))"

fun join_on :: "char \<Rightarrow> string list \<Rightarrow> string" where
  "join_on c [] = []"
| "join_on c [w] = w"
| "join_on c (w # v # ws) = w @ c # join_on c (v # ws)"

definition HasPrefix :: "string \<Rightarrow> string \<Rightarrow> bool" where
  "HasPrefix s p \<longleftrightarrow> take (length p) s = p"

fun Contains :: "string \<Rightarrow> string \<Rightarrow> bool" where
  "Contains [] sub \<longleftrightarrow> sub = []"
| "Contains (x # xs) sub \<longleftrightarrow> HasPrefix (x # xs) sub \<or> Contains xs sub"

text \<open>\<^verbatim>\<open>strings.Cut(s, sep)\<close>: what comes before and after the first separator, if there is one.\<close>

fun Cut :: "char \<Rightarrow> string \<Rightarrow> (string \<times> string) option" where
  "Cut c [] = None"
| "Cut c (x # xs) =
     (if x = c then Some ([], xs) else map_option (\<lambda>(a, b). (x # a, b)) (Cut c xs))"

lemma split_on_nonempty [simp]: "split_on c s \<noteq> []"
  by (induction s) (auto split: list.splits)

lemma join_split [simp]: "join_on c (split_on c s) = s"
proof (induction s)
  case (Cons x xs)
  obtain w ws where "split_on c xs = w # ws"
    using split_on_nonempty list.exhaust by blast
  with Cons show ?case by (cases ws) auto
qed simp

lemma split_on_no_sep: "w \<in> set (split_on c s) \<Longrightarrow> c \<notin> set w"
proof (induction s arbitrary: w)
  case (Cons x xs)
  obtain v vs where "split_on c xs = v # vs"
    using split_on_nonempty list.exhaust by blast
  with Cons show ?case by (auto split: if_splits)
qed simp

lemma split_on_plain: "c \<notin> set w \<Longrightarrow> split_on c w = [w]"
  by (induction w) auto

lemma split_on_append_sep: "c \<notin> set w \<Longrightarrow> split_on c (w @ c # s) = w # split_on c s"
  by (induction w) auto

lemma split_on_append_both: "split_on c (u @ c # v) = split_on c u @ split_on c v"
proof (induction u)
  case (Cons a u)
  obtain w ws where "split_on c u = w # ws"
    using split_on_nonempty list.exhaust by blast
  with Cons show ?case by auto
qed simp

lemma split_on_middle:
  assumes "c \<notin> set x"
  shows "x \<in> set (split_on c (u @ c # x @ c # v))"
proof -
  have "x \<in> set (tl (split_on c (u @ c # x @ c # v)))"
    by (induction u) (use assms in \<open>auto simp: split_on_append_sep split: list.splits dest: list.set_sel(2) [rotated]\<close>)
  then show ?thesis by (rule list.set_sel(2) [rotated]) simp
qed

lemma split_on_append:
  "c \<notin> set y \<Longrightarrow> split_on c (x @ y) = butlast (split_on c x) @ [last (split_on c x) @ y]"
proof (induction x)
  case Nil
  then show ?case by (simp add: split_on_plain)
next
  case (Cons a x)
  obtain v vs where "split_on c x = v # vs"
    using split_on_nonempty list.exhaust by blast
  with Cons show ?case by (cases vs) auto
qed

lemma split_join:
  "ws \<noteq> [] \<Longrightarrow> (\<And>w. w \<in> set ws \<Longrightarrow> c \<notin> set w) \<Longrightarrow> split_on c (join_on c ws) = ws"
  by (induction c ws rule: join_on.induct) (auto simp: split_on_plain split_on_append_sep)

lemma HasPrefix_append [simp]: "HasPrefix (p @ s) p"
  by (simp add: HasPrefix_def)

lemma HasPrefix_iff: "HasPrefix s p \<longleftrightarrow> (\<exists>r. s = p @ r)"
  by (auto simp: HasPrefix_def) (metis append_take_drop_id)

lemma Contains_iff: "Contains s sub \<longleftrightarrow> (\<exists>a b. s = a @ sub @ b)"
proof (induction s)
  case (Cons x xs)
  then show ?case
    by (auto simp: HasPrefix_iff Cons_eq_append_conv)
qed simp

lemma Cut_Some_iff: "Cut c s = Some (a, b) \<longleftrightarrow> s = a @ c # b \<and> c \<notin> set a"
proof (induction s arbitrary: a)
  case (Cons x xs)
  then show ?case by (cases a) auto
qed simp

section \<open>path\<close>

text \<open>
  \<^verbatim>\<open>path.Clean\<close>, element by element: empty and \<^verbatim>\<open>.\<close> elements are dropped, \<^verbatim>\<open>..\<close> removes the element
  before it, a leading \<^verbatim>\<open>..\<close> stays in a relative path and is dropped at the root. The stack holds the
  elements kept so far, the last one first.
\<close>

definition clean_step :: "bool \<Rightarrow> string \<Rightarrow> string list \<Rightarrow> string list" where
  "clean_step rooted el stack =
     (if el = '''' \<or> el = ''.'' then stack
      else if el = ''..'' then
        (case stack of
           [] \<Rightarrow> if rooted then [] else [''..'']
         | t # rest \<Rightarrow> if t = ''..'' then ''..'' # stack else rest)
      else el # stack)"

definition Clean :: "string \<Rightarrow> string" where
  "Clean p =
     (if p = '''' then ''.''
      else
        let rooted = (hd p = CHR ''/'');
            els = rev (fold (clean_step rooted) (split_on CHR ''/'' p) []);
            out = (if rooted then ''/'' else '''') @ join_on CHR ''/'' els
        in if out = '''' then ''.'' else out)"

fun strip_trailing_slashes :: "string \<Rightarrow> string" where
  "strip_trailing_slashes s =
     (if s \<noteq> [] \<and> last s = CHR ''/'' then strip_trailing_slashes (butlast s) else s)"

declare strip_trailing_slashes.simps [simp del]

definition Base :: "string \<Rightarrow> string" where
  "Base p =
     (if p = '''' then ''.''
      else let b = last (split_on CHR ''/'' (strip_trailing_slashes p))
           in if b = '''' then ''/'' else b)"

text \<open>\<^verbatim>\<open>path.Dir\<close>: everything before the last element, cleaned; \<^verbatim>\<open>path.Join\<close> of two elements.\<close>

definition Dir :: "string \<Rightarrow> string" where
  "Dir p =
     (let els = butlast (split_on CHR ''/'' p)
      in Clean (if els = [] then '''' else join_on CHR ''/'' els @ ''/''))"

definition Join :: "string \<Rightarrow> string \<Rightarrow> string" where
  "Join a b =
     (if a = '''' \<and> b = '''' then ''''
      else if a = '''' then Clean b
      else if b = '''' then Clean a
      else Clean (a @ ''/'' @ b))"

definition plain_element :: "string \<Rightarrow> bool" where
  "plain_element el \<longleftrightarrow> el \<noteq> '''' \<and> el \<noteq> ''.'' \<and> el \<noteq> ''..''"

lemma fold_clean_plain:
  "(\<And>el. el \<in> set els \<Longrightarrow> plain_element el) \<Longrightarrow> fold (clean_step r) els st = rev els @ st"
  by (induction els arbitrary: st) (auto simp: clean_step_def plain_element_def)

lemma Clean_plain:
  assumes "p \<noteq> ''''" and "\<And>el. el \<in> set (split_on CHR ''/'' p) \<Longrightarrow> plain_element el"
  shows "Clean p = p"
proof -
  obtain c cs where p: "p = c # cs"
    using assms(1) by (cases p) auto
  have "c \<noteq> CHR ''/''"
  proof
    assume "c = CHR ''/''"
    then have "'''' \<in> set (split_on CHR ''/'' p)" by (simp add: p)
    with assms(2) show False by (force simp: plain_element_def)
  qed
  then show ?thesis
    using assms join_split [of "CHR ''/''" p]
    by (simp add: Clean_def Let_def fold_clean_plain p del: join_split)
qed

lemma strip_trailing_plain: "p = [] \<or> last p \<noteq> CHR ''/'' \<Longrightarrow> strip_trailing_slashes p = p"
  by (subst strip_trailing_slashes.simps) auto

lemma Base_no_trailing:
  "p \<noteq> '''' \<Longrightarrow> last p \<noteq> CHR ''/'' \<Longrightarrow>
   Base p = (let b = last (split_on CHR ''/'' p) in if b = '''' then ''/'' else b)"
  by (simp add: Base_def strip_trailing_plain)

lemma Base_append:
  assumes "CHR ''/'' \<notin> set y" and "y \<noteq> ''''"
  shows "Base (x @ y) = last (split_on CHR ''/'' x) @ y"
proof -
  have "last (x @ y) \<noteq> CHR ''/''"
    using assms by (metis last_appendR last_in_set)
  then show ?thesis
    using assms by (simp add: Base_no_trailing split_on_append Let_def)
qed

section \<open>encoding/hex\<close>

definition hex_digit :: "nat \<Rightarrow> char" where
  "hex_digit n = ''0123456789abcdef'' ! (n mod 16)"

definition is_lower_hex :: "char \<Rightarrow> bool" where
  "is_lower_hex c \<longleftrightarrow> c \<in> set ''0123456789abcdef''"

definition is_hex :: "char \<Rightarrow> bool" where
  "is_hex c \<longleftrightarrow> c \<in> set ''0123456789abcdefABCDEF''"

definition hex_byte :: "char \<Rightarrow> string" where
  "hex_byte b = (let n = of_char b :: nat in [hex_digit (n div 16), hex_digit n])"

text \<open>\<^verbatim>\<open>hex.EncodeToString\<close>, and whether \<^verbatim>\<open>hex.DecodeString\<close> returns without an error.\<close>

definition hex_encode :: "bytes \<Rightarrow> string" where
  "hex_encode bs = concat (map hex_byte bs)"

definition hex_decodes :: "string \<Rightarrow> bool" where
  "hex_decodes s \<longleftrightarrow> even (length s) \<and> list_all is_hex s"

lemma length_hex_encode [simp]: "length (hex_encode bs) = 2 * length bs"
  by (induction bs) (auto simp: hex_encode_def hex_byte_def Let_def)

lemma hex_digit_lower [simp]: "is_lower_hex (hex_digit n)"
proof -
  have "hex_digit n \<in> set ''0123456789abcdef''"
    unfolding hex_digit_def by (rule nth_mem) simp
  then show ?thesis by (simp only: is_lower_hex_def)
qed

lemma hex_encode_lower: "list_all is_lower_hex (hex_encode bs)"
  by (induction bs) (auto simp: hex_encode_def hex_byte_def Let_def)

lemma lower_hex_is_hex: "is_lower_hex c \<Longrightarrow> is_hex c"
  by (auto simp: is_lower_hex_def is_hex_def)

lemma hex_decodes_encode [simp]: "hex_decodes (hex_encode bs)"
  using hex_encode_lower [of bs] by (auto simp: hex_decodes_def list_all_iff lower_hex_is_hex)

lemma hex_digit_inj: "m < 16 \<Longrightarrow> n < 16 \<Longrightarrow> hex_digit m = hex_digit n \<Longrightarrow> m = n"
proof -
  have "distinct ''0123456789abcdef''" by simp
  then show "m < 16 \<Longrightarrow> n < 16 \<Longrightarrow> hex_digit m = hex_digit n \<Longrightarrow> m = n"
    unfolding hex_digit_def by (simp add: nth_eq_iff_index_eq del: distinct.simps)
qed

lemma hex_byte_inj: "hex_byte a = hex_byte b \<Longrightarrow> a = b"
proof -
  assume eq: "hex_byte a = hex_byte b"
  let ?m = "of_char a :: nat" and ?n = "of_char b :: nat"
  have mod: "hex_digit (k mod 16) = hex_digit k" for k
    by (simp add: hex_digit_def)
  have bound: "?m div 16 < 16" "?n div 16 < 16"
    by (rule less_mult_imp_div_less, simp)+
  have "?m div 16 = ?n div 16"
    using eq hex_digit_inj [OF bound] by (simp add: hex_byte_def Let_def)
  moreover have "?m mod 16 = ?n mod 16"
    using eq hex_digit_inj [of "?m mod 16" "?n mod 16"] by (simp add: hex_byte_def Let_def mod)
  ultimately have "?m = ?n" by (metis div_mult_mod_eq)
  then show "a = b" by simp
qed

lemma hex_encode_inj: "hex_encode a = hex_encode b \<Longrightarrow> a = b"
proof (induction a arbitrary: b)
  case Nil
  then show ?case by (cases b) (auto simp: hex_encode_def hex_byte_def Let_def)
next
  case (Cons x a)
  then obtain y b' where b: "b = y # b'"
    by (cases b) (auto simp: hex_encode_def hex_byte_def Let_def)
  have "hex_byte x @ hex_encode a = hex_byte y @ hex_encode b'"
    using Cons.prems by (simp add: hex_encode_def b)
  then have "hex_byte x = hex_byte y \<and> hex_encode a = hex_encode b'"
    by (simp add: hex_byte_def Let_def)
  with Cons.IH hex_byte_inj b show ?case by blast
qed

end
