(* ===== verification/Sha256.thy ===== *)
theory Sha256
  imports Go_Strings
begin

text \<open>
  The hash functions of Go's standard library that the program calls: \<^verbatim>\<open>crypto/sha256\<close>, \<^verbatim>\<open>crypto/hmac\<close>
  and \<^verbatim>\<open>crypto/hkdf\<close> over it, and \<^verbatim>\<open>base64.RawURLEncoding\<close>. SHA-256 is written out on 32 bit words
  as in FIPS 180-4, so that the content addresses of the store are values and not a parameter; the
  theory \<open>Sha256_Vectors\<close> evaluates a published test vector by the simplifier.
\<close>

section \<open>SHA-256\<close>

definition sha256_K :: "uint32 list" where
  "sha256_K =
    [1116352408, 1899447441, 3049323471, 3921009573, 961987163, 1508970993, 2453635748,
      2870763221, 3624381080, 310598401, 607225278, 1426881987, 1925078388, 2162078206,
      2614888103, 3248222580, 3835390401, 4022224774, 264347078, 604807628, 770255983,
      1249150122, 1555081692, 1996064986, 2554220882, 2821834349, 2952996808, 3210313671,
      3336571891, 3584528711, 113926993, 338241895, 666307205, 773529912, 1294757372,
      1396182291, 1695183700, 1986661051, 2177026350, 2456956037, 2730485921, 2820302411,
      3259730800, 3345764771, 3516065817, 3600352804, 4094571909, 275423344, 430227734,
      506948616, 659060556, 883997877, 958139571, 1322822218, 1537002063, 1747873779,
      1955562222, 2024104815, 2227730452, 2361852424, 2428436474, 2756734187, 3204031479,
      3329325298]"

definition sha256_H0 :: "uint32 list" where
  "sha256_H0 =
    [1779033703, 3144134277, 1013904242, 2773480762, 1359893119, 2600822924, 528734635,
      1541459225]"

definition rotr :: "nat \<Rightarrow> uint32 \<Rightarrow> uint32" where
  "rotr n x = drop_bit n x OR push_bit (32 - n) x"

definition byte_val :: "char \<Rightarrow> uint32" where
  "byte_val c = of_char c"

fun be_words :: "bytes \<Rightarrow> uint32 list" where
  "be_words (a # b # c # d # rest) =
     (((byte_val a * 256 + byte_val b) * 256 + byte_val c) * 256 + byte_val d) # be_words rest"
| "be_words _ = []"

definition word_bytes :: "uint32 \<Rightarrow> bytes" where
  "word_bytes w = map (\<lambda>k. char_of (uint (drop_bit k w AND 255))) [24, 16, 8, 0]"

text \<open>The message, a one bit, zeros up to 56 modulo 64, and the bit length in eight bytes.\<close>

definition sha256_pad :: "bytes \<Rightarrow> bytes" where
  "sha256_pad m =
     (let n = length m; z = (119 - n mod 64) mod 64; bits = 8 * int n
      in m @ [CHR 0x80] @ replicate z (CHR 0x00)
         @ map (\<lambda>k. char_of (drop_bit k bits)) [56, 48, 40, 32, 24, 16, 8, 0])"

fun blocks16 :: "nat \<Rightarrow> uint32 list \<Rightarrow> uint32 list list" where
  "blocks16 0 ws = []"
| "blocks16 (Suc n) ws = take 16 ws # blocks16 n (drop 16 ws)"

text \<open>The message schedule, latest word first.\<close>

fun sha256_extend :: "nat \<Rightarrow> uint32 list \<Rightarrow> uint32 list" where
  "sha256_extend 0 ws = ws"
| "sha256_extend (Suc n) ws =
     (let a = ws ! 14; b = ws ! 1;
          s0 = rotr 7 a XOR rotr 18 a XOR drop_bit 3 a;
          s1 = rotr 17 b XOR rotr 19 b XOR drop_bit 10 b
      in sha256_extend n ((ws ! 15 + s0 + ws ! 6 + s1) # ws))"

definition sha256_schedule :: "uint32 list \<Rightarrow> uint32 list" where
  "sha256_schedule block = rev (sha256_extend 48 (rev block))"

fun sha256_round :: "uint32 \<times> uint32 \<Rightarrow> uint32 list \<Rightarrow> uint32 list" where
  "sha256_round (k, w) [a, b, c, d, e, f, g, h] =
     (let S1 = rotr 6 e XOR rotr 11 e XOR rotr 25 e;
          ch = (e AND f) XOR (NOT e AND g);
          t1 = h + S1 + ch + k + w;
          S0 = rotr 2 a XOR rotr 13 a XOR rotr 22 a;
          maj = (a AND b) XOR (a AND c) XOR (b AND c);
          t2 = S0 + maj
      in [t1 + t2, a, b, c, d + t1, e, f, g])"
| "sha256_round _ st = st"

definition sha256_block :: "uint32 list \<Rightarrow> uint32 list \<Rightarrow> uint32 list" where
  "sha256_block block st =
     map2 (+) st (fold sha256_round (zip sha256_K (sha256_schedule block)) st)"

definition sha256_words :: "bytes \<Rightarrow> uint32 list" where
  "sha256_words m =
     (let p = sha256_pad m
      in fold sha256_block (blocks16 (length p div 64) (be_words p)) sha256_H0)"

definition sha256 :: "bytes \<Rightarrow> bytes" where
  "sha256 m = concat (map word_bytes (sha256_words m))"

lemma length_sha256_round [simp]: "length (sha256_round kw st) = length st"
  by (cases "(kw, st)" rule: sha256_round.cases) (auto simp: Let_def)

lemma length_fold_round [simp]: "length (fold sha256_round kws st) = length st"
  by (induction kws arbitrary: st) auto

lemma length_sha256_block [simp]: "length (sha256_block b st) = length st"
  by (simp add: sha256_block_def)

lemma length_fold_block [simp]: "length (fold sha256_block bs st) = length st"
  by (induction bs arbitrary: st) auto

lemma length_sha256_words [simp]: "length (sha256_words m) = 8"
  by (simp add: sha256_words_def sha256_H0_def Let_def)

lemma length_concat_word_bytes [simp]: "length (concat (map word_bytes ws)) = 4 * length ws"
  by (induction ws) (auto simp: word_bytes_def)

lemma length_sha256 [simp]: "length (sha256 m) = 32"
  by (simp add: sha256_def)

section \<open>HMAC-SHA256 and HKDF\<close>

definition xor_pad :: "nat \<Rightarrow> bytes \<Rightarrow> bytes" where
  "xor_pad v key = map (\<lambda>c. char_of ((of_char c :: nat) XOR v)) key"

text \<open>The key of an HMAC is hashed when it is longer than a block and padded with zeros to one.\<close>

definition hmac_key :: "bytes \<Rightarrow> bytes" where
  "hmac_key key =
     (let k = (if 64 < length key then sha256 key else key)
      in k @ replicate (64 - length k) (CHR 0x00))"

definition hmac :: "bytes \<Rightarrow> bytes \<Rightarrow> bytes" where
  "hmac key msg =
     sha256 (xor_pad 0x5c (hmac_key key) @ sha256 (xor_pad 0x36 (hmac_key key) @ msg))"

lemma length_hmac [simp]: "length (hmac key msg) = 32"
  by (simp add: hmac_def)

text \<open>
  \<^verbatim>\<open>hkdf.Key(sha256.New, secret, salt, info, n)\<close>: extract, then as many counter blocks as \<open>n\<close> bytes
  take; None is the error for more than 255 blocks.
\<close>

fun hkdf_blocks :: "nat \<Rightarrow> nat \<Rightarrow> bytes \<Rightarrow> bytes \<Rightarrow> bytes \<Rightarrow> bytes" where
  "hkdf_blocks 0 i prk prev info = []"
| "hkdf_blocks (Suc n) i prk prev info =
     (let t = hmac prk (prev @ info @ [char_of i]) in t @ hkdf_blocks n (Suc i) prk t info)"

definition hkdf_key :: "bytes \<Rightarrow> bytes \<Rightarrow> string \<Rightarrow> nat \<Rightarrow> bytes option" where
  "hkdf_key secret salt info n =
     (if 255 * 32 < n then None
      else Some (take n (hkdf_blocks ((n + 31) div 32) 1 (hmac salt secret) [] info)))"

lemma length_hkdf_blocks [simp]: "length (hkdf_blocks n i prk prev info) = 32 * n"
  by (induction n arbitrary: i prev) (auto simp: Let_def)

lemma hkdf_key_32: "\<exists>k. hkdf_key secret salt info 32 = Some k \<and> length k = 32"
  by (simp add: hkdf_key_def)

section \<open>base64.RawURLEncoding\<close>

definition b64_char :: "nat \<Rightarrow> char" where
  "b64_char n =
     (''ABCDEFGHIJKLMNOPQRSTUVWXYZabcdefghijklmnopqrstuvwxyz0123456789-_'') ! (n mod 64)"

fun b64_encode :: "bytes \<Rightarrow> string" where
  "b64_encode [] = []"
| "b64_encode [a] =
     (let x = of_char a :: nat in [b64_char (x div 4), b64_char (x * 16)])"
| "b64_encode [a, b] =
     (let x = of_char a :: nat; y = of_char b :: nat
      in [b64_char (x div 4), b64_char (x * 16 + y div 16), b64_char (y * 4)])"
| "b64_encode (a # b # c # rest) =
     (let x = of_char a :: nat; y = of_char b :: nat; z = of_char c :: nat
      in [b64_char (x div 4), b64_char (x * 16 + y div 16), b64_char (y * 4 + z div 64), b64_char z]
         @ b64_encode rest)"

lemma b64_char_in:
  "b64_char n \<in> set ''ABCDEFGHIJKLMNOPQRSTUVWXYZabcdefghijklmnopqrstuvwxyz0123456789-_''"
  unfolding b64_char_def by (rule nth_mem) simp

lemma b64_char_not_colon: "b64_char n \<noteq> CHR '':''"
proof
  assume "b64_char n = CHR '':''"
  with b64_char_in [of n]
  have "CHR '':'' \<in> set ''ABCDEFGHIJKLMNOPQRSTUVWXYZabcdefghijklmnopqrstuvwxyz0123456789-_''"
    by (simp only:)
  then show False by simp
qed

lemma b64_encode_no_colon: "CHR '':'' \<notin> set (b64_encode bs)"
  using b64_char_not_colon
  by (induction bs rule: b64_encode.induct) (auto simp: Let_def dest: sym)

end
