(* ===== verification/Core_Entry.thy ===== *)
theory Core_Entry
  imports Core_HLC Sha256
begin

text \<open>
  \<^verbatim>\<open>internal/core/entry.go\<close>: the kinds of entry, the replicated metadata of a path and the address of
  a file's content. \<^verbatim>\<open>Kind\<close> is a \<^verbatim>\<open>uint8\<close> that arrives from peers, so it is a word with two valid
  values. The hybrid clock's version of an entry is the field \<open>Ver\<close>; the other fields keep their
  names.
\<close>

type_synonym Kind = uint8

definition KindFile :: Kind where
  [simp]: "KindFile = 1"

definition KindDir :: Kind where
  [simp]: "KindDir = 2"

definition Valid :: "Kind \<Rightarrow> bool" where
  "Valid k \<longleftrightarrow> k = KindFile \<or> k = KindDir"

definition Kind_String :: "Kind \<Rightarrow> string" where
  "Kind_String k =
     (if k = KindFile then ''file''
      else if k = KindDir then ''dir''
      else ''kind('' @ dec_nat (unat k) @ '')'')"

record Meta =
  Path :: string
  Kind :: Kind
  Hash :: string
  PrevHash :: string
  Size :: int
  Mode :: uint32
  UID :: uint32
  GID :: uint32
  Ver :: Version
  Deleted :: bool
  DeletedAt :: int
  Seq :: int

text \<open>The zero value of the struct, and the literal \<^verbatim>\<open>core.Meta{Path: p, Version: v}\<close> others extend.\<close>

definition zero_Meta :: Meta where
  "zero_Meta =
     \<lparr>Path = '''', Kind = 0, Hash = '''', PrevHash = '''', Size = 0, Mode = 0, UID = 0, GID = 0,
      Ver = Version (Timestamp 0 0) '''', Deleted = False, DeletedAt = 0, Seq = 0\<rparr>"

lemma zero_Meta_simps [simp]:
  "Path zero_Meta = ''''" "Kind zero_Meta = 0" "Hash zero_Meta = ''''" "PrevHash zero_Meta = ''''"
  "Size zero_Meta = 0" "Mode zero_Meta = 0" "UID zero_Meta = 0" "GID zero_Meta = 0"
  "Deleted zero_Meta = False" "DeletedAt zero_Meta = 0" "Seq zero_Meta = 0"
  by (simp_all add: zero_Meta_def)

definition HashContent :: "bytes \<Rightarrow> string" where
  "HashContent b = hex_encode (sha256 b)"

lemma length_HashContent [simp]: "length (HashContent b) = 64"
  by (simp add: HashContent_def)

lemma HashContent_nonempty [simp]: "HashContent b \<noteq> ''''" "'''' \<noteq> HashContent b"
  using length_HashContent [of b] by (metis list.size(3) zero_neq_numeral)+

lemma HashContent_hex [simp]: "hex_decodes (HashContent b)"
  by (simp add: HashContent_def)

text \<open>An entry without its position in the local feed: what two nodes compare.\<close>

definition replicated :: "Meta \<Rightarrow> Meta" where
  "replicated m = m\<lparr>Seq := 0\<rparr>"

lemma replicated_simps [simp]:
  "Path (replicated m) = Path m" "Kind (replicated m) = Kind m" "Hash (replicated m) = Hash m"
  "PrevHash (replicated m) = PrevHash m" "Size (replicated m) = Size m"
  "Mode (replicated m) = Mode m" "UID (replicated m) = UID m" "GID (replicated m) = GID m"
  "Ver (replicated m) = Ver m" "Deleted (replicated m) = Deleted m"
  "DeletedAt (replicated m) = DeletedAt m" "Seq (replicated m) = 0"
  "replicated (m\<lparr>Seq := n\<rparr>) = replicated m" "replicated (replicated m) = replicated m"
  by (simp_all add: replicated_def)

end
