(* ===== verification/Core_Path.thy ===== *)
theory Core_Path
  imports Core_Entry
begin

text \<open>
  \<^verbatim>\<open>internal/core/path.go\<close>: which paths and mode bits are let in from outside the process, and the
  names of conflict copies.
\<close>

definition MaxPathLen :: nat where
  "MaxPathLen = 4096"

definition MaxNameLen :: nat where
  "MaxNameLen = 255"

text \<open>The loop over the elements of the path: None when every element passes.\<close>

fun bad_element :: "string list \<Rightarrow> err option" where
  "bad_element [] = None"
| "bad_element (el # els) =
     (if el = '''' then Some ErrBadPath
      else if el = ''.'' \<or> el = ''..'' then Some ErrBadPath
      else if length el > MaxNameLen then Some ErrBadPath
      else bad_element els)"

definition SanitizePath :: "string \<Rightarrow> err + string" where
  "SanitizePath p =
     (if p = '''' then Inl ErrBadPath
      else if length p > MaxPathLen then Inl ErrBadPath
      else if CHR 0x00 \<in> set p then Inl ErrBadPath
      else if HasPrefix p ''/'' then Inl ErrBadPath
      else if Clean p \<noteq> p then Inl ErrBadPath
      else (case bad_element (split_on CHR ''/'' p) of Some e \<Rightarrow> Inl e | None \<Rightarrow> Inr p))"

text \<open>\<^verbatim>\<open>fs.ModePerm | fs.ModeSetuid | fs.ModeSetgid | fs.ModeSticky\<close> of package \<^verbatim>\<open>io/fs\<close>.\<close>

definition mode_mask :: uint32 where
  "mode_mask = 0x1FF OR push_bit 23 1 OR push_bit 22 1 OR push_bit 20 1"

definition SanitizeMode :: "uint32 \<Rightarrow> uint32" where
  "SanitizeMode mode = mode AND mode_mask"

definition ConflictName :: "string \<Rightarrow> string \<Rightarrow> int \<Rightarrow> string" where
  "ConflictName p node unixNano = p @ ''.conflict.'' @ node @ ''.'' @ dec_int unixNano"

definition IsConflictName :: "string \<Rightarrow> bool" where
  "IsConflictName p = Contains (Base p) ''.conflict.''"

section \<open>What a sanitized path is\<close>

definition good_element :: "string \<Rightarrow> bool" where
  "good_element el \<longleftrightarrow> plain_element el \<and> length el \<le> MaxNameLen"

definition good_path :: "string \<Rightarrow> bool" where
  "good_path p \<longleftrightarrow>
     p \<noteq> '''' \<and> length p \<le> MaxPathLen \<and> CHR 0x00 \<notin> set p
     \<and> (\<forall>el \<in> set (split_on CHR ''/'' p). good_element el)"

lemma bad_element_None: "bad_element els = None \<longleftrightarrow> (\<forall>el \<in> set els. good_element el)"
  by (induction els) (auto simp: good_element_def plain_element_def)

lemma SanitizePath_error: "SanitizePath p = Inl e \<Longrightarrow> e = ErrBadPath"
proof -
  have "bad_element els = Some e' \<Longrightarrow> e' = ErrBadPath" for els e'
    by (induction els) (auto split: if_splits)
  then show "SanitizePath p = Inl e \<Longrightarrow> e = ErrBadPath"
    by (auto simp: SanitizePath_def split: if_splits option.splits)
qed

lemma good_path_not_rooted: "good_path p \<Longrightarrow> \<not> HasPrefix p ''/''"
proof
  assume "good_path p" and "HasPrefix p ''/''"
  then obtain r where p: "p = CHR ''/'' # r" and els: "\<forall>el \<in> set (split_on CHR ''/'' p). good_element el"
    by (auto simp: HasPrefix_iff good_path_def)
  have "'''' \<in> set (split_on CHR ''/'' p)" by (simp add: p)
  with els have "good_element ''''" by blast
  then show False by (simp add: good_element_def plain_element_def)
qed

lemma SanitizePath_iff: "SanitizePath p = Inr q \<longleftrightarrow> q = p \<and> good_path p"
proof
  assume "SanitizePath p = Inr q"
  then have "q = p" "p \<noteq> ''''" "length p \<le> MaxPathLen" "CHR 0x00 \<notin> set p"
    and "bad_element (split_on CHR ''/'' p) = None"
    by (simp_all add: SanitizePath_def split: if_splits option.splits)
  then show "q = p \<and> good_path p"
    by (simp only: good_path_def bad_element_None simp_thms)
next
  assume q: "q = p \<and> good_path p"
  then have "Clean p = p"
    by (intro Clean_plain) (auto simp: good_path_def good_element_def)
  with q good_path_not_rooted show "SanitizePath p = Inr q"
    using bad_element_None [of "split_on CHR ''/'' p"]
    by (simp add: SanitizePath_def good_path_def)
qed

lemma SanitizePath_good [simp]: "good_path p \<Longrightarrow> SanitizePath p = Inr p"
  by (simp add: SanitizePath_iff)

lemma SanitizePath_bad: "\<not> good_path p \<Longrightarrow> SanitizePath p = Inl ErrBadPath"
  by (metis SanitizePath_error SanitizePath_iff sum.exhaust)

lemma bit_mode_mask: "bit mode_mask n \<longleftrightarrow> n < 9 \<or> n = 20 \<or> n = 22 \<or> n = 23"
proof -
  have all: "list_all (\<lambda>n. bit mode_mask n \<longleftrightarrow> n < 9 \<or> n = 20 \<or> n = 22 \<or> n = 23) [0..<32]"
    by code_simp
  show ?thesis
  proof (cases "n < 32")
    case True
    then have "n \<in> set [0..<32]" by simp
    with all show ?thesis unfolding list_all_iff by blast
  next
    case False
    then show ?thesis by (auto dest: bit_imp_le_length)
  qed
qed

lemma bit_SanitizeMode:
  "bit (SanitizeMode m) n \<longleftrightarrow> bit m n \<and> (n < 9 \<or> n = 20 \<or> n = 22 \<or> n = 23)"
  by (simp add: SanitizeMode_def bit_and_iff bit_mode_mask)

lemma SanitizeMode_idem [simp]: "SanitizeMode (SanitizeMode m) = SanitizeMode m"
  by (rule bit_eqI) (auto simp: bit_SanitizeMode)

lemma ConflictName_inj:
  assumes "ConflictName p n t = ConflictName p n' t'"
  shows "n = n' \<and> t = t'"
proof -
  let ?d = "CHR ''.''"
  have no_dot: "?d \<notin> set (dec_int i)" for i
  proof -
    have "d < 10 \<Longrightarrow> digit d \<noteq> ?d" for d
      by (drule digit_cases) (auto simp: digit_def)
    then show ?thesis
      by (auto simp: dec_int_def dest!: dec_nat_chars) (metis)+
  qed
  have "rev (ConflictName p n t) = rev (dec_int t) @ ?d # rev n @ rev (p @ ''.conflict.'')" for n t
    by (simp add: ConflictName_def)
  then have "rev (dec_int t) @ ?d # rev n @ rev (p @ ''.conflict.'')
      = rev (dec_int t') @ ?d # rev n' @ rev (p @ ''.conflict.'')"
    using assms by metis
  moreover have "Cut ?d (rev (dec_int t) @ ?d # x) = Some (rev (dec_int t), x)" for t x
    by (simp add: Cut_Some_iff no_dot)
  ultimately have "(rev (dec_int t), rev n @ rev (p @ ''.conflict.''))
      = (rev (dec_int t'), rev n' @ rev (p @ ''.conflict.''))"
    by (metis option.inject)
  then show ?thesis by (auto dest: dec_int_inj)
qed

lemma IsConflictName_ConflictName:
  assumes "CHR ''/'' \<notin> set node"
  shows "IsConflictName (ConflictName p node t)"
proof -
  let ?y = "''.conflict.'' @ node @ ''.'' @ dec_int t"
  have "Base (p @ ?y) = last (split_on CHR ''/'' p) @ ?y"
    using assms dec_int_chars(2) by (intro Base_append) auto
  then show ?thesis
    by (auto simp: IsConflictName_def ConflictName_def Contains_iff)
qed

section \<open>Properties\<close>

text \<open>C20. \<^verbatim>\<open>SanitizePath\<close> lets a path through, unchanged, exactly when it is not empty, at most 4096 bytes
  long, free of NUL, and every element between slashes is non-empty, at most 255 bytes long and
  neither \<^verbatim>\<open>.\<close> nor \<^verbatim>\<open>..\<close>; such a path is relative and stays as it is under \<^verbatim>\<open>path.Clean\<close>. Everything else
  is refused with \<^verbatim>\<open>ErrBadPath\<close>.\<close>

theorem SanitizePath_exact:
  "SanitizePath p =
     (if p \<noteq> '''' \<and> length p \<le> 4096 \<and> CHR 0x00 \<notin> set p
         \<and> list_all (\<lambda>el. el \<noteq> '''' \<and> el \<noteq> ''.'' \<and> el \<noteq> ''..'' \<and> length el \<le> 255)
             (split_on CHR ''/'' p)
      then Inr p else Inl ErrBadPath)"
  using SanitizePath_good [of p] SanitizePath_bad [of p]
  by (simp add: good_path_def good_element_def plain_element_def list_all_iff MaxPathLen_def
      MaxNameLen_def)

text \<open>\<^verbatim>\<open>SanitizeMode\<close> keeps a bit exactly when it is one of the nine permission bits or one of the
  three bits Go's \<^verbatim>\<open>io/fs\<close> uses for setuid, setgid and sticky (23, 22 and 20). The setuid, setgid and
  sticky bits of a Unix mode, 0o7000, which are what the FUSE layer hands to it, are always cleared.\<close>

theorem SanitizeMode_bits:
  "(bit (SanitizeMode m) n \<longleftrightarrow> bit m n \<and> (n < 9 \<or> n = 20 \<or> n = 22 \<or> n = 23))
   \<and> SanitizeMode m AND 0xE00 = 0"
proof -
  have "mode_mask AND 0xE00 = 0"
    by (simp add: mode_mask_def)
  then show ?thesis
    using bit_SanitizeMode [of m n] by (simp add: SanitizeMode_def and.assoc)
qed

text \<open>The name of a conflict copy is recognised as one, whatever path it was derived from, when the
  node's name has no slash; and for one path it determines the node and the time it was made from,
  so copies of versions with different origins or wall times never share a name.\<close>

theorem ConflictName_recognised:
  assumes "CHR ''/'' \<notin> set node"
  shows "IsConflictName (ConflictName p node t)
       \<and> (ConflictName p node t = ConflictName p node' t' \<longleftrightarrow> node = node' \<and> t = t')"
  using IsConflictName_ConflictName [OF assms] ConflictName_inj by blast

theorem ConflictName_recognised_witness:
  "ConflictName ''etc/nginx.conf'' ''node2'' 1755 = ''etc/nginx.conf.conflict.node2.1755''
   \<and> IsConflictName (ConflictName ''etc/nginx.conf'' ''node2'' 1755)
   \<and> ConflictName ''etc/nginx.conf'' ''node2'' 1755 \<noteq> ConflictName ''etc/nginx.conf'' ''node1'' 1755"
proof -
  have "CHR ''/'' \<notin> set ''node2''" by simp
  from ConflictName_recognised [OF this, of "''etc/nginx.conf''" 1755 "''node1''" 1755]
  have "IsConflictName (ConflictName ''etc/nginx.conf'' ''node2'' 1755)"
    and "ConflictName ''etc/nginx.conf'' ''node2'' 1755 \<noteq> ConflictName ''etc/nginx.conf'' ''node1'' 1755"
    by simp_all
  moreover have "ConflictName ''etc/nginx.conf'' ''node2'' 1755 = ''etc/nginx.conf.conflict.node2.1755''"
    by (simp add: ConflictName_def dec_int_def dec_nat.simps digit_def)
  ultimately show ?thesis by blast
qed

end
