(* ===== verification/Store.thy ===== *)
theory Store
  imports Core_Path
begin

text \<open>
  \<^verbatim>\<open>internal/store/store.go\<close> and its migration: the SQLite database of a node. A table is the list of
  its rows. The order of the list carries no meaning, since every query that returns several rows
  has an ORDER BY. SQLite and gorm can fail at any call: an operation takes the set of database calls
  that fail, as a predicate, and returns \<open>ErrDB\<close> for them with the tables unchanged (a statement or a
  transaction that fails is rolled back).
\<close>

section \<open>Rows\<close>

record entryRow =
  r_path :: string
  r_kind :: uint8
  r_hash :: string
  r_prev_hash :: string
  r_size :: int
  r_mode :: uint32
  r_uid :: uint32
  r_gid :: uint32
  r_hlc_wall :: int
  r_hlc_counter :: uint32
  r_origin :: string
  r_deleted :: bool
  r_deleted_at :: int
  r_seq :: int

definition meta :: "entryRow \<Rightarrow> Meta" where
  "meta r =
     \<lparr>Path = r_path r, Kind = r_kind r, Hash = r_hash r, PrevHash = r_prev_hash r,
      Size = r_size r, Mode = r_mode r, UID = r_uid r, GID = r_gid r,
      Ver = Version (Timestamp (r_hlc_wall r) (r_hlc_counter r)) (r_origin r),
      Deleted = r_deleted r, DeletedAt = r_deleted_at r, Seq = r_seq r\<rparr>"

definition rowOf :: "Meta \<Rightarrow> entryRow" where
  "rowOf m =
     \<lparr>r_path = Path m, r_kind = Kind m, r_hash = Hash m, r_prev_hash = PrevHash m,
      r_size = Size m, r_mode = Mode m, r_uid = UID m, r_gid = GID m,
      r_hlc_wall = Wall (HLC (Ver m)), r_hlc_counter = Counter (HLC (Ver m)),
      r_origin = Origin (Ver m), r_deleted = Deleted m, r_deleted_at = DeletedAt m, r_seq = 0\<rparr>"

record blobRow =
  b_hash :: string
  b_size :: int
  b_data :: bytes

record peerRow =
  p_node :: string
  p_addr :: string
  p_last_seq :: int
  p_seen_at :: int

record Store =
  entries :: "entryRow list"
  blobs :: "blobRow list"
  peers :: "peerRow list"
  local_seq :: int

text \<open>What the migration leaves: empty tables and the feed counter at zero.\<close>

definition empty_store :: Store where
  "empty_store = \<lparr>entries = [], blobs = [], peers = [], local_seq = 0\<rparr>"

datatype dbcall =
    DbGet string | DbAll | DbLive | DbManifest | DbApply | DbHead
  | DbPutBlob string | DbBlob string | DbHasBlob string
  | DbPeerSeq string | DbSetPeerSeq string | DbPeers
  | DbGCTombstones | DbGCBlobs | DbStats

type_synonym dbfault = "dbcall \<Rightarrow> bool"

section \<open>Reading entries\<close>

definition Get :: "dbfault \<Rightarrow> Store \<Rightarrow> string \<Rightarrow> err + Meta" where
  "Get flt st p =
     (if flt (DbGet p) then Inl ErrDB
      else case find (\<lambda>r. r_path r = p) (entries st) of
        None \<Rightarrow> Inl ErrNotFound
      | Some r \<Rightarrow> Inr (meta r))"

definition All_entries :: "dbfault \<Rightarrow> Store \<Rightarrow> err + Meta list" where
  "All_entries flt st =
     (if flt DbAll then Inl ErrDB else Inr (map meta (sort_key r_path (entries st))))"

definition Live :: "dbfault \<Rightarrow> Store \<Rightarrow> err + Meta list" where
  "Live flt st =
     (if flt DbLive then Inl ErrDB
      else Inr (map meta (sort_key r_path (filter (\<lambda>r. \<not> r_deleted r) (entries st)))))"

definition ManifestSince :: "dbfault \<Rightarrow> Store \<Rightarrow> int \<Rightarrow> nat \<Rightarrow> err + Meta list" where
  "ManifestSince flt st seq limit =
     (if flt DbManifest then Inl ErrDB
      else Inr (map meta (take limit (sort_key r_seq (filter (\<lambda>r. r_seq r > seq) (entries st))))))"

definition bool_text :: "bool \<Rightarrow> string" where
  "bool_text b = (if b then ''true'' else ''false'')"

text \<open>One line of the text the digest hashes: ten fields separated by NUL, closed by a newline.\<close>

definition digest_line :: "Meta \<Rightarrow> string" where
  "digest_line m =
     join_on (CHR 0x00)
       [Path m, dec_nat (unat (Kind m)), Hash m, dec_nat (unat (Mode m)), dec_nat (unat (UID m)),
        dec_nat (unat (GID m)), dec_int (Wall (HLC (Ver m))),
        dec_nat (unat (Counter (HLC (Ver m)))), Origin (Ver m), bool_text (Deleted m)]
     @ [CHR 0x0A]"

definition digest_text :: "Meta list \<Rightarrow> string" where
  "digest_text ms = concat (map digest_line ms)"

definition Digest :: "dbfault \<Rightarrow> Store \<Rightarrow> err + (string \<times> int \<times> int)" where
  "Digest flt st =
     (case All_entries flt st of
        Inl e \<Rightarrow> Inl e
      | Inr rows \<Rightarrow>
          Inr (hex_encode (sha256 (digest_text rows)), int (length rows),
               fold (\<lambda>m head. max head (Seq m)) rows 0))"

section \<open>Writing entries\<close>

definition Head :: "dbfault \<Rightarrow> Store \<Rightarrow> err + int" where
  "Head flt st = (if flt DbHead then Inl ErrDB else Inr (local_seq st))"

text \<open>
  One row of \<^verbatim>\<open>INSERT ... ON CONFLICT (path) DO UPDATE\<close>: a row with the same path is replaced, and the
  unique index on the feed position refuses a position another path already has.
\<close>

definition upsert :: "entryRow \<Rightarrow> entryRow list \<Rightarrow> entryRow list option" where
  "upsert r rows =
     (if \<exists>x \<in> set rows. r_path x \<noteq> r_path r \<and> r_seq x = r_seq r then None
      else if \<exists>x \<in> set rows. r_path x = r_path r
      then Some (map (\<lambda>x. if r_path x = r_path r then r else x) rows)
      else Some (rows @ [r]))"

fun upsert_all :: "entryRow list \<Rightarrow> entryRow list \<Rightarrow> entryRow list option" where
  "upsert_all [] rows = Some rows"
| "upsert_all (r # rs) rows =
     (case upsert r rows of None \<Rightarrow> None | Some rows' \<Rightarrow> upsert_all rs rows')"

definition Apply :: "dbfault \<Rightarrow> Store \<Rightarrow> Meta list \<Rightarrow> (err + int) \<times> Store" where
  "Apply flt st metas =
     (if metas = [] then (Head flt st, st)
      else if flt DbApply then (Inl ErrDB, st)
      else
        let head = local_seq st + int (length metas) in
        if head > max_int64 then (Inl ErrDB, st)
        else
          let base = head - int (length metas);
              rows = map (\<lambda>(i, m). (rowOf m)\<lparr>r_seq := base + int i + 1\<rparr>) (enumerate 0 metas)
          in case upsert_all rows (entries st) of
               None \<Rightarrow> (Inl ErrDB, st)
             | Some es \<Rightarrow> (Inr head, st\<lparr>entries := es, local_seq := head\<rparr>))"

section \<open>Blobs\<close>

definition PutBlob :: "dbfault \<Rightarrow> Store \<Rightarrow> bytes \<Rightarrow> (err + string) \<times> Store" where
  "PutBlob flt st content =
     (let hash = HashContent content;
          row = \<lparr>b_hash = hash, b_size = int (length content), b_data = content\<rparr>
      in if flt (DbPutBlob hash) then (Inl ErrDB, st)
         else if \<exists>b \<in> set (blobs st). b_hash b = hash then (Inr hash, st)
         else (Inr hash, st\<lparr>blobs := blobs st @ [row]\<rparr>))"

definition Blob :: "dbfault \<Rightarrow> Store \<Rightarrow> string \<Rightarrow> err + bytes" where
  "Blob flt st hash =
     (if flt (DbBlob hash) then Inl ErrDB
      else case find (\<lambda>b. b_hash b = hash) (blobs st) of
        None \<Rightarrow> Inl ErrNotFound
      | Some b \<Rightarrow> Inr (b_data b))"

definition HasBlob :: "dbfault \<Rightarrow> Store \<Rightarrow> string \<Rightarrow> err + bool" where
  "HasBlob flt st hash =
     (if flt (DbHasBlob hash) then Inl ErrDB
      else Inr (0 < length (filter (\<lambda>b. b_hash b = hash) (blobs st))))"

section \<open>Bookmarks in the peers' feeds\<close>

definition PeerSeq :: "dbfault \<Rightarrow> Store \<Rightarrow> string \<Rightarrow> err + int" where
  "PeerSeq flt st node =
     (if flt (DbPeerSeq node) then Inl ErrDB
      else case find (\<lambda>p. p_node p = node) (peers st) of
        None \<Rightarrow> Inr 0
      | Some p \<Rightarrow> Inr (p_last_seq p))"

definition SetPeerSeq ::
  "dbfault \<Rightarrow> Store \<Rightarrow> string \<Rightarrow> string \<Rightarrow> int \<Rightarrow> int \<Rightarrow> err option \<times> Store" where
  "SetPeerSeq flt st node addr seq seenAt =
     (let row = \<lparr>p_node = node, p_addr = addr, p_last_seq = seq, p_seen_at = seenAt\<rparr>
      in if flt (DbSetPeerSeq node) then (Some ErrDB, st)
         else if \<exists>p \<in> set (peers st). p_node p = node
         then (None, st\<lparr>peers := map (\<lambda>p. if p_node p = node then row else p) (peers st)\<rparr>)
         else (None, st\<lparr>peers := peers st @ [row]\<rparr>))"

record Peer =
  Peer_Node :: string
  Peer_Addr :: string
  Peer_LastSeq :: int
  Peer_SeenAt :: int

definition Peers :: "dbfault \<Rightarrow> Store \<Rightarrow> err + Peer list" where
  "Peers flt st =
     (if flt DbPeers then Inl ErrDB
      else Inr (map (\<lambda>p. \<lparr>Peer_Node = p_node p, Peer_Addr = p_addr p,
                          Peer_LastSeq = p_last_seq p, Peer_SeenAt = p_seen_at p\<rparr>)
                 (sort_key p_node (peers st))))"

section \<open>Garbage collection and statistics\<close>

definition expired :: "int \<Rightarrow> entryRow \<Rightarrow> bool" where
  "expired before r \<longleftrightarrow> r_deleted r \<and> r_deleted_at r > 0 \<and> r_deleted_at r < before"

definition GCTombstones :: "dbfault \<Rightarrow> Store \<Rightarrow> int \<Rightarrow> (err + int) \<times> Store" where
  "GCTombstones flt st before =
     (if flt DbGCTombstones then (Inl ErrDB, st)
      else (Inr (int (length (filter (expired before) (entries st)))),
            st\<lparr>entries := filter (\<lambda>r. \<not> expired before r) (entries st)\<rparr>))"

definition referenced :: "Store \<Rightarrow> string \<Rightarrow> bool" where
  "referenced st h \<longleftrightarrow> (\<exists>r \<in> set (entries st). r_hash r \<noteq> '''' \<and> r_hash r = h)"

definition GCBlobs :: "dbfault \<Rightarrow> Store \<Rightarrow> (err + int) \<times> Store" where
  "GCBlobs flt st =
     (if flt DbGCBlobs then (Inl ErrDB, st)
      else (Inr (int (length (filter (\<lambda>b. \<not> referenced st (b_hash b)) (blobs st)))),
            st\<lparr>blobs := filter (\<lambda>b. referenced st (b_hash b)) (blobs st)\<rparr>))"

record Stats =
  Stats_Entries :: int
  Stats_Tombstones :: int
  Stats_Blobs :: int
  Stats_BlobBytes :: int
  Stats_Head :: int

definition Store_Stats :: "dbfault \<Rightarrow> Store \<Rightarrow> err + Stats" where
  "Store_Stats flt st =
     (if flt DbStats then Inl ErrDB
      else case Head flt st of
        Inl e \<Rightarrow> Inl e
      | Inr head \<Rightarrow>
          Inr \<lparr>Stats_Entries = int (length (entries st)),
               Stats_Tombstones = int (length (filter r_deleted (entries st))),
               Stats_Blobs = int (length (blobs st)),
               Stats_BlobBytes = sum_list (map b_size (blobs st)),
               Stats_Head = head\<rparr>)"

section \<open>The tree a store holds, and its invariants\<close>

text \<open>
  The abstract view of the entries table: a map from paths to entries without their feed position.
  Writing entries is updating the map, one after the other.
\<close>

definition row_at :: "Store \<Rightarrow> string \<Rightarrow> entryRow option" where
  "row_at st p = find (\<lambda>r. r_path r = p) (entries st)"

definition tree :: "Store \<Rightarrow> string \<Rightarrow> Meta option" where
  "tree st p = map_option (\<lambda>r. replicated (meta r)) (row_at st p)"

definition put_all :: "Meta list \<Rightarrow> (string \<Rightarrow> Meta option) \<Rightarrow> string \<Rightarrow> Meta option" where
  "put_all ms t = fold (\<lambda>m t. t(Path m \<mapsto> replicated m)) ms t"

definition has_blob :: "Store \<Rightarrow> string \<Rightarrow> bool" where
  "has_blob st h \<longleftrightarrow> (\<exists>b \<in> set (blobs st). b_hash b = h)"

text \<open>
  The primary keys, the unique index and the feed counter: one row per path, feed positions
  positive, distinct and at most the counter; blobs stored under the hash of their data.
\<close>

definition store_inv :: "Store \<Rightarrow> bool" where
  "store_inv st \<longleftrightarrow>
     distinct (map r_path (entries st)) \<and> distinct (map r_seq (entries st))
     \<and> (\<forall>r \<in> set (entries st). 0 < r_seq r \<and> r_seq r \<le> local_seq st)
     \<and> 0 \<le> local_seq st \<and> local_seq st \<le> max_int64
     \<and> distinct (map b_hash (blobs st))
     \<and> (\<forall>b \<in> set (blobs st). b_hash b = HashContent (b_data b) \<and> b_size b = int (length (b_data b)))
     \<and> distinct (map p_node (peers st))"

text \<open>Every live file's content is in the blobs table.\<close>

definition needs_blob :: "Meta \<Rightarrow> bool" where
  "needs_blob m \<longleftrightarrow> Kind m = KindFile \<and> \<not> Deleted m \<and> Hash m \<noteq> ''''"

definition blobs_ok :: "Store \<Rightarrow> bool" where
  "blobs_ok st \<longleftrightarrow> (\<forall>r \<in> set (entries st). needs_blob (meta r) \<longrightarrow> has_blob st (r_hash r))"

lemma meta_simps [simp]:
  "Path (meta r) = r_path r" "Kind (meta r) = r_kind r" "Hash (meta r) = r_hash r"
  "PrevHash (meta r) = r_prev_hash r" "Size (meta r) = r_size r" "Mode (meta r) = r_mode r"
  "UID (meta r) = r_uid r" "GID (meta r) = r_gid r" "Deleted (meta r) = r_deleted r"
  "DeletedAt (meta r) = r_deleted_at r" "Seq (meta r) = r_seq r"
  by (simp_all add: meta_def)

lemma rowOf_simps [simp]: "r_path (rowOf m) = Path m" "r_hash (rowOf m) = Hash m"
  "r_deleted (rowOf m) = Deleted m" "r_deleted_at (rowOf m) = DeletedAt m"
  by (simp_all add: rowOf_def)

lemma meta_rowOf [simp]: "meta ((rowOf m)\<lparr>r_seq := n\<rparr>) = m\<lparr>Seq := n\<rparr>"
  by (simp add: meta_def rowOf_def)

lemma needs_blob_Seq [simp]: "needs_blob (m\<lparr>Seq := n\<rparr>) = needs_blob m"
  by (simp add: needs_blob_def)

lemma needs_blob_replicated [simp]: "needs_blob (replicated m) = needs_blob m"
  by (simp add: needs_blob_def)

lemma row_at_Some: "row_at st p = Some r \<Longrightarrow> r \<in> set (entries st) \<and> r_path r = p"
  by (auto simp: row_at_def find_Some_iff)

lemma row_at_None: "row_at st p = None \<longleftrightarrow> (\<forall>r \<in> set (entries st). r_path r \<noteq> p)"
  by (auto simp: row_at_def find_None_iff)

lemma find_key:
  "distinct (map f xs) \<Longrightarrow> x \<in> set xs \<Longrightarrow> find (\<lambda>y. f y = f x) xs = Some x"
  by (induction xs) (auto simp: image_iff)

lemma row_at_iff:
  "store_inv st \<Longrightarrow> row_at st p = Some r \<longleftrightarrow> r \<in> set (entries st) \<and> r_path r = p"
  using find_key [of r_path "entries st" r] row_at_Some [of st p r]
  unfolding row_at_def store_inv_def by blast

lemma Get_eq:
  "Get flt st p =
     (if flt (DbGet p) then Inl ErrDB
      else case row_at st p of None \<Rightarrow> Inl ErrNotFound | Some r \<Rightarrow> Inr (meta r))"
  by (simp add: Get_def row_at_def)

lemma tree_Some: "tree st p = Some m \<Longrightarrow> Path m = p \<and> Seq m = 0"
  by (auto simp: tree_def dest: row_at_Some)

lemma has_blob_iff_HasBlob: "\<not> flt (DbHasBlob h) \<Longrightarrow> HasBlob flt st h = Inr (has_blob st h)"
  by (auto simp: HasBlob_def has_blob_def filter_empty_conv)

section \<open>Writing entries keeps the invariants and updates the tree\<close>

definition numbered :: "int \<Rightarrow> Meta list \<Rightarrow> entryRow list" where
  "numbered base metas =
     map (\<lambda>(i, m). (rowOf m)\<lparr>r_seq := base + int i + 1\<rparr>) (enumerate 0 metas)"

lemma numbered_shift:
  "map (\<lambda>(i, m). (rowOf m)\<lparr>r_seq := base + int i + 1\<rparr>) (enumerate (Suc k) ms)
   = map (\<lambda>(i, m). (rowOf m)\<lparr>r_seq := base + 1 + int i + 1\<rparr>) (enumerate k ms)"
  by (induction ms arbitrary: k) auto

lemma numbered_Nil [simp]: "numbered base [] = []"
  by (simp add: numbered_def)

lemma numbered_Cons [simp]:
  "numbered base (m # ms) = (rowOf m)\<lparr>r_seq := base + 1\<rparr> # numbered (base + 1) ms"
  by (simp add: numbered_def numbered_shift)

lemma map_path_numbered: "map r_path (numbered base ms) = map Path ms"
  by (induction ms arbitrary: base) auto

lemma numbered_seq: "r \<in> set (numbered base ms) \<Longrightarrow> base < r_seq r \<and> r_seq r \<le> base + int (length ms)"
  by (induction ms arbitrary: base) fastforce+

lemma numbered_meta: "r \<in> set (numbered base ms) \<Longrightarrow> \<exists>m \<in> set ms. replicated (meta r) = replicated m \<and> needs_blob (meta r) = needs_blob m \<and> r_hash r = Hash m"
  by (induction ms arbitrary: base) fastforce+

text \<open>Rows whose positions are at most \<open>n\<close>, as the primary key and the unique index leave them.\<close>

definition rows_ok :: "int \<Rightarrow> entryRow list \<Rightarrow> bool" where
  "rows_ok n rows \<longleftrightarrow>
     distinct (map r_path rows) \<and> distinct (map r_seq rows)
     \<and> (\<forall>r \<in> set rows. 0 < r_seq r \<and> r_seq r \<le> n)"

lemma upsert_fresh:
  assumes "rows_ok n rows" and "n < r_seq r" and "0 \<le> n"
  shows "\<exists>rows'. upsert r rows = Some rows' \<and> rows_ok (r_seq r) rows'
           \<and> set rows' = insert r {x \<in> set rows. r_path x \<noteq> r_path r}"
proof (cases "\<exists>x \<in> set rows. r_path x = r_path r")
  case True
  let ?f = "\<lambda>x. if r_path x = r_path r then r else x"
  have paths: "map r_path (map ?f rows) = map r_path rows" by simp
  have inj: "inj_on r_seq (set rows)" and seqs: "\<And>x. x \<in> set rows \<Longrightarrow> 0 < r_seq x \<and> r_seq x < r_seq r"
    using assms by (auto simp: rows_ok_def distinct_map dest: le_less_trans)
  have "inj_on r_seq (set (map ?f rows))"
  proof (rule inj_onI)
    fix x y
    assume "x \<in> set (map ?f rows)" "y \<in> set (map ?f rows)" and eq: "r_seq x = r_seq y"
    then have "x = r \<or> x \<in> set rows" "y = r \<or> y \<in> set rows"
      by (auto split: if_splits)
    with eq show "x = y"
      using inj_onD [OF inj eq] seqs by fastforce
  qed
  moreover have "distinct (map ?f rows)"
  proof -
    have "distinct (map r_path (map ?f rows))"
      using assms(1) unfolding paths rows_ok_def by blast
    then show ?thesis unfolding distinct_map by blast
  qed
  ultimately have "distinct (map r_seq (map ?f rows))"
    using distinct_map [of r_seq "map ?f rows"] by blast
  then have "rows_ok (r_seq r) (map ?f rows)"
    unfolding rows_ok_def paths using assms seqs by (auto simp: rows_ok_def intro: less_imp_le)
  moreover have "upsert r rows = Some (map ?f rows)"
    using True by (auto simp: upsert_def dest: seqs)
  moreover have "set (map ?f rows) = insert r {x \<in> set rows. r_path x \<noteq> r_path r}"
    using True by auto
  ultimately show ?thesis by blast
next
  case False
  then have "upsert r rows = Some (rows @ [r])"
    using assms by (auto simp: upsert_def rows_ok_def)
  moreover have "rows_ok (r_seq r) (rows @ [r])"
    using False assms by (auto simp: rows_ok_def)
  ultimately show ?thesis
    using False by auto
qed

lemma find_upsert:
  "upsert r rows = Some rows' \<Longrightarrow>
   find (\<lambda>x. r_path x = p) rows' =
     (if p = r_path r then Some r else find (\<lambda>x. r_path x = p) rows)"
proof -
  have app: "(\<forall>x \<in> set rows. r_path x \<noteq> r_path r) \<Longrightarrow>
      find (\<lambda>x. r_path x = p) (rows @ [r]) =
        (if p = r_path r then Some r else find (\<lambda>x. r_path x = p) rows)"
    by (induction rows) auto
  have rep: "(\<exists>x \<in> set rows. r_path x = r_path r) \<Longrightarrow>
      find (\<lambda>x. r_path x = p) (map (\<lambda>x. if r_path x = r_path r then r else x) rows) =
        (if p = r_path r then Some r else find (\<lambda>x. r_path x = p) rows)"
  proof (induction rows)
    case (Cons a rows)
    have "(\<forall>x \<in> set rows. r_path x \<noteq> r_path r) \<Longrightarrow>
        map (\<lambda>x. if r_path x = r_path r then r else x) rows = rows"
      by (rule map_idI) auto
    with Cons show ?case
      by (cases "\<exists>x \<in> set rows. r_path x = r_path r") auto
  qed simp
  assume "upsert r rows = Some rows'"
  then show ?thesis
    using app rep by (auto simp: upsert_def split: if_splits)
qed

lemma upsert_all_numbered:
  assumes "rows_ok n rows" and "0 \<le> n"
  shows "\<exists>rows'. upsert_all (numbered n ms) rows = Some rows'
           \<and> rows_ok (n + int (length ms)) rows'
           \<and> set rows' \<subseteq> set (numbered n ms) \<union> set rows
           \<and> (\<forall>p. find (\<lambda>x. r_path x = p) rows' =
                 (case find (\<lambda>x. r_path x = p) (rev (numbered n ms)) of
                    Some r \<Rightarrow> Some r
                  | None \<Rightarrow> find (\<lambda>x. r_path x = p) rows))"
  using assms
proof (induction ms arbitrary: n rows)
  case Nil
  then show ?case by simp
next
  case (Cons m ms)
  let ?r = "(rowOf m)\<lparr>r_seq := n + 1\<rparr>"
  obtain rows1 where up: "upsert ?r rows = Some rows1" and ok: "rows_ok (n + 1) rows1"
    and set1: "set rows1 = insert ?r {x \<in> set rows. r_path x \<noteq> r_path ?r}"
    using upsert_fresh [of n rows ?r] Cons.prems by auto
  obtain rows' where all: "upsert_all (numbered (n + 1) ms) rows1 = Some rows'"
    and ok': "rows_ok (n + 1 + int (length ms)) rows'"
    and sub: "set rows' \<subseteq> set (numbered (n + 1) ms) \<union> set rows1"
    and look: "\<And>p. find (\<lambda>x. r_path x = p) rows' =
                 (case find (\<lambda>x. r_path x = p) (rev (numbered (n + 1) ms)) of
                    Some r \<Rightarrow> Some r
                  | None \<Rightarrow> find (\<lambda>x. r_path x = p) rows1)"
    using Cons.IH [OF ok] Cons.prems by auto
  have app: "find P (xs @ [x]) = (case find P xs of Some y \<Rightarrow> Some y | None \<Rightarrow> if P x then Some x else None)"
    for P and xs :: "entryRow list" and x
    by (induction xs) auto
  have "find (\<lambda>x. r_path x = p) rows' =
      (case find (\<lambda>x. r_path x = p) (rev (numbered n (m # ms))) of
         Some r \<Rightarrow> Some r | None \<Rightarrow> find (\<lambda>x. r_path x = p) rows)" for p
    using look [of p] find_upsert [OF up, of p] by (auto simp: app split: option.splits)
  moreover have "rows_ok (n + int (length (m # ms))) rows'"
    using ok' by (simp add: algebra_simps)
  moreover have "set rows' \<subseteq> set (numbered n (m # ms)) \<union> set rows"
    using sub set1 by auto
  ultimately show ?case
    using up all by simp
qed

lemma tree_find: "tree st p = map_option (\<lambda>r. replicated (meta r)) (find (\<lambda>x. r_path x = p) (entries st))"
  by (simp add: tree_def row_at_def)

lemma put_all_Nil [simp]: "put_all [] t = t"
  by (simp add: put_all_def)

lemma put_all_Cons [simp]: "put_all (m # ms) t = put_all ms (t(Path m \<mapsto> replicated m))"
  by (simp add: put_all_def)

lemma put_all_append: "put_all (ms @ ns) t = put_all ns (put_all ms t)"
  by (simp add: put_all_def)

lemma put_all_eq:
  "put_all ms t p =
     (case find (\<lambda>m. Path m = p) (rev ms) of Some m \<Rightarrow> Some (replicated m) | None \<Rightarrow> t p)"
proof (induction ms arbitrary: t)
  case (Cons m ms)
  have "find P (xs @ [x]) = (case find P xs of Some y \<Rightarrow> Some y | None \<Rightarrow> if P x then Some x else None)"
    for P and xs :: "Meta list" and x
    by (induction xs) auto
  with Cons show ?case by (auto split: option.splits)
qed simp

lemma find_rev_numbered:
  "map_option (\<lambda>r. replicated (meta r)) (find (\<lambda>x. r_path x = p) (rev (numbered n ms)))
   = map_option replicated (find (\<lambda>m. Path m = p) (rev ms))"
proof -
  have "list_all2 (\<lambda>r m. r_path r = Path m \<and> replicated (meta r) = replicated m) (numbered n ms) ms"
    by (induction ms arbitrary: n) auto
  then have "list_all2 (\<lambda>r m. r_path r = Path m \<and> replicated (meta r) = replicated m)
      (rev (numbered n ms)) (rev ms)"
    by simp
  then show ?thesis
    by (induction rule: list_all2_induct) auto
qed

text \<open>
  \<^verbatim>\<open>Apply\<close> in the states the program reaches: it fails only when the database does or the counter is
  at its end, and otherwise keeps the invariant, moves the head by one per entry and updates the tree.
\<close>

lemma Apply_ok:
  assumes "store_inv st" and "fst (Apply flt st ms) = Inr h"
  shows "h = local_seq st + int (length ms)"
    and "store_inv (snd (Apply flt st ms))"
    and "tree (snd (Apply flt st ms)) = put_all ms (tree st)"
    and "local_seq (snd (Apply flt st ms)) = h"
    and "blobs (snd (Apply flt st ms)) = blobs st"
    and "peers (snd (Apply flt st ms)) = peers st"
    and "set (entries (snd (Apply flt st ms))) \<subseteq> set (numbered (local_seq st) ms) \<union> set (entries st)"
proof -
  have conj: "h = local_seq st + int (length ms) \<and> store_inv (snd (Apply flt st ms))
      \<and> tree (snd (Apply flt st ms)) = put_all ms (tree st) \<and> local_seq (snd (Apply flt st ms)) = h
      \<and> blobs (snd (Apply flt st ms)) = blobs st \<and> peers (snd (Apply flt st ms)) = peers st
      \<and> set (entries (snd (Apply flt st ms))) \<subseteq> set (numbered (local_seq st) ms) \<union> set (entries st)"
  proof (cases "ms = []")
    case True
    with assms show ?thesis by (auto simp: Apply_def Head_def split: if_splits)
  next
    case False
    let ?h = "local_seq st + int (length ms)"
    have ok: "rows_ok (local_seq st) (entries st)" "0 \<le> local_seq st"
      using assms(1) by (auto simp: store_inv_def rows_ok_def)
    obtain es where all: "upsert_all (numbered (local_seq st) ms) (entries st) = Some es"
      and ok': "rows_ok ?h es"
      and sub: "set es \<subseteq> set (numbered (local_seq st) ms) \<union> set (entries st)"
      and look: "\<And>p. find (\<lambda>x. r_path x = p) es =
                 (case find (\<lambda>x. r_path x = p) (rev (numbered (local_seq st) ms)) of
                    Some r \<Rightarrow> Some r | None \<Rightarrow> find (\<lambda>x. r_path x = p) (entries st))"
      using upsert_all_numbered [OF ok, of ms] by auto
    have eq: "Apply flt st ms = (Inr ?h, st\<lparr>entries := es, local_seq := ?h\<rparr>)" and le: "?h \<le> max_int64"
      using assms(2) False all by (auto simp: Apply_def Let_def numbered_def split: if_splits)
    have "tree (st\<lparr>entries := es, local_seq := ?h\<rparr>) p = put_all ms (tree st) p" for p
      using look [of p] find_rev_numbered [of p "local_seq st" ms]
      by (auto simp: tree_find put_all_eq split: option.splits)
    then have "tree (st\<lparr>entries := es, local_seq := ?h\<rparr>) = put_all ms (tree st)" ..
    moreover have "h = ?h" using assms(2) eq by simp
    moreover have "store_inv (st\<lparr>entries := es, local_seq := ?h\<rparr>)"
      using ok' le assms(1) by (auto simp: store_inv_def rows_ok_def)
    ultimately show ?thesis using eq sub by simp
  qed
  then show "h = local_seq st + int (length ms)" "store_inv (snd (Apply flt st ms))"
    "tree (snd (Apply flt st ms)) = put_all ms (tree st)" "local_seq (snd (Apply flt st ms)) = h"
    "blobs (snd (Apply flt st ms)) = blobs st" "peers (snd (Apply flt st ms)) = peers st"
    "set (entries (snd (Apply flt st ms))) \<subseteq> set (numbered (local_seq st) ms) \<union> set (entries st)"
    by blast+
qed

lemma Apply_error: "fst (Apply flt st ms) = Inl e \<Longrightarrow> snd (Apply flt st ms) = st"
  by (auto simp: Apply_def Let_def split: if_splits option.splits)

lemma Apply_succeeds:
  assumes "store_inv st" and "\<not> flt DbApply" and "\<not> flt DbHead"
    and "local_seq st + int (length ms) \<le> max_int64"
  shows "\<exists>h. fst (Apply flt st ms) = Inr h"
proof -
  have ok: "rows_ok (local_seq st) (entries st)" "0 \<le> local_seq st"
    using assms(1) by (auto simp: store_inv_def rows_ok_def)
  then show ?thesis
    using assms upsert_all_numbered [OF ok, of ms]
    by (auto simp: Apply_def Head_def Let_def numbered_def)
qed

lemma Apply_inv [inv_intros]: "store_inv st \<Longrightarrow> store_inv (snd (Apply flt st ms))"
  using Apply_ok(2) Apply_error by (cases "fst (Apply flt st ms)") auto

lemma Apply_blobs [frame]: "blobs (snd (Apply flt st ms)) = blobs st"
  "peers (snd (Apply flt st ms)) = peers st"
  by (auto simp: Apply_def Let_def split: option.splits)

section \<open>Blobs, bookmarks and garbage\<close>

lemma PutBlob_frame [frame]:
  "entries (snd (PutBlob flt st c)) = entries st" "peers (snd (PutBlob flt st c)) = peers st"
  "local_seq (snd (PutBlob flt st c)) = local_seq st" "tree (snd (PutBlob flt st c)) = tree st"
  "row_at (snd (PutBlob flt st c)) = row_at st"
  by (auto simp: PutBlob_def Let_def tree_def row_at_def fun_eq_iff)

lemma PutBlob_inv [inv_intros]: "store_inv st \<Longrightarrow> store_inv (snd (PutBlob flt st c))"
  by (auto simp: PutBlob_def Let_def store_inv_def image_iff)

lemma PutBlob_hash: "fst (PutBlob flt st c) = Inr h \<Longrightarrow> h = HashContent c"
  by (auto simp: PutBlob_def Let_def split: if_splits)

lemma PutBlob_has: "fst (PutBlob flt st c) = Inr h \<Longrightarrow> has_blob (snd (PutBlob flt st c)) h"
  by (auto simp: PutBlob_def Let_def has_blob_def split: if_splits)

lemma PutBlob_keeps: "has_blob st h \<Longrightarrow> has_blob (snd (PutBlob flt st c)) h"
  by (auto simp: PutBlob_def Let_def has_blob_def)

lemma Blob_verified: "store_inv st \<Longrightarrow> Blob flt st h = Inr c \<Longrightarrow> HashContent c = h"
  by (auto simp: Blob_def store_inv_def find_Some_iff split: if_splits option.splits)

lemma Blob_found: "has_blob st h \<Longrightarrow> \<not> flt (DbBlob h) \<Longrightarrow> \<exists>c. Blob flt st h = Inr c"
  by (auto simp: Blob_def has_blob_def find_None_iff split: option.splits)

lemma blobs_okI:
  assumes "\<And>r. r \<in> set (entries st) \<Longrightarrow> needs_blob (meta r) \<Longrightarrow> has_blob st (r_hash r)"
  shows "blobs_ok st"
  using assms by (simp add: blobs_ok_def)

lemma PutBlob_blobs_ok [inv_intros]: "blobs_ok st \<Longrightarrow> blobs_ok (snd (PutBlob flt st c))"
  by (auto simp: blobs_ok_def frame intro: PutBlob_keeps)

lemma Apply_blobs_ok [inv_intros]:
  assumes "store_inv st" and "blobs_ok st"
    and "\<And>m. m \<in> set ms \<Longrightarrow> needs_blob m \<Longrightarrow> has_blob st (Hash m)"
  shows "blobs_ok (snd (Apply flt st ms))"
proof (cases "fst (Apply flt st ms)")
  case (Inl e)
  with Apply_error assms(2) show ?thesis by metis
next
  case (Inr h)
  have has: "has_blob (snd (Apply flt st ms)) x = has_blob st x" for x
    by (simp add: has_blob_def frame)
  show ?thesis
  proof (rule blobs_okI, unfold has)
    fix r
    assume "r \<in> set (entries (snd (Apply flt st ms)))" and need: "needs_blob (meta r)"
    then consider "r \<in> set (numbered (local_seq st) ms)" | "r \<in> set (entries st)"
      using Apply_ok(7) [OF assms(1) Inr] by blast
    then show "has_blob st (r_hash r)"
    proof cases
      case 1
      then show ?thesis using numbered_meta [OF 1] need assms(3) by fastforce
    next
      case 2
      then show ?thesis using need assms(2) by (simp add: blobs_ok_def)
    qed
  qed
qed

lemma SetPeerSeq_frame [frame]:
  "entries (snd (SetPeerSeq flt st n a q t)) = entries st"
  "blobs (snd (SetPeerSeq flt st n a q t)) = blobs st"
  "local_seq (snd (SetPeerSeq flt st n a q t)) = local_seq st"
  "tree (snd (SetPeerSeq flt st n a q t)) = tree st"
  by (auto simp: SetPeerSeq_def Let_def tree_def row_at_def fun_eq_iff)

lemma SetPeerSeq_inv [inv_intros]: "store_inv st \<Longrightarrow> store_inv (snd (SetPeerSeq flt st n a q t))"
proof -
  have "p_node \<circ> (\<lambda>p. if p_node p = n then \<lparr>p_node = n, p_addr = a, p_last_seq = q, p_seen_at = t\<rparr> else p)
      = p_node"
    by auto
  then show "store_inv st \<Longrightarrow> store_inv (snd (SetPeerSeq flt st n a q t))"
    by (simp add: SetPeerSeq_def Let_def store_inv_def image_iff) metis
qed

lemma SetPeerSeq_blobs_ok [inv_intros]: "blobs_ok st \<Longrightarrow> blobs_ok (snd (SetPeerSeq flt st n a q t))"
  by (simp add: blobs_ok_def has_blob_def frame)

lemma PeerSeq_SetPeerSeq:
  assumes "fst (SetPeerSeq flt st n a q t) = None" and "\<not> flt' (DbPeerSeq n')"
  shows "PeerSeq flt' (snd (SetPeerSeq flt st n a q t)) n' =
           (if n' = n then Inr q else PeerSeq flt' st n')"
proof -
  let ?row = "\<lparr>p_node = n, p_addr = a, p_last_seq = q, p_seen_at = t\<rparr>"
  have app: "(\<forall>p \<in> set ps. p_node p \<noteq> n) \<Longrightarrow>
      find (\<lambda>p. p_node p = n') (ps @ [?row]) = (if n' = n then Some ?row else find (\<lambda>p. p_node p = n') ps)" for ps
    by (induction ps) auto
  have rep: "(\<exists>p \<in> set ps. p_node p = n) \<Longrightarrow>
      find (\<lambda>p. p_node p = n') (map (\<lambda>p. if p_node p = n then ?row else p) ps)
      = (if n' = n then Some ?row else find (\<lambda>p. p_node p = n') ps)" for ps
  proof (induction ps)
    case (Cons p ps)
    have "(\<forall>p \<in> set ps. p_node p \<noteq> n) \<Longrightarrow> map (\<lambda>p. if p_node p = n then ?row else p) ps = ps"
      by (rule map_idI) auto
    with Cons show ?case by (cases "\<exists>p \<in> set ps. p_node p = n") auto
  qed simp
  show ?thesis
  proof (cases "\<exists>p \<in> set (peers st). p_node p = n")
    case True
    then show ?thesis
      using assms rep [OF True] by (simp add: SetPeerSeq_def PeerSeq_def Let_def split: if_splits)
  next
    case False
    then show ?thesis
      using assms app [of "peers st"]
      by (simp add: SetPeerSeq_def PeerSeq_def Let_def split: if_splits)
  qed
qed

lemma GCTombstones_frame [frame]:
  "blobs (snd (GCTombstones flt st t)) = blobs st" "peers (snd (GCTombstones flt st t)) = peers st"
  "local_seq (snd (GCTombstones flt st t)) = local_seq st"
  by (simp_all add: GCTombstones_def)

lemma GCTombstones_inv [inv_intros]: "store_inv st \<Longrightarrow> store_inv (snd (GCTombstones flt st t))"
  by (auto simp: GCTombstones_def store_inv_def distinct_map_filter)

lemma GCTombstones_blobs_ok [inv_intros]: "blobs_ok st \<Longrightarrow> blobs_ok (snd (GCTombstones flt st t))"
  by (auto simp: GCTombstones_def blobs_ok_def has_blob_def)

lemma GCTombstones_tree:
  assumes "store_inv st"
  shows "tree (snd (GCTombstones flt st t)) p =
    (case row_at st p of
       Some r \<Rightarrow> if \<not> flt DbGCTombstones \<and> expired t r then None else tree st p
     | None \<Rightarrow> None)"
proof (cases "row_at (snd (GCTombstones flt st t)) p")
  case None
  then show ?thesis
    using row_at_iff [OF assms] row_at_None [of "snd (GCTombstones flt st t)" p]
    by (auto simp: tree_def GCTombstones_def split: option.splits if_splits)
next
  case (Some r)
  then have "row_at st p = Some r \<and> (flt DbGCTombstones \<or> \<not> expired t r)"
    using row_at_iff [OF assms] row_at_iff [OF GCTombstones_inv [OF assms]]
    by (auto simp: GCTombstones_def split: if_splits)
  with Some show ?thesis by (auto simp: tree_def)
qed

lemma GCBlobs_frame [frame]:
  "entries (snd (GCBlobs flt st)) = entries st" "peers (snd (GCBlobs flt st)) = peers st"
  "local_seq (snd (GCBlobs flt st)) = local_seq st" "tree (snd (GCBlobs flt st)) = tree st"
  by (auto simp: GCBlobs_def tree_def row_at_def fun_eq_iff)

lemma GCBlobs_inv [inv_intros]: "store_inv st \<Longrightarrow> store_inv (snd (GCBlobs flt st))"
  by (auto simp: GCBlobs_def store_inv_def distinct_map_filter)

lemma GCBlobs_has:
  "has_blob (snd (GCBlobs flt st)) h \<longleftrightarrow> has_blob st h \<and> (flt DbGCBlobs \<or> referenced st h)"
  by (auto simp: GCBlobs_def has_blob_def)

lemma GCBlobs_blobs_ok [inv_intros]: "blobs_ok st \<Longrightarrow> blobs_ok (snd (GCBlobs flt st))"
  by (auto simp: blobs_ok_def GCBlobs_has frame referenced_def needs_blob_def)

lemma empty_store_inv [inv_intros]: "store_inv empty_store" "blobs_ok empty_store"
  by (simp_all add: store_inv_def blobs_ok_def empty_store_def int64_defs)

section \<open>The changes feed\<close>

lemma distinct_map_sort: "distinct (map f (sort_key g xs)) \<longleftrightarrow> distinct (map f xs)"
  by (simp add: distinct_map)

lemma option_eqI: "(\<And>f. x = Some f \<longleftrightarrow> y = Some f) \<Longrightarrow> x = y"
  by (cases x; cases y) auto

definition feed :: "Store \<Rightarrow> int \<Rightarrow> Meta list" where
  "feed st since = map meta (sort_key r_seq (filter (\<lambda>r. r_seq r > since) (entries st)))"

lemma ManifestSince_feed:
  "\<not> flt DbManifest \<Longrightarrow> ManifestSince flt st since limit = Inr (take limit (feed st since))"
  by (simp add: ManifestSince_def feed_def take_map)

lemma feed_set: "m \<in> set (feed st since) \<longleftrightarrow> (\<exists>r \<in> set (entries st). m = meta r \<and> since < r_seq r)"
  by (auto simp: feed_def)

lemma feed_sorted:
  assumes "store_inv st"
  shows "sorted_wrt (<) (map Seq (feed st since))"
proof -
  let ?rows = "filter (\<lambda>r. r_seq r > since) (entries st)"
  have "map Seq (feed st since) = map r_seq (sort_key r_seq ?rows)"
    by (simp add: feed_def comp_def)
  moreover have "sorted (map r_seq (sort_key r_seq ?rows))"
    by simp
  moreover have "distinct (map r_seq (sort_key r_seq ?rows))"
    using assms by (auto simp: store_inv_def distinct_map inj_on_def)
  ultimately show ?thesis
    by (simp add: strict_sorted_iff)
qed

lemma feed_paths:
  assumes "store_inv st"
  shows "distinct (map Path (feed st since))"
  using assms by (auto simp: feed_def store_inv_def distinct_map inj_on_def comp_def)

lemma feed_tree:
  assumes "store_inv st"
  shows "m \<in> set (feed st 0) \<Longrightarrow> tree st (Path m) = Some (replicated m)"
    and "tree st p = Some m' \<Longrightarrow> \<exists>m \<in> set (feed st 0). replicated m = m' \<and> Path m = p"
proof -
  show "m \<in> set (feed st 0) \<Longrightarrow> tree st (Path m) = Some (replicated m)"
    using row_at_iff [OF assms] by (auto simp: feed_set tree_def)
  show "tree st p = Some m' \<Longrightarrow> \<exists>m \<in> set (feed st 0). replicated m = m' \<and> Path m = p"
    using assms by (auto simp: feed_def tree_def store_inv_def image_iff dest!: row_at_Some)
qed

lemma tree_iff_rows:
  "store_inv st \<Longrightarrow> tree st p = Some m \<longleftrightarrow> (\<exists>r \<in> set (entries st). r_path r = p \<and> m = replicated (meta r))"
  using row_at_iff by (fastforce simp: tree_def)

section \<open>Properties\<close>

text \<open>C16. \<^verbatim>\<open>Store.Apply\<close> refines updating a map: from a store that satisfies the invariant it either fails,
  and changes nothing, or returns the head moved on by the number of entries, keeps the invariant
  (one row per path, feed positions distinct and up to the head) and leaves a tree in which each
  written path holds the last entry written to it and every other path is as before. It fails only
  for a database fault or at the end of the 64 bit counter.\<close>

theorem Apply_refines_map_update:
  assumes "store_inv st"
  shows "case Apply flt st ms of
           (Inl e, st') \<Rightarrow> st' = st
              \<and> (flt DbApply \<or> flt DbHead \<or> local_seq st + int (length ms) > max_int64)
         | (Inr head, st') \<Rightarrow> head = local_seq st + int (length ms) \<and> local_seq st' = head
              \<and> store_inv st' \<and> tree st' = put_all ms (tree st) \<and> blobs st' = blobs st"
proof (cases "fst (Apply flt st ms)")
  case (Inl e)
  have "flt DbApply \<or> flt DbHead \<or> local_seq st + int (length ms) > max_int64"
    using Apply_succeeds [of st flt ms] assms Inl by force
  then show ?thesis
    using Inl Apply_error [OF Inl] by (auto split: prod.splits)
next
  case (Inr h)
  then show ?thesis
    using Apply_ok [OF assms Inr] by (auto split: prod.splits)
qed

theorem Apply_refines_map_update_witness:
  "let m = zero_Meta\<lparr>Path := ''a'', Kind := KindDir, Ver := Version (Timestamp 5 0) ''n1''\<rparr>;
       st' = snd (Apply (\<lambda>_. False) empty_store [m, m\<lparr>Mode := 448\<rparr>])
   in store_inv empty_store \<and> fst (Apply (\<lambda>_. False) empty_store [m, m\<lparr>Mode := 448\<rparr>]) = Inr 2
      \<and> store_inv st' \<and> length (entries st') = 1 \<and> tree st' ''a'' = Some (m\<lparr>Mode := 448\<rparr>)"
proof -
  let ?m = "zero_Meta\<lparr>Path := ''a'', Kind := KindDir, Ver := Version (Timestamp 5 0) ''n1''\<rparr>"
  let ?ms = "[?m, ?m\<lparr>Mode := 448\<rparr>]"
  have run: "Apply (\<lambda>_. False) empty_store ?ms =
      (Inr 2, empty_store\<lparr>entries := [(rowOf (?m\<lparr>Mode := 448\<rparr>))\<lparr>r_seq := 2\<rparr>], local_seq := 2\<rparr>)"
    by (simp add: Apply_def empty_store_def upsert_def rowOf_def max_int64_def)
  have "store_inv empty_store" by (rule empty_store_inv)
  from Apply_refines_map_update [OF this, of "\<lambda>_. False" ?ms] run this
  show ?thesis
    by (simp add: put_all_def replicated_def zero_Meta_def)
qed

text \<open>\<^verbatim>\<open>ManifestSince\<close> serves the changes feed: the entries written after a position, in strictly
  increasing feed order, each path once and never more than the limit; and position 0 asks for the
  whole tree, deletions included.\<close>

theorem ManifestSince_is_the_feed:
  assumes "store_inv st" and "ManifestSince flt st since limit = Inr ms"
  shows "sorted_wrt (<) (map Seq ms) \<and> distinct (map Path ms) \<and> length ms \<le> limit
       \<and> ms = take limit (feed st since)
       \<and> (\<forall>p. tree st p = map_option replicated (find (\<lambda>m. Path m = p) (feed st 0)))"
proof -
  have ms: "ms = take limit (feed st since)"
    using assms(2) by (auto simp: ManifestSince_def feed_def take_map split: if_splits)
  have "tree st p = map_option replicated (find (\<lambda>m. Path m = p) (feed st 0))" for p
  proof (cases "tree st p")
    case None
    then have "find (\<lambda>m. Path m = p) (feed st 0) = None"
      using feed_tree(1) [OF assms(1)] by (fastforce simp: find_None_iff)
    with None show ?thesis by simp
  next
    case (Some m')
    then obtain m where "m \<in> set (feed st 0)" "replicated m = m'" "Path m = p"
      using feed_tree(2) [OF assms(1)] by blast
    then show ?thesis
      using Some find_key [OF feed_paths [OF assms(1)], of m] by auto
  qed
  then show ?thesis
    using ms feed_sorted [OF assms(1), of since] feed_paths [OF assms(1), of since]
    by (simp add: take_map [symmetric] sorted_wrt_take)
qed

text \<open>The store the next witnesses look at: a directory, and a tombstone written after it.\<close>

definition example_store :: Store where
  "example_store =
     \<lparr>entries =
        [(rowOf (zero_Meta\<lparr>Path := ''d'', Kind := KindDir, Ver := Version (Timestamp 5 0) ''n1''\<rparr>))
           \<lparr>r_seq := 1\<rparr>,
         (rowOf (zero_Meta\<lparr>Path := ''a'', Kind := KindFile, Deleted := True, DeletedAt := 7,
                   Ver := Version (Timestamp 7 0) ''n1''\<rparr>))\<lparr>r_seq := 2\<rparr>],
      blobs = [], peers = [], local_seq = 2\<rparr>"

lemma example_store_inv: "store_inv example_store"
  by (simp add: example_store_def store_inv_def rowOf_def max_int64_def)

theorem ManifestSince_is_the_feed_witness:
  "let ms = map meta [entries example_store ! 1]
   in ManifestSince (\<lambda>_. False) example_store 1 2000 = Inr ms
      \<and> sorted_wrt (<) (map Seq ms) \<and> map Path ms = [''a'']"
proof -
  have m: "ManifestSince (\<lambda>_. False) example_store 1 2000 = Inr (map meta [entries example_store ! 1])"
    by (simp add: ManifestSince_def example_store_def rowOf_def)
  have "sorted_wrt (<) (map Seq (map meta [entries example_store ! 1]))"
    using ManifestSince_is_the_feed [OF example_store_inv m] by blast
  with m show ?thesis
    by (simp add: Let_def) (simp add: example_store_def)
qed

end
