(* ===== verification/Resolve.thy ===== *)
theory Resolve
  imports Store
begin

text \<open>
  \<^verbatim>\<open>internal/syncer/resolve.go\<close>: what becomes of one incoming entry. Besides the decision table there is
  the contract it gives a path: a register that keeps the write with the greatest version. The laws
  are a locale, the facts about delivering writes in any order and number are proved in it, and it is
  interpreted on \<open>resolve\<close>.
\<close>

datatype decision = decisionSkip | decisionAccept | decisionConflict

definition decision_String :: "decision \<Rightarrow> string" where
  "decision_String d =
     (case d of
        decisionSkip \<Rightarrow> ''skip''
      | decisionAccept \<Rightarrow> ''accept''
      | decisionConflict \<Rightarrow> ''conflict'')"

definition resolve :: "Meta \<Rightarrow> bool \<Rightarrow> Meta \<Rightarrow> decision" where
  "resolve local haveLocal remote =
     (if \<not> haveLocal then decisionAccept
      else if Equal (Ver local) (Ver remote) then decisionSkip
      else if After (Ver local) (Ver remote) then decisionSkip
      else if Deleted local then decisionAccept
      else if Hash local = '''' then decisionAccept
      else if PrevHash remote = Hash local then decisionAccept
      else if Hash remote = Hash local then decisionAccept
      else decisionConflict)"

text \<open>What a path holds afterwards: the remote entry unless it was skipped.\<close>

definition settle :: "Meta option \<Rightarrow> Meta \<Rightarrow> Meta option" where
  "settle cur remote =
     (case resolve (case cur of Some m \<Rightarrow> m | None \<Rightarrow> zero_Meta) (cur \<noteq> None) remote of
        decisionSkip \<Rightarrow> cur
      | _ \<Rightarrow> Some remote)"

definition merge_entry :: "Meta \<Rightarrow> (string \<Rightarrow> Meta option) \<Rightarrow> string \<Rightarrow> Meta option" where
  "merge_entry m t = t(Path m := settle (t (Path m)) (replicated m))"

lemma resolve_skip_iff:
  "resolve l h r = decisionSkip \<longleftrightarrow> h \<and> Ver r \<le> Ver l"
  by (auto simp: resolve_def)

lemma resolve_conflict_iff:
  "resolve l h r = decisionConflict \<longleftrightarrow>
     h \<and> Ver l < Ver r \<and> \<not> Deleted l \<and> Hash l \<noteq> '''' \<and> PrevHash r \<noteq> Hash l \<and> Hash r \<noteq> Hash l"
  by (auto simp: resolve_def)

lemma resolve_replicated [simp]:
  "resolve (replicated l) h r = resolve l h r" "resolve l h (replicated r) = resolve l h r"
  by (simp_all add: resolve_def)

lemma settle_None [simp]: "settle None r = Some r"
  by (simp add: settle_def resolve_def)

lemma settle_Some: "settle (Some l) r = Some (if Ver l < Ver r then r else l)"
  by (auto simp: settle_def resolve_skip_iff not_less [symmetric] split: decision.splits)
    (auto simp: resolve_def split: if_splits)

section \<open>Registers that keep the greatest version\<close>

locale lww_register =
  fixes ver :: "'e \<Rightarrow> 'v::linorder"
    and join :: "'e option \<Rightarrow> 'e \<Rightarrow> 'e option"
  assumes join_None: "join None r = Some r"
    and join_Some: "join (Some l) r = Some (if ver l < ver r then r else l)"
begin

definition deliver :: "'e list \<Rightarrow> 'e option \<Rightarrow> 'e option" where
  "deliver rs s = fold (\<lambda>r s. join s r) rs s"

lemma deliver_simps:
  "deliver [] s = s" "deliver (r # rs) s = deliver rs (join s r)"
  by (simp_all add: deliver_def)

lemma join_mono: "join s r = Some x \<Longrightarrow> s = Some l \<Longrightarrow> ver l \<le> ver x \<and> ver r \<le> ver x"
  by (auto simp: join_Some split: if_splits)

lemma join_idem: "join (join s r) r = join s r"
  by (cases s) (auto simp: join_None join_Some)

lemma deliver_greatest:
  assumes "deliver rs s = Some x"
  shows "x \<in> set rs \<union> set_option s" and "\<And>y. y \<in> set rs \<union> set_option s \<Longrightarrow> ver y \<le> ver x"
proof -
  have "x \<in> set rs \<union> set_option s \<and> (\<forall>y \<in> set rs \<union> set_option s. ver y \<le> ver x)"
    using assms
  proof (induction rs arbitrary: s)
    case Nil
    then show ?case by (simp add: deliver_simps)
  next
    case (Cons r rs)
    have IH: "x \<in> set rs \<union> set_option (join s r)" "\<forall>y \<in> set rs \<union> set_option (join s r). ver y \<le> ver x"
      using Cons.IH [of "join s r"] Cons.prems by (simp_all add: deliver_simps)
    then show ?case
      by (cases s) (auto simp: join_None join_Some split: if_splits intro: order_trans less_imp_le)
  qed
  then show "x \<in> set rs \<union> set_option s" "\<And>y. y \<in> set rs \<union> set_option s \<Longrightarrow> ver y \<le> ver x"
    by blast+
qed

lemma deliver_None_iff: "deliver rs s = None \<longleftrightarrow> rs = [] \<and> s = None"
proof (induction rs arbitrary: s)
  case (Cons r rs)
  then show ?case by (cases s) (auto simp: deliver_simps join_None join_Some)
qed (simp add: deliver_simps)

text \<open>Any order and any number of deliveries of the same writes give the same register.\<close>

lemma deliver_order_free:
  assumes "inj_on ver (set rs \<union> set_option s)" and "set rs \<union> set_option s = set rs' \<union> set_option s'"
  shows "deliver rs s = deliver rs' s'"
proof (cases "deliver rs s")
  case None
  then have "rs = []" "s = None" by (simp_all add: deliver_None_iff)
  then have "rs' = []" "s' = None"
    using assms(2) by (auto simp flip: set_empty)
  then show ?thesis using \<open>rs = []\<close> \<open>s = None\<close> by simp
next
  case (Some x)
  have x: "x \<in> set rs' \<union> set_option s'"
    using deliver_greatest(1) [OF Some] unfolding assms(2) .
  then have "deliver rs' s' \<noteq> None"
    by (auto simp: deliver_None_iff)
  then obtain y where y: "deliver rs' s' = Some y" by blast
  have y': "y \<in> set rs \<union> set_option s"
    using deliver_greatest(1) [OF y] unfolding assms(2) .
  have "ver x = ver y"
    by (rule order_antisym [OF deliver_greatest(2) [OF y x] deliver_greatest(2) [OF Some y']])
  then have "x = y"
    by (rule inj_onD [OF assms(1) _ deliver_greatest(1) [OF Some] y'])
  with Some y show ?thesis by simp
qed

end

interpretation path_register: lww_register Ver settle
  by unfold_locales (simp_all add: settle_Some)

lemma fold_merge_entry:
  "fold merge_entry ms t p =
     path_register.deliver (map replicated (filter (\<lambda>m. Path m = p) ms)) (t p)"
  by (induction ms arbitrary: t) (auto simp: path_register.deliver_simps merge_entry_def)

section \<open>Properties\<close>

text \<open>\<^verbatim>\<open>resolve\<close> decides by version alone who stays: of two different versions of a path exactly one
  node skips the other's, the one that holds the greater version, and an entry that arrives twice is
  skipped. Local content is given up without a copy only if there is none (a tombstone, a directory),
  if the remote write replaced exactly it, or if it is the remote content; in every other case in which
  the remote write wins the decision is a conflict.\<close>

theorem resolve_one_side_keeps:
  "(resolve a True b = decisionSkip \<longleftrightarrow> Ver b \<le> Ver a)
   \<and> (Ver a \<noteq> Ver b \<longrightarrow> (resolve a True b = decisionSkip) \<noteq> (resolve b True a = decisionSkip))
   \<and> (resolve a True b = decisionAccept \<longrightarrow>
        Deleted a \<or> Hash a = '''' \<or> PrevHash b = Hash a \<or> Hash b = Hash a)
   \<and> (resolve a True b = decisionConflict \<longleftrightarrow>
        Ver a < Ver b \<and> \<not> Deleted a \<and> Hash a \<notin> {'''', PrevHash b, Hash b})"
  by (auto simp: resolve_skip_iff resolve_conflict_iff) (auto simp: resolve_def split: if_splits)

theorem resolve_one_side_keeps_witness:
  "let a = zero_Meta\<lparr>Path := ''f'', Kind := KindFile, Hash := ''aa'', Ver := Version (Timestamp 5 0) ''n1''\<rparr>;
       b = a\<lparr>Hash := ''bb'', PrevHash := ''cc'', Ver := Version (Timestamp 5 0) ''n2''\<rparr>
   in Ver a \<noteq> Ver b \<and> resolve a True b = decisionConflict \<and> resolve b True a = decisionSkip"
proof -
  let ?a = "zero_Meta\<lparr>Path := ''f'', Kind := KindFile, Hash := ''aa'', Ver := Version (Timestamp 5 0) ''n1''\<rparr>"
  let ?b = "?a\<lparr>Hash := ''bb'', PrevHash := ''cc'', Ver := Version (Timestamp 5 0) ''n2''\<rparr>"
  have "Ver ?a < Ver ?b" by (simp add: Version_less_iff)
  then show ?thesis
    using resolve_one_side_keeps [of ?a ?b] by (simp add: Let_def) (simp add: resolve_skip_iff)
qed

text \<open>C15. Replicas converge: two nodes that start from the same tree and take in the same entries, in any
  order and any number of times each, end with the same tree, provided that different entries for one
  path carry different versions. At every path the result is the greatest version among what the node
  held and what it received.\<close>

theorem delivery_order_irrelevant:
  assumes "set (map replicated ms) = set (map replicated ns)"
    and "\<And>p. inj_on Ver ({replicated m |m. m \<in> set ms \<and> Path m = p} \<union> set_option (t p))"
  shows "fold merge_entry ms t = fold merge_entry ns t
       \<and> (fold merge_entry ms t p = Some x \<longrightarrow>
            (\<forall>m \<in> set ms. Path m = p \<longrightarrow> Ver m \<le> Ver x) \<and> (\<forall>m. t p = Some m \<longrightarrow> Ver m \<le> Ver x))"
proof
  have at: "set (map replicated (filter (\<lambda>m. Path m = p) xs)) = {replicated m |m. m \<in> set xs \<and> Path m = p}" for xs p
    by auto
  have same: "{replicated m |m. m \<in> set ms \<and> Path m = p} = {replicated m |m. m \<in> set ns \<and> Path m = p}" for p
  proof -
    have "{replicated m |m. m \<in> set xs \<and> Path m = p} = {m \<in> set (map replicated xs). Path m = p}" for xs
      by auto
    then show ?thesis using assms(1) by simp
  qed
  show "fold merge_entry ms t = fold merge_entry ns t"
    by (rule ext, unfold fold_merge_entry, rule path_register.deliver_order_free)
      (use assms(2) in \<open>simp_all only: at same\<close>)
  show "fold merge_entry ms t p = Some x \<longrightarrow>
      (\<forall>m \<in> set ms. Path m = p \<longrightarrow> Ver m \<le> Ver x) \<and> (\<forall>m. t p = Some m \<longrightarrow> Ver m \<le> Ver x)"
    unfolding fold_merge_entry using path_register.deliver_greatest(2) by fastforce
qed

theorem delivery_order_irrelevant_witness:
  "let a = zero_Meta\<lparr>Path := ''f'', Ver := Version (Timestamp 5 0) ''n1'', Seq := 3\<rparr>;
       b = zero_Meta\<lparr>Path := ''f'', Ver := Version (Timestamp 5 0) ''n2'', Seq := 8\<rparr>;
       d = zero_Meta\<lparr>Path := ''g'', Ver := Version (Timestamp 5 0) ''n2'', Seq := 1\<rparr>
   in fold merge_entry [a, b, d] Map.empty = fold merge_entry [d, b, b, a] Map.empty
      \<and> fold merge_entry [d, b, b, a] Map.empty ''f'' = Some (replicated b)"
proof -
  let ?a = "zero_Meta\<lparr>Path := ''f'', Ver := Version (Timestamp 5 0) ''n1'', Seq := 3\<rparr>"
  let ?b = "zero_Meta\<lparr>Path := ''f'', Ver := Version (Timestamp 5 0) ''n2'', Seq := 8\<rparr>"
  let ?d = "zero_Meta\<lparr>Path := ''g'', Ver := Version (Timestamp 5 0) ''n2'', Seq := 1\<rparr>"
  have "inj_on Ver ({replicated m |m. m \<in> set [?a, ?b, ?d] \<and> Path m = p} \<union> set_option (Map.empty p))" for p
    by (auto simp: inj_on_def)
  moreover have "set (map replicated [?a, ?b, ?d]) = set (map replicated [?d, ?b, ?b, ?a])" by auto
  ultimately have "fold merge_entry [?a, ?b, ?d] Map.empty = fold merge_entry [?d, ?b, ?b, ?a] Map.empty"
    using delivery_order_irrelevant [of "[?a, ?b, ?d]" "[?d, ?b, ?b, ?a]" Map.empty] by blast
  then show ?thesis
    by (simp add: Let_def merge_entry_def settle_Some Version_less_iff)
qed

end
