(* ===== verification/Syncer.thy ===== *)
theory Syncer
  imports Resolve
begin

text \<open>
  \<^verbatim>\<open>internal/syncer/syncer.go\<close>: the single writer of a node. The service holds the store, the clock and
  the subscribers; the announcements it gives to the gossip layer are recorded in the order they are
  made. An operation that takes the write lock is one function from the service to its result and the
  service it leaves; what runs between two such operations is any sequence of others.
\<close>

section \<open>The service\<close>

text \<open>\<open>HasPeers\<close> says whether a membership view is configured, \<^verbatim>\<open>cfg.Peers != nil\<close>.\<close>

record Config =
  Node :: string
  MaxFileSize :: int
  TombstoneTTL :: int
  HasPeers :: bool

text \<open>
  A subscriber is its channel of depth one: True when a wake-up is pending. \<open>announced\<close> lists the heads
  given to \<^verbatim>\<open>Peers.Announce\<close>, \<open>syncing\<close> the peers with a pull in flight; \<open>lastSync\<close> is None where the code has
  the zero \<^verbatim>\<open>time.Time\<close>.
\<close>

record Service =
  cfg :: Config
  store :: Store
  clock :: Clock
  subs_next :: nat
  subs_m :: "nat \<Rightarrow> bool option"
  announced :: "int list"
  syncing :: "string list"
  lastSync :: "int option"
  lastErr :: "err option"

definition New :: "Config \<Rightarrow> Store \<Rightarrow> (nat \<Rightarrow> int) \<Rightarrow> Service" where
  "New c st now =
     \<lparr>cfg = c, store = st, clock = NewClock now, subs_next = 0, subs_m = (\<lambda>_. None),
      announced = [], syncing = [], lastSync = None, lastErr = None\<rparr>"

definition Subscribe :: "Service \<Rightarrow> nat \<times> Service" where
  "Subscribe s =
     (subs_next s,
      s\<lparr>subs_next := subs_next s + 1, subs_m := (subs_m s)(subs_next s := Some False)\<rparr>)"

definition Unsubscribe :: "nat \<Rightarrow> Service \<Rightarrow> Service" where
  "Unsubscribe i s =
     (case subs_m s i of None \<Rightarrow> s | Some _ \<Rightarrow> s\<lparr>subs_m := (subs_m s)(i := None)\<rparr>)"

text \<open>Sending to a full channel falls through to the default case: the wake-up stays pending.\<close>

definition notify :: "Service \<Rightarrow> Service" where
  "notify s =
     s\<lparr>subs_m := (\<lambda>i. case subs_m s i of
                       None \<Rightarrow> None
                     | Some pending \<Rightarrow> if pending then Some pending else Some True)\<rparr>"

section \<open>Local writes\<close>

definition lookup :: "dbfault \<Rightarrow> Store \<Rightarrow> string \<Rightarrow> err + (Meta \<times> bool)" where
  "lookup flt st p =
     (case Get flt st p of
        Inl e \<Rightarrow> if e = ErrNotFound then Inr (zero_Meta, False) else Inl e
      | Inr cur \<Rightarrow> Inr (cur, True))"

definition commit :: "dbfault \<Rightarrow> Service \<Rightarrow> Meta list \<Rightarrow> err option \<times> Service" where
  "commit flt s metas =
     (case Apply flt (store s) metas of
        (Inl e, st) \<Rightarrow> (Some e, s\<lparr>store := st\<rparr>)
      | (Inr head, st) \<Rightarrow>
          let s = notify (s\<lparr>store := st\<rparr>)
          in (None, if HasPeers (cfg s) then s\<lparr>announced := announced s @ [head]\<rparr> else s))"

definition PutFile ::
  "dbfault \<Rightarrow> Service \<Rightarrow> string \<Rightarrow> bytes \<Rightarrow> uint32 \<Rightarrow> uint32 \<Rightarrow> uint32 \<Rightarrow> err option \<times> Service" where
  "PutFile flt s p content mode uid gid =
     (case SanitizePath p of
        Inl e \<Rightarrow> (Some e, s)
      | Inr clean \<Rightarrow>
          if int (length content) > MaxFileSize (cfg s) then (Some ErrTooLarge, s)
          else
            let mode = SanitizeMode mode in
            case lookup flt (store s) clean of
              Inl e \<Rightarrow> (Some e, s)
            | Inr (cur, have) \<Rightarrow>
                let hash = HashContent content in
                if have \<and> \<not> Deleted cur \<and> Kind cur = KindFile \<and> Hash cur = hash
                   \<and> Mode cur = mode \<and> UID cur = uid \<and> GID cur = gid
                then (None, s)
                else
                  case PutBlob flt (store s) content of
                    (Inl e, st) \<Rightarrow> (Some e, s\<lparr>store := st\<rparr>)
                  | (Inr _, st) \<Rightarrow>
                      let (now, c) = Now (clock s);
                          next = zero_Meta\<lparr>Path := clean, Kind := KindFile, Hash := hash,
                                   PrevHash := Hash cur, Size := int (length content),
                                   Mode := mode, UID := uid, GID := gid,
                                   Ver := Version now (Node (cfg s))\<rparr>
                      in commit flt (s\<lparr>store := st, clock := c\<rparr>) [next])"

definition PutDir ::
  "dbfault \<Rightarrow> Service \<Rightarrow> string \<Rightarrow> uint32 \<Rightarrow> uint32 \<Rightarrow> uint32 \<Rightarrow> err option \<times> Service" where
  "PutDir flt s p mode uid gid =
     (case SanitizePath p of
        Inl e \<Rightarrow> (Some e, s)
      | Inr clean \<Rightarrow>
          let mode = SanitizeMode mode in
          case lookup flt (store s) clean of
            Inl e \<Rightarrow> (Some e, s)
          | Inr (cur, have) \<Rightarrow>
              if have \<and> \<not> Deleted cur \<and> Kind cur = KindDir
                 \<and> Mode cur = mode \<and> UID cur = uid \<and> GID cur = gid
              then (None, s)
              else
                let (now, c) = Now (clock s)
                in commit flt (s\<lparr>clock := c\<rparr>)
                     [zero_Meta\<lparr>Path := clean, Kind := KindDir, Mode := mode, UID := uid,
                        GID := gid, Ver := Version now (Node (cfg s))\<rparr>])"

definition SetAttr ::
  "dbfault \<Rightarrow> Service \<Rightarrow> string \<Rightarrow> uint32 \<Rightarrow> uint32 \<Rightarrow> uint32 \<Rightarrow> err option \<times> Service" where
  "SetAttr flt s p mode uid gid =
     (case SanitizePath p of
        Inl e \<Rightarrow> (Some e, s)
      | Inr clean \<Rightarrow>
          let mode = SanitizeMode mode in
          case lookup flt (store s) clean of
            Inl e \<Rightarrow> (Some e, s)
          | Inr (cur, have) \<Rightarrow>
              if \<not> have \<or> Deleted cur then (Some ErrNotFound, s)
              else if Mode cur = mode \<and> UID cur = uid \<and> GID cur = gid then (None, s)
              else
                let (now, c) = Now (clock s);
                    next = cur\<lparr>Mode := mode, UID := uid, GID := gid, PrevHash := Hash cur,
                             Seq := 0, Ver := Version now (Node (cfg s))\<rparr>
                in commit flt (s\<lparr>clock := c\<rparr>) [next])"

text \<open>\<open>wall\<close> is \<^verbatim>\<open>time.Now().UnixNano()\<close>, read after the version.\<close>

definition Delete :: "dbfault \<Rightarrow> int \<Rightarrow> Service \<Rightarrow> string \<Rightarrow> err option \<times> Service" where
  "Delete flt wall s p =
     (case SanitizePath p of
        Inl e \<Rightarrow> (Some e, s)
      | Inr clean \<Rightarrow>
          case lookup flt (store s) clean of
            Inl e \<Rightarrow> (Some e, s)
          | Inr (cur, have) \<Rightarrow>
              if \<not> have \<or> Deleted cur then (None, s)
              else
                let (now, c) = Now (clock s)
                in commit flt (s\<lparr>clock := c\<rparr>)
                     [zero_Meta\<lparr>Path := clean, Kind := Kind cur, PrevHash := Hash cur,
                        Mode := Mode cur, UID := UID cur, GID := GID cur,
                        Ver := Version now (Node (cfg s)), Deleted := True, DeletedAt := wall\<rparr>])"

section \<open>Reads\<close>

definition Service_Live :: "dbfault \<Rightarrow> Service \<Rightarrow> err + Meta list" where
  "Service_Live flt s = Live flt (store s)"

definition Service_Get :: "dbfault \<Rightarrow> Service \<Rightarrow> string \<Rightarrow> err + Meta" where
  "Service_Get flt s p = Get flt (store s) p"

definition Content :: "dbfault \<Rightarrow> Service \<Rightarrow> string \<Rightarrow> err + bytes" where
  "Content flt s hash = Blob flt (store s) hash"

definition Service_MaxFileSize :: "Service \<Rightarrow> int" where
  "Service_MaxFileSize s = MaxFileSize (cfg s)"

definition Conflicts :: "dbfault \<Rightarrow> Service \<Rightarrow> err + string list" where
  "Conflicts flt s =
     (case Live flt (store s) of
        Inl e \<Rightarrow> Inl e
      | Inr es \<Rightarrow> Inr (map Path (filter (\<lambda>m. IsConflictName (Path m)) es)))"

section \<open>What a write leaves behind\<close>

text \<open>
  \<open>quiet s s'\<close>: nothing another part of the program can see has changed. \<open>wrote s s' m\<close>: the one entry
  \<open>m\<close>, stamped with the clock's next reading, has been stored, every subscriber has a wake-up pending,
  and the new head has been announced.
\<close>

definition quiet :: "Service \<Rightarrow> Service \<Rightarrow> bool" where
  "quiet s s' \<longleftrightarrow>
     cfg s' = cfg s \<and> entries (store s') = entries (store s) \<and> local_seq (store s') = local_seq (store s)
     \<and> peers (store s') = peers (store s) \<and> subs_m s' = subs_m s \<and> announced s' = announced s
     \<and> (\<forall>h. has_blob (store s) h \<longrightarrow> has_blob (store s') h)
     \<and> (clock s' = clock s \<or> clock s' = snd (Now (clock s)))"

definition all_woken :: "Service \<Rightarrow> Service \<Rightarrow> bool" where
  "all_woken s s' \<longleftrightarrow> subs_m s' = (\<lambda>i. map_option (\<lambda>_. True) (subs_m s i))"

definition wrote :: "Service \<Rightarrow> Service \<Rightarrow> Meta \<Rightarrow> bool" where
  "wrote s s' m \<longleftrightarrow>
     cfg s' = cfg s \<and> store_inv (store s')
     \<and> tree (store s') = (tree (store s))(Path m \<mapsto> replicated m)
     \<and> local_seq (store s') = local_seq (store s) + 1
     \<and> row_at (store s') (Path m) = Some ((rowOf m)\<lparr>r_seq := local_seq (store s')\<rparr>)
     \<and> peers (store s') = peers (store s) \<and> all_woken s s'
     \<and> announced s' = announced s @ (if HasPeers (cfg s) then [local_seq (store s')] else [])
     \<and> (\<forall>h. has_blob (store s) h \<longrightarrow> has_blob (store s') h)
     \<and> (needs_blob m \<longrightarrow> has_blob (store s') (Hash m))
     \<and> clock s' = snd (Now (clock s)) \<and> Ver m = Version (fst (Now (clock s))) (Node (cfg s))"

lemma New_simps [simp]:
  "store (New c st now) = st" "cfg (New c st now) = c" "clock (New c st now) = NewClock now"
  "announced (New c st now) = []" "syncing (New c st now) = []"
  by (simp_all add: New_def)

lemma notify_frame [frame, simp]:
  "cfg (notify s) = cfg s" "store (notify s) = store s" "clock (notify s) = clock s"
  "announced (notify s) = announced s" "syncing (notify s) = syncing s"
  "lastSync (notify s) = lastSync s" "lastErr (notify s) = lastErr s"
  "subs_m (notify s) = (\<lambda>i. map_option (\<lambda>_. True) (subs_m s i))"
  by (auto simp: notify_def fun_eq_iff split: option.splits)

lemma store_update_id [simp]: "store s = st \<Longrightarrow> s\<lparr>store := st\<rparr> = s"
  by auto

lemma lookup_eq:
  "lookup flt st p =
     (if flt (DbGet p) then Inl ErrDB
      else case row_at st p of None \<Rightarrow> Inr (zero_Meta, False) | Some r \<Rightarrow> Inr (meta r, True))"
  by (simp add: lookup_def Get_eq split: option.splits)

lemma commit_error: "commit flt s ms = (Some e, s') \<Longrightarrow> s' = s"
  using Apply_error [of flt "store s" ms]
  by (auto simp: commit_def Let_def split: prod.splits sum.splits)

lemma commit_ok:
  assumes "commit flt s ms = (None, s')" and "store_inv (store s)"
  shows "store s' = snd (Apply flt (store s) ms)" "store_inv (store s')"
    "tree (store s') = put_all ms (tree (store s))"
    "local_seq (store s') = local_seq (store s) + int (length ms)"
    "peers (store s') = peers (store s)" "blobs (store s') = blobs (store s)"
    "set (entries (store s')) \<subseteq> set (numbered (local_seq (store s)) ms) \<union> set (entries (store s))"
    "cfg s' = cfg s" "clock s' = clock s" "all_woken s s'" "syncing s' = syncing s"
    "lastSync s' = lastSync s" "lastErr s' = lastErr s"
    "announced s' = announced s @ (if HasPeers (cfg s) then [local_seq (store s')] else [])"
proof -
  obtain h st where ap: "Apply flt (store s) ms = (Inr h, st)"
    and s': "s' = (if HasPeers (cfg s) then (notify (s\<lparr>store := st\<rparr>))\<lparr>announced := announced s @ [h]\<rparr>
                   else notify (s\<lparr>store := st\<rparr>))"
    using assms(1) by (auto simp: commit_def Let_def split: prod.splits sum.splits)
  note ok = Apply_ok [OF assms(2), of flt ms h, unfolded ap, simplified]
  show "store s' = snd (Apply flt (store s) ms)" "store_inv (store s')"
    "tree (store s') = put_all ms (tree (store s))"
    "local_seq (store s') = local_seq (store s) + int (length ms)"
    "peers (store s') = peers (store s)" "blobs (store s') = blobs (store s)"
    "set (entries (store s')) \<subseteq> set (numbered (local_seq (store s)) ms) \<union> set (entries (store s))"
    "cfg s' = cfg s" "clock s' = clock s" "all_woken s s'" "syncing s' = syncing s"
    "lastSync s' = lastSync s" "lastErr s' = lastErr s"
    "announced s' = announced s @ (if HasPeers (cfg s) then [local_seq (store s')] else [])"
    using ok ap by (simp_all add: s' all_woken_def)
qed

lemma row_at_tree: "row_at st p = Some r \<Longrightarrow> tree st p = Some (replicated (meta r))"
  by (simp add: tree_def)

lemma has_blob_cong: "blobs st' = blobs st \<Longrightarrow> has_blob st' = has_blob st"
  by (simp add: has_blob_def fun_eq_iff)

text \<open>The two shapes every local write has: with a blob put before the commit, and without.\<close>

lemma commit_one_row:
  assumes "commit flt s [m] = (None, s')" and "store_inv (store s)"
  shows "row_at (store s') (Path m) = Some ((rowOf m)\<lparr>r_seq := local_seq (store s')\<rparr>)"
proof -
  note ok = commit_ok [OF assms]
  have "Path m \<in> dom (tree (store s'))" using ok(3) by simp
  then obtain r where r: "row_at (store s') (Path m) = Some r"
    by (auto simp: tree_def)
  have eq: "replicated (meta r) = replicated m"
    using row_at_tree [OF r] ok(3) by simp
  have "r \<in> set (entries (store s'))" "r_path r = Path m"
    using row_at_Some [OF r] by auto
  then consider "r = (rowOf m)\<lparr>r_seq := local_seq (store s) + 1\<rparr>" | "r \<in> set (entries (store s))"
    using ok(7) by auto
  then show ?thesis
  proof cases
    case 1
    with r ok(4) show ?thesis by simp
  next
    case 2
    have "find (\<lambda>x. r_path x = Path m) (entries (store s')) = Some ((rowOf m)\<lparr>r_seq := local_seq (store s) + 1\<rparr>)"
      using assms(1) ok(1) find_upsert
      by (auto simp: commit_def Apply_def Let_def split: if_splits option.splits prod.splits sum.splits)
    with r ok(4) show ?thesis by (simp add: row_at_def)
  qed
qed

lemma commit_after_blob:
  assumes "commit flt (s\<lparr>store := st, clock := snd (Now (clock s))\<rparr>) [m] = (e, s')"
    and "store_inv (store s)" and "st = store s \<or> st = snd (PutBlob flt (store s) c)"
    and "needs_blob m \<Longrightarrow> has_blob st (Hash m)"
    and "Ver m = Version (fst (Now (clock s))) (Node (cfg s))"
  shows "if e = None then wrote s s' m else quiet s s'"
proof -
  let ?s = "s\<lparr>store := st, clock := snd (Now (clock s))\<rparr>"
  have inv: "store_inv st" and keep: "\<And>h. has_blob (store s) h \<Longrightarrow> has_blob st h"
    and st: "entries st = entries (store s)" "local_seq st = local_seq (store s)"
      "peers st = peers (store s)" "tree st = tree (store s)"
    using assms(2,3) by (auto simp: frame intro: inv_intros PutBlob_keeps)
  show ?thesis
  proof (cases e)
    case None
    then have cm: "commit flt ?s [m] = (None, s')" and inv': "store_inv (store ?s)"
      using assms(1) inv by simp_all
    note ok = commit_ok [OF cm inv']
    show ?thesis
      using None commit_one_row [OF cm inv'] ok assms(4,5) st keep has_blob_cong [OF ok(6)]
      by (simp add: wrote_def all_woken_def)
  next
    case (Some x)
    then show ?thesis
      using commit_error [of flt ?s "[m]" x s'] assms(1) st keep by (simp add: quiet_def)
  qed
qed

section \<open>Local writes as one operation\<close>

datatype local_op =
    LPutFile string bytes uint32 uint32 uint32
  | LPutDir string uint32 uint32 uint32
  | LSetAttr string uint32 uint32 uint32
  | LDelete int string

fun op_path :: "local_op \<Rightarrow> string" where
  "op_path (LPutFile p c mode uid gid) = p"
| "op_path (LPutDir p mode uid gid) = p"
| "op_path (LSetAttr p mode uid gid) = p"
| "op_path (LDelete wall p) = p"

fun local_step :: "dbfault \<Rightarrow> Service \<Rightarrow> local_op \<Rightarrow> err option \<times> Service" where
  "local_step flt s (LPutFile p c mode uid gid) = PutFile flt s p c mode uid gid"
| "local_step flt s (LPutDir p mode uid gid) = PutDir flt s p mode uid gid"
| "local_step flt s (LSetAttr p mode uid gid) = SetAttr flt s p mode uid gid"
| "local_step flt s (LDelete wall p) = Delete flt wall s p"

text \<open>The current entry of a path, as \<^verbatim>\<open>lookup\<close> gives it when the path is absent.\<close>

definition current :: "Service \<Rightarrow> string \<Rightarrow> Meta" where
  "current s p = (case row_at (store s) p of Some r \<Rightarrow> meta r | None \<Rightarrow> zero_Meta)"

definition live_at :: "Service \<Rightarrow> string \<Rightarrow> bool" where
  "live_at s p \<longleftrightarrow> row_at (store s) p \<noteq> None \<and> \<not> Deleted (current s p)"

text \<open>The entry an operation writes, and the condition under which it has nothing to write.\<close>

fun op_meta :: "Service \<Rightarrow> local_op \<Rightarrow> Meta" where
  "op_meta s (LPutFile p c mode uid gid) =
     zero_Meta\<lparr>Path := p, Kind := KindFile, Hash := HashContent c, PrevHash := Hash (current s p),
       Size := int (length c), Mode := SanitizeMode mode, UID := uid, GID := gid,
       Ver := Version (fst (Now (clock s))) (Node (cfg s))\<rparr>"
| "op_meta s (LPutDir p mode uid gid) =
     zero_Meta\<lparr>Path := p, Kind := KindDir, Mode := SanitizeMode mode, UID := uid, GID := gid,
       Ver := Version (fst (Now (clock s))) (Node (cfg s))\<rparr>"
| "op_meta s (LSetAttr p mode uid gid) =
     (current s p)\<lparr>Mode := SanitizeMode mode, UID := uid, GID := gid,
       PrevHash := Hash (current s p), Seq := 0, Ver := Version (fst (Now (clock s))) (Node (cfg s))\<rparr>"
| "op_meta s (LDelete wall p) =
     zero_Meta\<lparr>Path := p, Kind := Kind (current s p), PrevHash := Hash (current s p),
       Mode := Mode (current s p), UID := UID (current s p), GID := GID (current s p),
       Ver := Version (fst (Now (clock s))) (Node (cfg s)), Deleted := True, DeletedAt := wall\<rparr>"

definition has_attrs :: "Meta \<Rightarrow> uint32 \<Rightarrow> uint32 \<Rightarrow> uint32 \<Rightarrow> bool" where
  "has_attrs m mode uid gid \<longleftrightarrow> Mode m = SanitizeMode mode \<and> UID m = uid \<and> GID m = gid"

fun op_idle :: "Service \<Rightarrow> local_op \<Rightarrow> bool" where
  "op_idle s (LPutFile p c mode uid gid) \<longleftrightarrow>
     live_at s p \<and> Kind (current s p) = KindFile \<and> Hash (current s p) = HashContent c
     \<and> has_attrs (current s p) mode uid gid"
| "op_idle s (LPutDir p mode uid gid) \<longleftrightarrow>
     live_at s p \<and> Kind (current s p) = KindDir \<and> has_attrs (current s p) mode uid gid"
| "op_idle s (LSetAttr p mode uid gid) \<longleftrightarrow> live_at s p \<and> has_attrs (current s p) mode uid gid"
| "op_idle s (LDelete wall p) \<longleftrightarrow> \<not> live_at s p"

text \<open>The refusals, in the order the code checks them.\<close>

fun op_refused :: "dbfault \<Rightarrow> Service \<Rightarrow> local_op \<Rightarrow> err option" where
  "op_refused flt s (LPutFile p c mode uid gid) =
     (if \<not> good_path p then Some ErrBadPath
      else if int (length c) > MaxFileSize (cfg s) then Some ErrTooLarge
      else if flt (DbGet p) then Some ErrDB else None)"
| "op_refused flt s (LSetAttr p mode uid gid) =
     (if \<not> good_path p then Some ErrBadPath
      else if flt (DbGet p) then Some ErrDB
      else if \<not> live_at s p then Some ErrNotFound else None)"
| "op_refused flt s (LPutDir p mode uid gid) =
     (if \<not> good_path p then Some ErrBadPath else if flt (DbGet p) then Some ErrDB else None)"
| "op_refused flt s (LDelete wall p) =
     (if \<not> good_path p then Some ErrBadPath else if flt (DbGet p) then Some ErrDB else None)"

definition prepared :: "dbfault \<Rightarrow> Service \<Rightarrow> local_op \<Rightarrow> (err option) \<times> Store" where
  "prepared flt s x =
     (case x of
        LPutFile p c mode uid gid \<Rightarrow>
          (case PutBlob flt (store s) c of (Inl e, st) \<Rightarrow> (Some e, st) | (Inr h, st) \<Rightarrow> (None, st))
      | _ \<Rightarrow> (None, store s))"

lemma lookup_current:
  "lookup flt (store s) p =
     (if flt (DbGet p) then Inl ErrDB else Inr (current s p, row_at (store s) p \<noteq> None))"
  by (auto simp: lookup_eq current_def split: option.splits)

lemma Path_current: "row_at (store s) p \<noteq> None \<Longrightarrow> Path (current s p) = p"
  by (auto simp: current_def dest: row_at_Some)

lemma local_step_eq:
  "local_step flt s x =
     (case op_refused flt s x of
        Some e \<Rightarrow> (Some e, s)
      | None \<Rightarrow>
          if op_idle s x then (None, s)
          else case prepared flt s x of
            (Some e, st) \<Rightarrow> (Some e, s\<lparr>store := st\<rparr>)
          | (None, st) \<Rightarrow>
              commit flt (s\<lparr>store := st, clock := snd (Now (clock s))\<rparr>) [op_meta s x])"
proof (cases "good_path (op_path x)")
  case False
  then show ?thesis
    by (cases x) (simp_all add: PutFile_def PutDir_def SetAttr_def Delete_def SanitizePath_bad)
next
  case True
  then show ?thesis
    by (cases x)
      (auto simp: PutFile_def PutDir_def SetAttr_def Delete_def lookup_current Let_def prepared_def
        live_at_def has_attrs_def split: prod.splits sum.splits)
qed

lemma Path_op_meta: "op_refused flt s x = None \<Longrightarrow> Path (op_meta s x) = op_path x"
  by (cases x) (auto simp: live_at_def Path_current split: if_splits)

lemma Ver_op_meta [simp]: "Ver (op_meta s x) = Version (fst (Now (clock s))) (Node (cfg s))"
  by (cases x) auto

lemma prepared_store:
  assumes "prepared flt s x = (e, st)"
  shows "\<exists>c. st = store s \<or> st = snd (PutBlob flt (store s) c)"
  using assms by (cases x) (auto simp: prepared_def split: prod.splits sum.splits, (metis snd_conv)+)

lemma prepared_blob:
  assumes "prepared flt s x = (None, st)" and "needs_blob (op_meta s x)"
    and "blobs_ok (store s)" and "op_refused flt s x = None"
  shows "has_blob st (Hash (op_meta s x))"
proof (cases x)
  case (LPutFile p c mode uid gid)
  then obtain h where "PutBlob flt (store s) c = (Inr h, st)"
    using assms(1) by (auto simp: prepared_def split: prod.splits sum.splits)
  then show ?thesis
    using LPutFile PutBlob_has [of flt "store s" c h] PutBlob_hash [of flt "store s" c h] by simp
next
  case (LSetAttr p mode uid gid)
  then obtain r where r: "row_at (store s) p = Some r"
    using assms(4) by (auto simp: live_at_def split: if_splits)
  then show ?thesis
    using LSetAttr assms(1-3) row_at_Some [OF r]
    by (auto simp: prepared_def current_def needs_blob_def blobs_ok_def)
qed (use assms(2) in \<open>auto simp: needs_blob_def\<close>)

lemma local_step_outcome:
  assumes "store_inv (store s)" and "blobs_ok (store s)" and "local_step flt s x = (e, s')"
  shows "(e \<noteq> None \<and> quiet s s' \<and> store_inv (store s'))
       \<or> (e = None \<and> op_refused flt s x = None \<and> op_idle s x \<and> s' = s)
       \<or> (e = None \<and> op_refused flt s x = None \<and> \<not> op_idle s x \<and> wrote s s' (op_meta s x))"
proof (cases "op_refused flt s x")
  case (Some e')
  then show ?thesis using assms by (auto simp: local_step_eq quiet_def)
next
  case None
  obtain e1 st where prep: "prepared flt s x = (e1, st)" by (cases "prepared flt s x")
  then obtain c where st: "st = store s \<or> st = snd (PutBlob flt (store s) c)"
    using prepared_store by blast
  consider "op_idle s x" | "\<not> op_idle s x" "e1 \<noteq> None" | "\<not> op_idle s x" "e1 = None" by blast
  then show ?thesis
  proof cases
    case 1
    then show ?thesis using assms None by (simp add: local_step_eq)
  next
    case 2
    then have "s' = s\<lparr>store := st\<rparr>" "e = e1"
      using assms(3) None prep by (auto simp: local_step_eq)
    then show ?thesis
      using 2 st assms(1) by (auto simp: quiet_def frame intro: PutBlob_keeps PutBlob_inv)
  next
    case 3
    then have cm: "commit flt (s\<lparr>store := st, clock := snd (Now (clock s))\<rparr>) [op_meta s x] = (e, s')"
      using assms(3) None prep by (simp add: local_step_eq)
    have "if e = None then wrote s s' (op_meta s x) else quiet s s'"
      by (rule commit_after_blob [OF cm assms(1) st])
        (use prepared_blob [of flt s x st] prep 3 assms(2) None in auto)
    moreover have "e \<noteq> None \<Longrightarrow> store_inv (store s')"
      using cm st assms(1) by (cases e) (auto dest!: commit_error intro: PutBlob_inv)
    ultimately show ?thesis using 3 None by (cases e) auto
  qed
qed

section \<open>The clock and the stored versions\<close>

text \<open>Every stored version is at or before the clock, so the next reading is after all of them.\<close>

definition clock_covers :: "Service \<Rightarrow> bool" where
  "clock_covers s \<longleftrightarrow> (\<forall>p m. tree (store s) p = Some m \<longrightarrow> HLC (Ver m) \<le> last_ts (clock s))"

lemma wrote_tree: "wrote s s' m \<Longrightarrow> tree (store s') = (tree (store s))(Path m \<mapsto> replicated m)"
  by (simp add: wrote_def)

lemma wrote_inv: "wrote s s' m \<Longrightarrow> store_inv (store s')"
  by (simp add: wrote_def)

lemma wrote_cfg: "wrote s s' m \<Longrightarrow> cfg s' = cfg s"
  by (simp add: wrote_def)

lemma tree_entries_cong: "entries st' = entries st \<Longrightarrow> tree st' = tree st"
  by (simp add: tree_def row_at_def fun_eq_iff)

lemma quiet_tree: "quiet s s' \<Longrightarrow> tree (store s') = tree (store s)"
  by (rule tree_entries_cong) (simp add: quiet_def)

lemma wrote_covers:
  assumes "wrote s s' m" and "clock_covers s" and "room b (last_ts (clock s))" and "b < 4294967295"
  shows "clock_covers s'" and "\<And>p n. tree (store s) p = Some n \<Longrightarrow> Ver n < Ver m"
proof -
  have less: "HLC (Ver n) < fst (Now (clock s))" if "tree (store s) p = Some n" for p n
    using that assms(2) Now_greater(1) [OF assms(3,4)] unfolding clock_covers_def
    by (metis le_less_trans)
  have ver: "Ver m = Version (fst (Now (clock s))) (Node (cfg s))" "last_ts (clock s') = fst (Now (clock s))"
    using assms(1) by (auto simp: wrote_def frame)
  show "clock_covers s'"
    using less ver wrote_tree [OF assms(1)] by (auto simp: clock_covers_def intro: less_imp_le)
  show "\<And>p n. tree (store s) p = Some n \<Longrightarrow> Ver n < Ver m"
    using less ver by (simp add: Version_less_iff)
qed

lemma quiet_covers:
  assumes "quiet s s'" and "clock_covers s" and "room b (last_ts (clock s))" and "b < 4294967295"
  shows "clock_covers s'"
proof -
  have "last_ts (clock s) \<le> last_ts (clock s')"
    using assms(1) Now_greater(1) [OF assms(3,4)] by (auto simp: quiet_def frame)
  then show ?thesis
    using assms(2) unfolding clock_covers_def quiet_tree [OF assms(1)] by (blast intro: order_trans)
qed

lemma wrote_blobs_ok:
  assumes "wrote s s' m" and "store_inv (store s)" and "blobs_ok (store s)"
  shows "blobs_ok (store s')"
proof (rule blobs_okI)
  fix r
  assume r: "r \<in> set (entries (store s'))" and need: "needs_blob (meta r)"
  have inv': "store_inv (store s')" using assms(1) by (simp add: wrote_def)
  then have t: "tree (store s') (r_path r) = Some (replicated (meta r))"
    using r tree_iff_rows by blast
  show "has_blob (store s') (r_hash r)"
  proof (cases "r_path r = Path m")
    case True
    then have "replicated m = replicated (meta r)"
      using t wrote_tree [OF assms(1)] by simp
    then have "needs_blob m" "Hash m = r_hash r"
      using need by (metis needs_blob_replicated, metis meta_simps(3) replicated_simps(3))
    then show ?thesis using assms(1) by (auto simp: wrote_def)
  next
    case False
    then have "tree (store s) (r_path r) = Some (replicated (meta r))"
      using t wrote_tree [OF assms(1)] by simp
    then obtain r' where "r' \<in> set (entries (store s))" "replicated (meta r) = replicated (meta r')"
      using tree_iff_rows [OF assms(2)] by blast
    then have "has_blob (store s) (r_hash r)"
      using need assms(3) unfolding blobs_ok_def
      by (metis meta_simps(3) needs_blob_replicated replicated_simps(3))
    then show ?thesis using assms(1) by (auto simp: wrote_def)
  qed
qed

lemma quiet_blobs_ok: "quiet s s' \<Longrightarrow> blobs_ok (store s) \<Longrightarrow> blobs_ok (store s')"
  by (auto simp: quiet_def blobs_ok_def)

lemma local_step_inv [inv_intros]:
  assumes "store_inv (store s)" and "blobs_ok (store s)"
  shows "store_inv (store (snd (local_step flt s x)))" and "blobs_ok (store (snd (local_step flt s x)))"
proof -
  obtain e s' where step: "local_step flt s x = (e, s')" by (cases "local_step flt s x")
  have "store_inv (store s') \<and> blobs_ok (store s')"
    using local_step_outcome [OF assms step]
  proof (elim disjE conjE)
    assume "wrote s s' (op_meta s x)"
    then show ?thesis using wrote_blobs_ok [OF _ assms] wrote_inv by blast
  qed (use assms quiet_blobs_ok in blast)+
  then show "store_inv (store (snd (local_step flt s x)))" "blobs_ok (store (snd (local_step flt s x)))"
    by (simp_all add: step)
qed

lemma local_step_succeeds:
  assumes "store_inv (store s)" and "op_refused flt s x = None" and "\<not> flt DbApply"
    and "\<forall>h. \<not> flt (DbPutBlob h)" and "local_seq (store s) < max_int64"
  shows "fst (local_step flt s x) = None"
proof -
  obtain e1 st where prep: "prepared flt s x = (e1, st)" by (cases "prepared flt s x")
  then obtain c where st: "st = store s \<or> st = snd (PutBlob flt (store s) c)"
    using prepared_store by blast
  have none: "e1 = None"
    using prep assms(4) by (cases x) (auto simp: prepared_def PutBlob_def Let_def split: if_splits)
  have inv: "store_inv st" "local_seq st = local_seq (store s)"
    using st assms(1) by (auto simp: frame intro: inv_intros)
  then obtain h where "fst (Apply flt st [op_meta s x]) = Inr h"
    using Apply_succeeds [of st "\<lambda>d. flt d \<and> d \<noteq> DbHead" "[op_meta s x]"] assms(3,5)
    by (auto simp: Apply_def Let_def)
  then show ?thesis
    using assms(2) prep none
    by (auto simp: local_step_eq commit_def Let_def split: prod.splits sum.splits)
qed

lemma local_step_blobs:
  assumes "b \<in> set (blobs (store (snd (local_step flt s x))))"
  shows "b \<in> set (blobs (store s)) \<or> (\<exists>p mode uid gid. x = LPutFile p (b_data b) mode uid gid)"
proof -
  obtain e1 st where prep: "prepared flt s x = (e1, st)" by (cases "prepared flt s x")
  have "blobs (store (snd (commit flt s' ms))) = blobs (store s')" for s' ms
    using Apply_blobs(1) [of flt "store s'" ms] by (auto simp: commit_def Let_def split: prod.splits sum.splits)
  then have "b \<in> set (blobs (store s)) \<or> b \<in> set (blobs st)"
    using assms prep by (auto simp: local_step_eq split: option.splits if_splits)
  moreover have "b \<in> set (blobs st) \<Longrightarrow>
      b \<in> set (blobs (store s)) \<or> (\<exists>p mode uid gid. x = LPutFile p (b_data b) mode uid gid)"
    using prep by (cases x) (auto simp: prepared_def PutBlob_def Let_def split: if_splits)
  ultimately show ?thesis by blast
qed

section \<open>Properties\<close>

text \<open>C7. A local write (\<^verbatim>\<open>PutFile\<close>, \<^verbatim>\<open>PutDir\<close>, \<^verbatim>\<open>SetAttr\<close>, \<^verbatim>\<open>Delete\<close>) is all or nothing. If it returns an
  error, no entry, feed position, bookmark, subscriber or announcement has changed. If it succeeds,
  either the stored entry already said what was asked for and the service is untouched, or exactly the
  intended entry has replaced the one at its path, the feed moved on by one, every subscriber has a
  wake-up pending and the new head, and nothing else, was announced. The table invariants hold in all
  cases and a live file always has its content.\<close>

theorem local_write_all_or_nothing:
  assumes "store_inv (store s)" and "blobs_ok (store s)"
  shows "case local_step flt s x of
           (Some e, s') \<Rightarrow> quiet s s' \<and> store_inv (store s') \<and> blobs_ok (store s')
         | (None, s') \<Rightarrow>
             op_refused flt s x = None \<and> store_inv (store s') \<and> blobs_ok (store s')
             \<and> (if op_idle s x then s' = s else wrote s s' (op_meta s x))"
proof (cases "local_step flt s x")
  case (Pair e s')
  then show ?thesis
    using local_step_outcome [OF assms Pair] local_step_inv [OF assms, of flt x]
    by (cases e) auto
qed

text \<open>C8. The refusals of a local write come first and in this order: a bad path, a file over the size
  limit, a failing read, and for \<^verbatim>\<open>SetAttr\<close> a path that is absent or deleted; the service is untouched
  then. A write that passes them can fail afterwards only because the database fails or the feed
  counter is at its end.\<close>

theorem local_write_refusals:
  assumes "store_inv (store s)" and "blobs_ok (store s)"
  shows "(\<forall>e. op_refused flt s x = Some e \<longrightarrow> local_step flt s x = (Some e, s))
       \<and> (op_refused flt s x = None \<and> \<not> flt DbApply \<and> (\<forall>h. \<not> flt (DbPutBlob h))
            \<and> local_seq (store s) < max_int64
          \<longrightarrow> fst (local_step flt s x) = None)"
  using local_step_succeeds [OF assms(1)] by (simp add: local_step_eq)

text \<open>The service the witnesses start from: the example store, one subscriber, peers configured.\<close>

definition example_service :: Service where
  "example_service =
     snd (Subscribe (New \<lparr>Node = ''n1'', MaxFileSize = 100, TombstoneTTL = 50, HasPeers = True\<rparr>
       example_store (\<lambda>k. 1000)))"

lemma good_path_examples [simp]: "good_path ''d''" "good_path ''a''" "good_path ''f''"
  by (simp_all add: good_path_def good_element_def plain_element_def MaxPathLen_def MaxNameLen_def)

lemma example_service_simps [simp]:
  "store example_service = example_store" "cfg example_service = \<lparr>Node = ''n1'', MaxFileSize = 100, TombstoneTTL = 50, HasPeers = True\<rparr>"
  "clock example_service = NewClock (\<lambda>k. 1000)" "subs_m example_service = [0 \<mapsto> False]"
  "announced example_service = []"
  by (simp_all add: example_service_def Subscribe_def New_def fun_eq_iff)

lemma example_service_inv: "store_inv (store example_service)" "blobs_ok (store example_service)"
  by (simp_all add: example_store_inv) (simp add: blobs_ok_def example_store_def needs_blob_def rowOf_def)

lemma example_Now: "Now (NewClock (\<lambda>k. 1000)) =
  (Timestamp 1000 0, \<lparr>now_at = \<lambda>k. 1000, reads = 1, last_ts = Timestamp 1000 0\<rparr>)"
  by (simp add: Now_def NewClock_def Let_def)

lemma example_seq: "local_seq example_store = 2"
  by (simp add: example_store_def)

lemma example_rows: "row_at example_store ''d'' = Some (entries example_store ! 0)"
  "row_at example_store ''a'' = Some (entries example_store ! 1)" "row_at example_store ''f'' = None"
  by (simp_all add: row_at_def example_store_def)

theorem local_write_all_or_nothing_witness:
  "let x = LSetAttr ''d'' 448 0 0; r = local_step (\<lambda>_. False) example_service x
   in fst r = None \<and> wrote example_service (snd r) (op_meta example_service x)
      \<and> announced (snd r) = [3] \<and> subs_m (snd r) 0 = Some True"
proof -
  let ?x = "LSetAttr ''d'' 448 0 0"
  have run: "fst (local_step (\<lambda>_. False) example_service ?x) = None"
    by (simp add: local_step_eq live_at_def has_attrs_def prepared_def current_def example_rows)
      (simp add: example_store_def commit_def Apply_def rowOf_def SanitizeMode_def upsert_def
        max_int64_def Let_def meta_def)
  moreover have "\<not> op_idle example_service ?x"
    by (simp add: has_attrs_def current_def example_rows)
      (simp add: example_store_def rowOf_def SanitizeMode_def mode_mask_def)
  ultimately have w: "wrote example_service (snd (local_step (\<lambda>_. False) example_service ?x))
      (op_meta example_service ?x)"
    using local_write_all_or_nothing [OF example_service_inv, of "\<lambda>_. False" ?x]
    by (simp only: split_beta) simp
  then have "local_seq (store (snd (local_step (\<lambda>_. False) example_service ?x))) = 3"
    by (simp add: wrote_def) (simp add: example_store_def)
  with w run show ?thesis
    unfolding Let_def wrote_def by (simp add: all_woken_def)
qed

theorem local_write_refusals_witness:
  "op_refused (\<lambda>_. False) example_service (LSetAttr ''f'' 448 0 0) = Some ErrNotFound
   \<and> local_step (\<lambda>_. False) example_service (LSetAttr ''f'' 448 0 0) = (Some ErrNotFound, example_service)
   \<and> fst (local_step (\<lambda>_. False) example_service (LPutFile ''f'' ''abc'' 420 0 0)) = None"
proof -
  have ref: "op_refused (\<lambda>_. False) example_service (LSetAttr ''f'' 448 0 0) = Some ErrNotFound"
    by (simp add: live_at_def example_rows)
  have seq: "local_seq (store example_service) < max_int64"
    by (simp add: example_store_def max_int64_def)
  show ?thesis
    using local_write_refusals [OF example_service_inv, of "\<lambda>_. False" "LSetAttr ''f'' 448 0 0"]
      local_write_refusals [OF example_service_inv, of "\<lambda>_. False" "LPutFile ''f'' ''abc'' 420 0 0"]
      ref seq by simp
qed

lemma Live_rows: "Live flt st = Inr ms \<Longrightarrow> set ms = meta ` {r \<in> set (entries st). \<not> r_deleted r}"
  by (auto simp: Live_def split: if_splits)

lemma Blob_of_collision_free:
  assumes "store_inv st" and "has_blob st (HashContent c)" and "\<not> flt (DbBlob (HashContent c))"
    and "\<forall>b \<in> set (blobs st). HashContent (b_data b) = HashContent c \<longrightarrow> b_data b = c"
  shows "Blob flt st (HashContent c) = Inr c"
proof -
  obtain d where d: "Blob flt st (HashContent c) = Inr d"
    using Blob_found [OF assms(2), of flt] assms(3) by blast
  then obtain b where "b \<in> set (blobs st)" "b_data b = d"
    by (auto simp: Blob_def find_Some_iff split: if_splits option.splits) (metis nth_mem)
  then show ?thesis
    using d Blob_verified [OF assms(1) d] assms(4) by auto
qed

lemma idle_or_written:
  assumes "store_inv (store s)" and "blobs_ok (store s)" and "local_step flt s x = (None, s')"
  shows "op_idle s x \<and> s' = s \<or>
         \<not> op_idle s x \<and> wrote s s' (op_meta s x) \<and> Path (op_meta s x) = op_path x
         \<and> current s' (op_path x) = (op_meta s x)\<lparr>Seq := local_seq (store s')\<rparr>
         \<and> row_at (store s') (op_path x) \<noteq> None"
proof -
  consider "op_idle s x" "s' = s" | "op_refused flt s x = None" "\<not> op_idle s x" "wrote s s' (op_meta s x)"
    using local_step_outcome [OF assms] by auto
  then show ?thesis
  proof cases
    case 2
    then have "row_at (store s') (op_path x) = Some ((rowOf (op_meta s x))\<lparr>r_seq := local_seq (store s')\<rparr>)"
      using Path_op_meta [OF 2(1)] by (simp add: wrote_def)
    then show ?thesis using 2 Path_op_meta [OF 2(1)] by (simp add: current_def)
  qed simp
qed

text \<open>What \<^verbatim>\<open>PutFile\<close> stored can be read back: after it returns without error \<^verbatim>\<open>Get\<close> finds a live file with
  the hash of the content, the sanitized mode and the owner, \<^verbatim>\<open>Content\<close> of that hash is the very
  content, and offering the same file again changes nothing at all, which is what ends the echo
  between the mirror and its watcher. Reads must not fail, and SHA-256 must not collide between the
  content and a stored blob.\<close>

theorem PutFile_read_back:
  assumes "store_inv (store s)" and "blobs_ok (store s)"
    and "PutFile flt s p c mode uid gid = (None, s')"
    and "\<not> flt' (DbGet p)" and "\<not> flt' (DbBlob (HashContent c))"
    and "\<forall>b \<in> set (blobs (store s)). HashContent (b_data b) = HashContent c \<longrightarrow> b_data b = c"
  shows "(\<exists>m. Service_Get flt' s' p = Inr m \<and> Path m = p \<and> Kind m = KindFile \<and> \<not> Deleted m
            \<and> Hash m = HashContent c \<and> Mode m = SanitizeMode mode \<and> UID m = uid \<and> GID m = gid
            \<and> Content flt' s' (Hash m) = Inr c)
       \<and> PutFile flt' s' p c mode uid gid = (None, s')"
proof -
  let ?x = "LPutFile p c mode uid gid"
  have step: "local_step flt s ?x = (None, s')" using assms(3) by simp
  have inv: "store_inv (store s')" "blobs_ok (store s')"
    using local_step_inv [OF assms(1,2), of flt ?x] step by simp_all
  have idle: "op_idle s' ?x"
    using idle_or_written [OF assms(1,2) step] by (auto simp: live_at_def has_attrs_def)
  then obtain r where r: "row_at (store s') p = Some r" "current s' p = meta r"
    by (auto simp: live_at_def current_def)
  have "op_refused flt s ?x = None" "cfg s' = cfg s"
    using local_step_outcome [OF assms(1,2) step] wrote_cfg by (metis, metis)
  then have "op_refused flt' s' ?x = None"
    using assms(4) by (auto split: if_splits)
  then have again: "PutFile flt' s' p c mode uid gid = (None, s')"
    using idle local_step_eq [of flt' s' ?x] by simp
  have "has_blob (store s') (HashContent c)"
    using inv(2) idle r row_at_Some [OF r(1)]
    by (auto simp: blobs_ok_def needs_blob_def live_at_def)
  moreover have "\<forall>b \<in> set (blobs (store s')). HashContent (b_data b) = HashContent c \<longrightarrow> b_data b = c"
    using local_step_blobs [of _ flt s ?x] assms(6) step by fastforce
  ultimately have "Content flt' s' (HashContent c) = Inr c"
    unfolding Content_def using Blob_of_collision_free inv(1) assms(5) by blast
  then show ?thesis
    using again idle r row_at_Some [OF r(1)] assms(4)
    by (auto simp: Service_Get_def Get_eq live_at_def has_attrs_def)
qed

theorem PutFile_read_back_witness:
  "let r = PutFile (\<lambda>_. False) example_service ''f'' ''abc'' 420 7 8
   in fst r = None \<and> Content (\<lambda>_. False) (snd r) (HashContent ''abc'') = Inr ''abc''
      \<and> PutFile (\<lambda>_. False) (snd r) ''f'' ''abc'' 420 7 8 = (None, snd r)"
proof -
  let ?r = "PutFile (\<lambda>_. False) example_service ''f'' ''abc'' 420 7 8"
  have ok: "fst ?r = None"
    using local_step_succeeds [OF example_service_inv(1), of "\<lambda>_. False" "LPutFile ''f'' ''abc'' 420 7 8"]
    by (simp add: example_store_def max_int64_def)
  from ok have run: "?r = (None, snd ?r)" by (metis prod.collapse)
  have "\<forall>b \<in> set (blobs (store example_service)). HashContent (b_data b) = HashContent ''abc'' \<longrightarrow> b_data b = ''abc''"
    by (simp add: example_store_def)
  from PutFile_read_back [OF example_service_inv run _ _ this, of "\<lambda>_. False"] run
  show ?thesis unfolding Let_def using ok by auto
qed

text \<open>\<^verbatim>\<open>Delete\<close> leaves a tombstone, not a hole: after it succeeds on a live path the entry is still
  there, marked deleted, without content but with the hash it had, the deletion time and a new
  version; it is gone from \<^verbatim>\<open>Live\<close>, every other path is as it was, a second \<^verbatim>\<open>Delete\<close> does nothing and
  \<^verbatim>\<open>SetAttr\<close> answers that there is no such file.\<close>

theorem Delete_leaves_tombstone:
  assumes "store_inv (store s)" and "blobs_ok (store s)" and "live_at s p"
    and "Delete flt wall s p = (None, s')" and "\<not> flt' (DbGet p)"
  shows "(\<exists>m. Service_Get flt' s' p = Inr m \<and> Deleted m \<and> Hash m = '''' \<and> DeletedAt m = wall
            \<and> PrevHash m = Hash (current s p) \<and> Ver m = Version (fst (Now (clock s))) (Node (cfg s)))
       \<and> (\<forall>ms. Service_Live flt' s' = Inr ms \<longrightarrow> p \<notin> Path ` set ms)
       \<and> (\<forall>q. q \<noteq> p \<longrightarrow> tree (store s') q = tree (store s) q)
       \<and> Delete flt' wall' s' p = (None, s')
       \<and> SetAttr flt' s' p mode uid gid = (Some ErrNotFound, s')"
proof -
  let ?x = "LDelete wall p"
  have step: "local_step flt s ?x = (None, s')" using assms(4) by simp
  have w: "wrote s s' (op_meta s ?x)" and cur: "current s' p = (op_meta s ?x)\<lparr>Seq := local_seq (store s')\<rparr>"
    and row: "row_at (store s') p \<noteq> None" and inv: "store_inv (store s')"
    using idle_or_written [OF assms(1,2) step] assms(3) wrote_inv by auto
  have gp: "good_path p"
    using local_step_outcome [OF assms(1,2) step] assms(3) by (auto split: if_splits)
  have dead: "\<not> live_at s' p" using cur by (simp add: live_at_def)
  have "Delete flt' wall' s' p = (None, s')" "SetAttr flt' s' p mode uid gid = (Some ErrNotFound, s')"
    using local_step_eq [of flt' s' "LDelete wall' p"] local_step_eq [of flt' s' "LSetAttr p mode uid gid"]
      gp assms(5) dead by simp_all
  moreover have "\<exists>m. Service_Get flt' s' p = Inr m \<and> Deleted m \<and> Hash m = '''' \<and> DeletedAt m = wall
            \<and> PrevHash m = Hash (current s p) \<and> Ver m = Version (fst (Now (clock s))) (Node (cfg s))"
    using row cur assms(5) by (auto simp: Service_Get_def Get_eq current_def)
  moreover have "p \<notin> Path ` set ms" if lv: "Service_Live flt' s' = Inr ms" for ms
  proof
    assume "p \<in> Path ` set ms"
    then obtain r where "r \<in> set (entries (store s'))" "r_path r = p" "\<not> r_deleted r"
      using Live_rows [OF lv [unfolded Service_Live_def]] by auto
    then have "live_at s' p"
      using row_at_iff [OF inv, of p r] by (simp add: live_at_def current_def)
    with dead show False by simp
  qed
  moreover have "\<forall>q. q \<noteq> p \<longrightarrow> tree (store s') q = tree (store s) q"
    using wrote_tree [OF w] by simp
  ultimately show ?thesis by blast
qed

theorem Delete_leaves_tombstone_witness:
  "let r = Delete (\<lambda>_. False) 77 example_service ''d''
   in live_at example_service ''d'' \<and> fst r = None
      \<and> (\<exists>m. Service_Get (\<lambda>_. False) (snd r) ''d'' = Inr m \<and> Deleted m \<and> DeletedAt m = 77)
      \<and> SetAttr (\<lambda>_. False) (snd r) ''d'' 448 0 0 = (Some ErrNotFound, snd r)"
proof -
  let ?r = "Delete (\<lambda>_. False) 77 example_service ''d''"
  have ok: "fst ?r = None"
    using local_step_succeeds [OF example_service_inv(1), of "\<lambda>_. False" "LDelete 77 ''d''"]
    by (simp add: example_store_def max_int64_def)
  from ok have run: "?r = (None, snd ?r)" by (metis prod.collapse)
  have live: "live_at example_service ''d''"
    by (simp add: live_at_def current_def example_rows) (simp add: example_store_def rowOf_def)
  from Delete_leaves_tombstone [OF example_service_inv live run, of "\<lambda>_. False" 0 448 0 0] run live
  show ?thesis unfolding Let_def using ok by auto
qed



text \<open>The clock is not part of the database, and \<^verbatim>\<open>New\<close> does not seed it from the store. After a
  restart, a local write to a path whose stored version is ahead of the local physical clock (a peer
  may be five minutes ahead) gets a smaller version than the one it replaces: the node now holds the
  new entry, and every peer that holds the replaced one skips it.\<close>

theorem New_forgets_stored_versions:
  assumes "store_inv st" and "blobs_ok st" and "tree st (op_path x) = Some m"
    and "0 < now 0" and "Timestamp (now 0) 0 < HLC (Ver m)"
    and "local_step flt (New c st now) x = (None, s')" and "\<not> op_idle (New c st now) x"
  shows "\<exists>m'. tree (store s') (op_path x) = Some m' \<and> Ver m' < Ver m
            \<and> resolve m True m' = decisionSkip"
proof -
  let ?s = "New c st now"
  have inv: "store_inv (store ?s)" "blobs_ok (store ?s)" using assms(1,2) by (simp_all add: New_def)
  have w: "wrote ?s s' (op_meta ?s x)" and p: "Path (op_meta ?s x) = op_path x"
    using idle_or_written [OF inv assms(6)] assms(7) by auto
  have "tree (store s') (op_path x) = Some (replicated (op_meta ?s x))"
    using wrote_tree [OF w] p by simp
  moreover have "fst (Now (clock ?s)) = Timestamp (now 0) 0"
    using assms(4) by (simp add: New_def NewClock_def Now_def Let_def)
  ultimately show ?thesis
    using assms(5) by (auto simp: Version_less_iff resolve_skip_iff intro: less_imp_le)
qed

theorem New_forgets_stored_versions_witness:
  "let s = New (cfg example_service) example_store (\<lambda>_. 3); r = Delete (\<lambda>_. False) 3 s ''d''
   in fst r = None \<and> (\<exists>m. tree (store (snd r)) ''d'' = Some m \<and> Ver m < Version (Timestamp 5 0) ''n1'')"
proof -
  let ?s = "New (cfg example_service) example_store (\<lambda>_. 3)"
  let ?x = "LDelete 3 ''d''"
  let ?m = "replicated (meta (entries example_store ! 0))"
  have inv: "store_inv example_store" "blobs_ok example_store" using example_service_inv by simp_all
  have ok: "fst (local_step (\<lambda>_. False) ?s ?x) = None"
    using local_step_succeeds [of ?s "\<lambda>_. False" ?x] inv by (simp add: example_seq max_int64_def)
  from ok have run: "local_step (\<lambda>_. False) ?s ?x = (None, snd (local_step (\<lambda>_. False) ?s ?x))"
    by (metis prod.collapse)
  have t: "tree example_store (op_path ?x) = Some ?m" and v: "Ver ?m = Version (Timestamp 5 0) ''n1''"
    by (simp add: tree_def example_rows) (simp add: example_store_def)
  have live: "\<not> op_idle ?s ?x"
    by (simp add: live_at_def current_def example_rows) (simp add: example_store_def rowOf_def)
  have "Timestamp 3 0 < HLC (Ver ?m)" unfolding v by (simp add: Timestamp_less_iff)
  from New_forgets_stored_versions [OF inv t _ this run live] run
  show ?thesis unfolding Let_def v using ok by auto
qed

end
