(* ===== verification/Core_Keys.thy ===== *)
theory Core_Keys
  imports Core_HLC Sha256
begin

text \<open>
  \<^verbatim>\<open>internal/core/keys.go\<close>: the three keys of the cluster, expanded from the operator's secret.
\<close>

definition MinSecretLen :: nat where
  "MinSecretLen = 16"

record Keys =
  Gossip :: bytes
  API :: bytes
  Blob_key :: bytes

definition derive :: "string \<Rightarrow> string \<Rightarrow> bytes option" where
  "derive secret info = hkdf_key secret ''distributed-configs-fs/v1'' info 32"

definition DeriveKeys :: "string \<Rightarrow> err + Keys" where
  "DeriveKeys secret =
     (if length secret < MinSecretLen then Inl ErrWeakSecret
      else case derive secret ''gossip'' of
        None \<Rightarrow> Inl ErrInvalid
      | Some g \<Rightarrow>
          (case derive secret ''api-hmac'' of
             None \<Rightarrow> Inl ErrInvalid
           | Some a \<Rightarrow>
               (case derive secret ''blob-seal'' of
                  None \<Rightarrow> Inl ErrInvalid
                | Some b \<Rightarrow> Inr \<lparr>Gossip = g, API = a, Blob_key = b\<rparr>)))"

text \<open>\<^verbatim>\<open>DeriveKeys\<close> refuses a secret of fewer than 16 bytes with \<^verbatim>\<open>ErrWeakSecret\<close> and otherwise always
  succeeds, with three keys of 32 bytes that depend on nothing but the secret: each is HMAC-SHA256 of
  its own label under the key extracted from the secret.\<close>

theorem DeriveKeys_total:
  "case DeriveKeys secret of
     Inl e \<Rightarrow> e = ErrWeakSecret \<and> length secret < 16
   | Inr k \<Rightarrow> length secret \<ge> 16
       \<and> length (Gossip k) = 32 \<and> length (API k) = 32 \<and> length (Blob_key k) = 32
       \<and> (let prk = hmac ''distributed-configs-fs/v1'' secret
          in k = \<lparr>Gossip = hmac prk (''gossip'' @ [CHR 0x01]),
                  API = hmac prk (''api-hmac'' @ [CHR 0x01]),
                  Blob_key = hmac prk (''blob-seal'' @ [CHR 0x01])\<rparr>)"
proof -
  have "char_of (1 :: nat) = CHR 0x01" by code_simp
  then have "derive secret info =
      Some (hmac (hmac ''distributed-configs-fs/v1'' secret) (info @ [CHR 0x01]))" for info
    by (simp add: derive_def hkdf_key_def Let_def)
  then show ?thesis
    by (simp add: DeriveKeys_def MinSecretLen_def Let_def)
qed

end
