(* ===== verification/Json.thy ===== *)
theory Json
  imports Go_Strings
begin

unbundle bit_operations_syntax

text \<open>
  What the program uses of \<^verbatim>\<open>encoding/json\<close> and \<^verbatim>\<open>unicode/utf8\<close>. \<^verbatim>\<open>json.Marshal\<close> is a printer of JSON values, with the escapes of its
  default HTML mode, and \<^verbatim>\<open>json.Unmarshal\<close> a parser of the whole grammar followed by the assignment of members to the fields
  of a struct. Both replace a byte that is not part of a valid UTF-8 sequence by the character U+FFFD. The limit of
  10000 on the nesting of a document is left out.
\<close>

section \<open>UTF-8\<close>

abbreviation ord8 :: "char \<Rightarrow> nat" where
  "ord8 c \<equiv> of_char c"

definition rune_len :: "nat \<Rightarrow> nat" where
  "rune_len x =
     (if x < 0x80 then 1 else if 0xC2 \<le> x \<and> x \<le> 0xDF then 2 else if 0xE0 \<le> x \<and> x \<le> 0xEF then 3
      else if 0xF0 \<le> x \<and> x \<le> 0xF4 then 4 else 0)"

definition second_ok :: "nat \<Rightarrow> nat \<Rightarrow> bool" where
  "second_ok x y \<longleftrightarrow>
     (if x = 0xE0 then 0xA0 \<le> y \<and> y \<le> 0xBF else if x = 0xED then 0x80 \<le> y \<and> y \<le> 0x9F
      else if x = 0xF0 then 0x90 \<le> y \<and> y \<le> 0xBF else if x = 0xF4 then 0x80 \<le> y \<and> y \<le> 0x8F
      else 0x80 \<le> y \<and> y \<le> 0xBF)"

text \<open>\<^verbatim>\<open>utf8.DecodeRune\<close>: the length of the character a text begins with, 0 if it begins with none.\<close>

definition utf8_size :: "bytes \<Rightarrow> nat" where
  "utf8_size s =
     (case s of
        [] \<Rightarrow> 0
      | a # rest \<Rightarrow>
          let n = rune_len (ord8 a) in
          if n \<le> 1 then n
          else if length s < n then 0
          else if second_ok (ord8 a) (ord8 (s ! 1)) \<and> list_all (\<lambda>c. 0x80 \<le> ord8 c \<and> ord8 c \<le> 0xBF) (take (n - 2) (drop 2 s))
          then n else 0)"

text \<open>\<^verbatim>\<open>utf8.AppendRune\<close> for a number that is a character.\<close>

definition utf8_encode :: "nat \<Rightarrow> bytes" where
  "utf8_encode r =
     map char_of
       (if r < 0x80 then [r]
        else if r < 0x800 then [0xC0 + r div 64, 0x80 + r mod 64]
        else if r < 0x10000 then [0xE0 + r div 4096, 0x80 + (r div 64) mod 64, 0x80 + r mod 64]
        else [0xF0 + r div 262144, 0x80 + (r div 4096) mod 64, 0x80 + (r div 64) mod 64, 0x80 + r mod 64])"

definition RuneError :: bytes where
  "RuneError = [CHR 0xEF, CHR 0xBF, CHR 0xBD]"

lemma utf8_size_le: "utf8_size s \<le> length s"
  by (auto simp: utf8_size_def Let_def not_less split: list.splits)

lemma utf8_size_le4: "utf8_size s \<le> 4"
  by (auto simp: utf8_size_def Let_def rune_len_def split: list.splits)

text \<open>A text with every byte that belongs to no character replaced.\<close>

function to_valid :: "bytes \<Rightarrow> bytes" where
  "to_valid [] = []"
| "to_valid (c # s) =
     (let n = utf8_size (c # s) in
      if n = 0 then RuneError @ to_valid s else take n (c # s) @ to_valid (drop (n - 1) s))"
  by pat_completeness auto

termination to_valid
  by (relation "measure length") auto

definition utf8_valid :: "bytes \<Rightarrow> bool" where
  "utf8_valid s \<longleftrightarrow> to_valid s = s"

section \<open>Strings\<close>

definition hex4 :: "nat \<Rightarrow> bytes" where
  "hex4 k = map (\<lambda>d. hex_digit ((k div d) mod 16)) [4096, 256, 16, 1]"

definition escape_char :: "char \<Rightarrow> bytes" where
  "escape_char c =
     (if c = CHR 0x22 \<or> c = CHR 0x5C then [CHR 0x5C, c]
      else if c = CHR 0x08 then [CHR 0x5C, CHR ''b''] else if c = CHR 0x0C then [CHR 0x5C, CHR ''f'']
      else if c = CHR 0x0A then [CHR 0x5C, CHR ''n''] else if c = CHR 0x0D then [CHR 0x5C, CHR ''r'']
      else if c = CHR 0x09 then [CHR 0x5C, CHR ''t'']
      else if ord8 c < 0x20 \<or> c = CHR ''<'' \<or> c = CHR ''>'' \<or> c = CHR 0x26 then CHR 0x5C # CHR ''u'' # hex4 (ord8 c)
      else [c])"

definition escape_rune :: "bytes \<Rightarrow> bytes" where
  "escape_rune r =
     (if r = utf8_encode 0x2028 then CHR 0x5C # CHR ''u'' # hex4 0x2028
      else if r = utf8_encode 0x2029 then CHR 0x5C # CHR ''u'' # hex4 0x2029 else r)"

function json_escape :: "bytes \<Rightarrow> bytes" where
  "json_escape [] = []"
| "json_escape (c # s) =
     (let n = utf8_size (c # s) in
      if n = 0 then CHR 0x5C # CHR ''u'' # hex4 0xFFFD @ json_escape s
      else if n = 1 then escape_char c @ json_escape s
      else escape_rune (take n (c # s)) @ json_escape (drop (n - 1) s))"
  by pat_completeness auto

termination json_escape
  by (relation "measure length") auto

definition quote :: "bytes \<Rightarrow> bytes" where
  "quote s = CHR 0x22 # json_escape s @ [CHR 0x22]"

text \<open>Reading: the number of a \<^verbatim>\<open>\u\<close> escape, and a pair of surrogates.\<close>

definition hex_val :: "char \<Rightarrow> nat option" where
  "hex_val c =
     (let k = ord8 c in
      if 48 \<le> k \<and> k \<le> 57 then Some (k - 48) else if 97 \<le> k \<and> k \<le> 102 then Some (k - 87)
      else if 65 \<le> k \<and> k \<le> 70 then Some (k - 55) else None)"

definition read_hex4 :: "bytes \<Rightarrow> nat option" where
  "read_hex4 s =
     (case s of
        a # b # c # d # _ \<Rightarrow>
          (case (hex_val a, hex_val b, hex_val c, hex_val d) of
             (Some w, Some x, Some y, Some z) \<Rightarrow> Some (((w * 16 + x) * 16 + y) * 16 + z)
           | _ \<Rightarrow> None)
      | _ \<Rightarrow> None)"

definition low_surrogate :: "bytes \<Rightarrow> nat option" where
  "low_surrogate s =
     (if HasPrefix s [CHR 0x5C, CHR ''u'']
      then (case read_hex4 (drop 2 s) of
              None \<Rightarrow> None
            | Some r \<Rightarrow> if 0xDC00 \<le> r \<and> r < 0xE000 then Some r else None)
      else None)"

definition simple_escape :: "char \<Rightarrow> char option" where
  "simple_escape c =
     (if c = CHR 0x22 \<or> c = CHR 0x5C \<or> c = CHR ''/'' then Some c
      else if c = CHR ''b'' then Some (CHR 0x08) else if c = CHR ''f'' then Some (CHR 0x0C)
      else if c = CHR ''n'' then Some (CHR 0x0A) else if c = CHR ''r'' then Some (CHR 0x0D)
      else if c = CHR ''t'' then Some (CHR 0x09) else None)"

text \<open>The rest of a string after its opening quote: its value and what follows the closing quote.\<close>

function parse_string :: "bytes \<Rightarrow> (bytes \<times> bytes) option" where
  "parse_string [] = None"
| "parse_string (c # s) =
     (let add = (\<lambda>b. map_option (\<lambda>(v, r). (b @ v, r))) in
      if c = CHR 0x22 then Some ([], s)
      else if c = CHR 0x5C then
        (case s of
           [] \<Rightarrow> None
         | e # t \<Rightarrow>
             if e = CHR ''u''
             then (case read_hex4 t of
                     None \<Rightarrow> None
                   | Some r \<Rightarrow>
                       if 0xD800 \<le> r \<and> r < 0xE000
                       then (case (if r < 0xDC00 then low_surrogate (drop 4 t) else None) of
                               None \<Rightarrow> add RuneError (parse_string (drop 4 t))
                             | Some l \<Rightarrow> add (utf8_encode (0x10000 + (r - 0xD800) * 0x400 + (l - 0xDC00))) (parse_string (drop 10 t)))
                       else add (utf8_encode r) (parse_string (drop 4 t)))
             else (case simple_escape e of None \<Rightarrow> None | Some x \<Rightarrow> add [x] (parse_string t)))
      else if ord8 c < 0x20 then None
      else
        let n = utf8_size (c # s) in
        if n = 0 then add RuneError (parse_string s)
        else add (take n (c # s)) (parse_string (drop (n - 1) s)))"
  by pat_completeness auto

termination parse_string
  by (relation "measure length") auto

declare to_valid.simps [simp del] json_escape.simps [simp del] parse_string.simps [simp del]


section \<open>Strings survive as far as they are UTF-8\<close>

lemma utf8_size_prefix:
  assumes "utf8_size s = n" and "n \<noteq> 0"
  shows "utf8_size (take n s @ x) = n"
proof (cases s)
  case (Cons a r)
  have len: "n \<le> length s" using utf8_size_le [of s] assms(1) by simp
  show ?thesis
  proof (cases "n = 1")
    case True
    then show ?thesis using assms Cons by (auto simp: utf8_size_def Let_def split: if_splits)
  next
    case False
    then have n: "rune_len (ord8 a) = n" "2 \<le> n" "second_ok (ord8 a) (ord8 (s ! 1))"
      "list_all (\<lambda>c. 0x80 \<le> ord8 c \<and> ord8 c \<le> 0xBF) (take (n - 2) (drop 2 s))"
      using assms Cons by (auto simp: utf8_size_def Let_def split: if_splits)
    obtain m where m: "n = Suc (Suc m)" using n(2) by (metis add_2_eq_Suc le_Suc_ex)
    obtain b r' where r: "r = b # r'" using len Cons m by (cases r) auto
    show ?thesis using n Cons r m len by (simp add: utf8_size_def Let_def)
  qed
qed (use assms in \<open>simp add: utf8_size_def\<close>)

lemma utf8_size_high:
  assumes "utf8_size (c # s) = n" and "n \<noteq> 1"
  shows "0x80 \<le> ord8 c"
  using assms by (auto simp: utf8_size_def Let_def rune_len_def split: if_splits)

lemma utf8_size_ascii: "ord8 c < 0x80 \<Longrightarrow> utf8_size (c # s) = 1"
  by (simp add: utf8_size_def rune_len_def)

lemma utf8_size_one: "utf8_size (c # s) = 1 \<Longrightarrow> ord8 c < 0x80"
  by (auto simp: utf8_size_def Let_def rune_len_def split: if_splits)

lemma hex_val_digit: "k < 16 \<Longrightarrow> hex_val (hex_digit k) = Some k"
proof -
  assume k: "k < 16"
  have "list_all (\<lambda>k. hex_val (hex_digit k) = Some k) [0..<16]" by code_simp
  then show ?thesis using k by (simp add: list_all_iff)
qed

lemma digits16:
  "x = 16 * a + b \<Longrightarrow> y = 16 * x + c \<Longrightarrow> k = 16 * y + d \<Longrightarrow> ((a * 16 + b) * 16 + c) * 16 + d = (k :: nat)"
  by simp

lemma read_hex4:
  assumes "k < 0x10000"
  shows "read_hex4 (hex4 k @ x) = Some k"
proof -
  have "((k div 4096 mod 16 * 16 + k div 256 mod 16) * 16 + k div 16 mod 16) * 16 + k mod 16 = k"
  proof (rule digits16)
    show "k div 256 = 16 * (k div 4096 mod 16) + k div 256 mod 16" "k div 16 = 16 * (k div 256) + k div 16 mod 16"
      using mult_div_mod_eq [of 16 "k div 256"] mult_div_mod_eq [of 16 "k div 16"] assms
      by (simp_all add: div_mult2_eq [of k 256 16, simplified] div_mult2_eq [of k 16 16, simplified])
  qed simp
  moreover have "k div 4096 < 16" "k div 4096 mod 16 = k div 4096" using assms by simp_all
  ultimately show ?thesis by (simp add: read_hex4_def hex4_def hex_val_digit)
qed

lemma utf8_encode_ascii: "ord8 c < 0x80 \<Longrightarrow> utf8_encode (ord8 c) = [c]"
  by (simp add: utf8_encode_def)

text \<open>Each piece the printer writes is read back as the characters it stands for.\<close>

abbreviation prepend :: "bytes \<Rightarrow> (bytes \<times> bytes) option \<Rightarrow> (bytes \<times> bytes) option" where
  "prepend b \<equiv> map_option (\<lambda>(v, r). (b @ v, r))"

lemma parse_u_escape:
  assumes "k < 0xD800 \<or> 0xE000 \<le> k" and "k < 0x10000"
  shows "parse_string (CHR 0x5C # CHR ''u'' # hex4 k @ x) = prepend (utf8_encode k) (parse_string x)"
proof -
  have "length (hex4 k) = 4" by (simp add: hex4_def)
  then show ?thesis using read_hex4 [OF assms(2), of x] assms(1) by (auto simp: parse_string.simps)
qed

lemma parse_escape_char:
  assumes "ord8 c < 0x80"
  shows "parse_string (escape_char c @ x) = prepend [c] (parse_string x)"
proof (cases "ord8 c < 0x20 \<or> c = CHR ''<'' \<or> c = CHR ''>'' \<or> c = CHR 0x26")
  case True
  then show ?thesis
    using parse_u_escape [of "ord8 c" x] assms
    by (simp add: escape_char_def utf8_encode_ascii) (simp add: parse_string.simps simple_escape_def)
next
  case False
  then have "ord8 c \<noteq> 8" "ord8 c \<noteq> 12" "ord8 c \<noteq> 10" "ord8 c \<noteq> 13" "ord8 c \<noteq> 9" by auto
  then show ?thesis
    using False assms utf8_size_ascii [OF assms, of x]
    by (auto simp: escape_char_def parse_string.simps(2) simple_escape_def)
qed

lemma parse_rune:
  assumes "utf8_size s = n" and "2 \<le> n"
  shows "parse_string (take n s @ x) = prepend (take n s) (parse_string x)"
proof -
  obtain c r where s: "s = c # r" using assms by (cases s) (auto simp: utf8_size_def)
  have c: "0x80 \<le> ord8 c" using utf8_size_high [of c r n] assms s by simp
  obtain m where m: "n = Suc m" using assms(2) by (cases n) auto
  have len: "m \<le> length r" using utf8_size_le [of s] assms s m by simp
  have sz: "utf8_size (c # take m r @ x) = n" using utf8_size_prefix [OF assms(1), of x] assms(2) s m by simp
  have "c \<noteq> CHR 0x22" "c \<noteq> CHR 0x5C" using c by auto
  then show ?thesis using sz c s m len by (simp add: parse_string.simps(2) [of c])
qed

lemma parse_escape_rune:
  assumes "utf8_size s = n" and "2 \<le> n"
  shows "parse_string (escape_rune (take n s) @ x) = prepend (take n s) (parse_string x)"
  using parse_rune [OF assms, of x] parse_u_escape [of "0x2028" x] parse_u_escape [of "0x2029" x]
  by (simp add: escape_rune_def)

lemma prepend_Some: "prepend b (Some (v, r)) = Some (b @ v, r)"
  by simp

lemma parse_json_escape: "parse_string (json_escape s @ CHR 0x22 # x) = Some (to_valid s, x)"
proof (induction s rule: json_escape.induct)
  case 1
  then show ?case by (simp add: json_escape.simps to_valid.simps parse_string.simps)
next
  case (2 c s)
  let ?n = "utf8_size (c # s)"
  consider "?n = 0" | "?n = 1" | "2 \<le> ?n" by linarith
  then show ?case
  proof cases
    case 1
    have "char_of (239 :: nat) = CHR 0xEF" "char_of (191 :: nat) = CHR 0xBF" "char_of (189 :: nat) = CHR 0xBD" by code_simp+
    then have "utf8_encode 0xFFFD = RuneError" by (simp add: utf8_encode_def RuneError_def)
    then show ?thesis
      using 1 2(1) parse_u_escape [of "0xFFFD" "json_escape s @ CHR 0x22 # x"]
      by (simp add: json_escape.simps(2) [of c s] to_valid.simps(2) [of c s])
  next
    case 2
    then show ?thesis
      using "2.IH"(2) parse_escape_char [OF utf8_size_one [OF 2], of "json_escape s @ CHR 0x22 # x"]
      by (simp add: json_escape.simps(2) [of c s] to_valid.simps(2) [of c s])
  next
    case 3
    then have "parse_string (json_escape (drop (?n - 1) s) @ CHR 0x22 # x) = Some (to_valid (drop (?n - 1) s), x)"
      using "2.IH"(3) [OF refl] by simp
    then show ?thesis
      using 3 parse_escape_rune [OF refl 3, of "json_escape (drop (?n - 1) s) @ CHR 0x22 # x"]
      by (simp add: Let_def json_escape.simps(2) [of c s] to_valid.simps(2) [of c s])
  qed
qed


section \<open>Values\<close>

text \<open>A number is its text, an object the list of its members.\<close>

datatype json = JNull | JBool bool | JNum string | JStr bytes | JArr "json list" | JObj "(bytes \<times> json) list"

definition is_digit :: "char \<Rightarrow> bool" where
  "is_digit c \<longleftrightarrow> 48 \<le> ord8 c \<and> ord8 c \<le> 57"

definition number_char :: "char \<Rightarrow> bool" where
  "number_char c \<longleftrightarrow> is_digit c \<or> c \<in> set ''+-.eE''"

text \<open>The grammar of numbers: an integer part without leading zeros, an optional fraction and exponent.\<close>

definition digits_part :: "string \<Rightarrow> string option" where
  "digits_part s = (if s = [] \<or> \<not> is_digit (hd s) then None else Some (dropWhile is_digit s))"

definition int_part :: "string \<Rightarrow> string option" where
  "int_part s =
     (case s of
        [] \<Rightarrow> None
      | c # r \<Rightarrow> if c = CHR ''0'' then Some r else digits_part s)"

definition frac_part :: "string \<Rightarrow> string option" where
  "frac_part s = (case s of [] \<Rightarrow> Some [] | c # r \<Rightarrow> if c = CHR ''.'' then digits_part r else Some s)"

definition exp_part :: "string \<Rightarrow> string option" where
  "exp_part s =
     (case s of
        [] \<Rightarrow> Some []
      | c # r \<Rightarrow>
          if c = CHR ''e'' \<or> c = CHR ''E''
          then digits_part (case r of [] \<Rightarrow> [] | x # r' \<Rightarrow> if x = CHR ''+'' \<or> x = CHR ''-'' then r' else r)
          else Some s)"

definition number_ok :: "string \<Rightarrow> bool" where
  "number_ok s \<longleftrightarrow>
     Option.bind (Option.bind (int_part (if HasPrefix s ''-'' then tl s else s)) frac_part) exp_part = Some []"

definition skip_ws :: "bytes \<Rightarrow> bytes" where
  "skip_ws s = dropWhile (\<lambda>c. c = CHR 0x20 \<or> c = CHR 0x09 \<or> c = CHR 0x0A \<or> c = CHR 0x0D) s"

definition json_literal :: "string \<Rightarrow> json \<Rightarrow> bytes \<Rightarrow> (json \<times> bytes) option" where
  "json_literal w v s = (if HasPrefix s w then Some (v, drop (length w) s) else None)"

definition parse_number :: "bytes \<Rightarrow> (json \<times> bytes) option" where
  "parse_number s =
     (let t = takeWhile number_char s in
      if number_ok t then Some (JNum t, dropWhile number_char s) else None)"

text \<open>The parser. Every call takes one unit of fuel; \<open>Unmarshal\<close> gives enough for every text.\<close>

fun parse_value :: "nat \<Rightarrow> bytes \<Rightarrow> (json \<times> bytes) option"
  and parse_elems :: "nat \<Rightarrow> bytes \<Rightarrow> (json list \<times> bytes) option"
  and parse_members :: "nat \<Rightarrow> bytes \<Rightarrow> ((bytes \<times> json) list \<times> bytes) option" where
  "parse_value 0 s = None"
| "parse_value (Suc k) s =
     (case skip_ws s of
        [] \<Rightarrow> None
      | c # r \<Rightarrow>
          if c = CHR 0x7B
          then (if HasPrefix (skip_ws r) [CHR 0x7D] then Some (JObj [], tl (skip_ws r))
                else map_option (\<lambda>(ms, r). (JObj ms, r)) (parse_members k r))
          else if c = CHR 0x5B
          then (if HasPrefix (skip_ws r) [CHR 0x5D] then Some (JArr [], tl (skip_ws r))
                else map_option (\<lambda>(vs, r). (JArr vs, r)) (parse_elems k r))
          else if c = CHR 0x22 then map_option (\<lambda>(v, r). (JStr v, r)) (parse_string r)
          else if c = CHR ''t'' then json_literal ''true'' (JBool True) (c # r)
          else if c = CHR ''f'' then json_literal ''false'' (JBool False) (c # r)
          else if c = CHR ''n'' then json_literal ''null'' JNull (c # r)
          else parse_number (c # r))"
| "parse_elems 0 s = None"
| "parse_elems (Suc k) s =
     (case parse_value k s of
        None \<Rightarrow> None
      | Some (v, r) \<Rightarrow>
          (case skip_ws r of
             [] \<Rightarrow> None
           | c # r \<Rightarrow>
               if c = CHR 0x2C then map_option (\<lambda>(vs, r). (v # vs, r)) (parse_elems k r)
               else if c = CHR 0x5D then Some ([v], r)
               else None))"
| "parse_members 0 s = None"
| "parse_members (Suc k) s =
     (case skip_ws s of
        [] \<Rightarrow> None
      | c # r \<Rightarrow>
          if c \<noteq> CHR 0x22 then None
          else (case parse_string r of
                  None \<Rightarrow> None
                | Some (name, r) \<Rightarrow>
                    if \<not> HasPrefix (skip_ws r) [CHR 0x3A] then None
                    else (case parse_value k (tl (skip_ws r)) of
                            None \<Rightarrow> None
                          | Some (v, r) \<Rightarrow>
                              (case skip_ws r of
                                 [] \<Rightarrow> None
                               | c # r \<Rightarrow>
                                   if c = CHR 0x2C then map_option (\<lambda>(ms, r). ((name, v) # ms, r)) (parse_members k r)
                                   else if c = CHR 0x7D then Some ([(name, v)], r)
                                   else None))))"

definition parse_json :: "bytes \<Rightarrow> json option" where
  "parse_json s =
     (case parse_value (2 * length s + 1) s of
        None \<Rightarrow> None
      | Some (v, r) \<Rightarrow> if skip_ws r = [] then Some v else None)"

text \<open>The printer, and a value with the texts in it made valid.\<close>

fun print_json :: "json \<Rightarrow> bytes" where
  "print_json JNull = ''null''"
| "print_json (JBool b) = (if b then ''true'' else ''false'')"
| "print_json (JNum t) = t"
| "print_json (JStr s) = quote s"
| "print_json (JArr vs) = CHR 0x5B # join_on (CHR 0x2C) (map print_json vs) @ [CHR 0x5D]"
| "print_json (JObj ms) =
     CHR 0x7B # join_on (CHR 0x2C) (map (\<lambda>(k, v). quote k @ CHR 0x3A # print_json v) ms) @ [CHR 0x7D]"

fun valid_json :: "json \<Rightarrow> json" where
  "valid_json (JStr s) = JStr (to_valid s)"
| "valid_json (JArr vs) = JArr (map valid_json vs)"
| "valid_json (JObj ms) = JObj (map (\<lambda>(k, v). (to_valid k, valid_json v)) ms)"
| "valid_json v = v"

fun numbers_ok :: "json \<Rightarrow> bool" where
  "numbers_ok (JNum t) \<longleftrightarrow> number_ok t \<and> list_all number_char t"
| "numbers_ok (JArr vs) \<longleftrightarrow> list_all numbers_ok vs"
| "numbers_ok (JObj ms) \<longleftrightarrow> list_all (\<lambda>(k, v). numbers_ok v) ms"
| "numbers_ok v \<longleftrightarrow> True"


section \<open>Reading what was printed\<close>

abbreviation delimited :: "bytes \<Rightarrow> bool" where
  "delimited x \<equiv> x = [] \<or> \<not> number_char (hd x)"

lemma number_ok_nonempty: "number_ok t \<Longrightarrow> t \<noteq> []"
  by (auto simp: number_ok_def int_part_def HasPrefix_def)

lemma number_char_plain:
  "number_char c \<Longrightarrow> c \<notin> {CHR 0x20, CHR 0x09, CHR 0x0A, CHR 0x0D, CHR 0x22, CHR 0x2C, CHR 0x3A, CHR 0x5B, CHR 0x5D, CHR 0x7B,
     CHR 0x7D, CHR ''t'', CHR ''f'', CHR ''n''}"
  by (auto simp: number_char_def is_digit_def)

lemma print_start:
  assumes "numbers_ok v"
  obtains c r where "print_json v = c # r"
    "c \<notin> {CHR 0x20, CHR 0x09, CHR 0x0A, CHR 0x0D, CHR 0x2C, CHR 0x5D, CHR 0x7D}"
proof (cases v)
  case (JNum t)
  then obtain c r where "t = c # r" "number_char c" using assms number_ok_nonempty by (cases t) auto
  then show ?thesis using that JNum number_char_plain by fastforce
next
  case (JBool b)
  then show ?thesis using that by (cases b) auto
qed (use that in \<open>auto simp: quote_def\<close>)

lemma skip_ws_print: "numbers_ok v \<Longrightarrow> skip_ws (print_json v @ x) = print_json v @ x"
  by (erule print_start) (simp add: skip_ws_def)

lemma skip_ws_plain: "c \<notin> {CHR 0x20, CHR 0x09, CHR 0x0A, CHR 0x0D} \<Longrightarrow> skip_ws (c # r) = c # r"
  by (simp add: skip_ws_def)

lemma parse_print_number:
  assumes "number_ok t" and "list_all number_char t" and "delimited x"
  shows "parse_value (Suc k) (t @ x) = Some (JNum t, x)"
proof -
  obtain c r where t: "t = c # r" using number_ok_nonempty [OF assms(1)] by (cases t) auto
  have c: "number_char c" using assms(2) t by simp
  have "takeWhile number_char (t @ x) = t" "dropWhile number_char (t @ x) = x"
    using assms(2,3) by (cases x; auto simp: takeWhile_append list_all_iff dropWhile_append)+
  then have "parse_number (t @ x) = Some (JNum t, x)" using assms(1) by (simp add: parse_number_def Let_def)
  then show ?thesis using number_char_plain [OF c] t by (simp add: skip_ws_plain)
qed

lemma parse_print_elems:
  assumes "\<And>v x k. v \<in> set vs \<Longrightarrow> delimited x \<Longrightarrow> 2 * length (print_json v) \<le> k \<Longrightarrow>
      parse_value k (print_json v @ x) = Some (valid_json v, x)"
    and "vs \<noteq> []" and "2 * length (join_on (CHR 0x2C) (map print_json vs)) < k"
  shows "parse_elems k (join_on (CHR 0x2C) (map print_json vs) @ CHR 0x5D # x) = Some (map valid_json vs, x)"
  using assms
proof (induction vs arbitrary: k)
  case (Cons v vs)
  obtain j where k: "k = Suc j" using Cons.prems(3) by (cases k) auto
  have d: "delimited (CHR 0x5D # x)" "delimited (CHR 0x2C # y)" for y by (simp_all add: number_char_def is_digit_def)
  show ?case
  proof (cases vs)
    case Nil
    have "parse_value j (print_json v @ CHR 0x5D # x) = Some (valid_json v, CHR 0x5D # x)"
      by (rule Cons.prems(1)) (use Nil Cons.prems(3) k d in auto)
    then show ?thesis using Nil k by (simp add: skip_ws_plain)
  next
    case (Cons w ws)
    let ?rest = "join_on (CHR 0x2C) (map print_json vs)"
    have join: "join_on (CHR 0x2C) (map print_json (v # vs)) = print_json v @ CHR 0x2C # ?rest" using Cons by simp
    have "parse_value j (print_json v @ CHR 0x2C # ?rest @ CHR 0x5D # x) = Some (valid_json v, CHR 0x2C # ?rest @ CHR 0x5D # x)"
      by (rule Cons.prems(1)) (use Cons.prems(3) k d join in auto)
    moreover have "parse_elems j (?rest @ CHR 0x5D # x) = Some (map valid_json vs, x)"
      by (rule Cons.IH [OF Cons.prems(1)]) (use Cons Cons.prems(3) k join in auto)
    ultimately show ?thesis using join k by (simp add: skip_ws_plain)
  qed
qed simp

lemma parse_print_members:
  assumes "\<And>n v x k. (n, v) \<in> set ms \<Longrightarrow> delimited x \<Longrightarrow> 2 * length (print_json v) \<le> k \<Longrightarrow>
      parse_value k (print_json v @ x) = Some (valid_json v, x)"
    and "ms \<noteq> []" and "2 * length (join_on (CHR 0x2C) (map (\<lambda>(k, v). quote k @ CHR 0x3A # print_json v) ms)) < k"
  shows "parse_members k (join_on (CHR 0x2C) (map (\<lambda>(k, v). quote k @ CHR 0x3A # print_json v) ms) @ CHR 0x7D # x)
    = Some (map (\<lambda>(k, v). (to_valid k, valid_json v)) ms, x)"
  using assms
proof (induction ms arbitrary: k)
  case (Cons m ms)
  obtain n v where m: "m = (n, v)" by (cases m)
  obtain j where k: "k = Suc j" using Cons.prems(3) by (cases k) auto
  have d: "delimited (CHR 0x7D # x)" "delimited (CHR 0x2C # y)" for y by (simp_all add: number_char_def is_digit_def)
  have name: "parse_string (json_escape n @ CHR 0x22 # y) = Some (to_valid n, y)" for y by (rule parse_json_escape)
  show ?case
  proof (cases ms)
    case Nil
    have "parse_value j (print_json v @ CHR 0x7D # x) = Some (valid_json v, CHR 0x7D # x)"
      by (rule Cons.prems(1)) (use Nil Cons.prems(3) k d m in auto)
    then show ?thesis using Nil k m name by (simp add: skip_ws_plain quote_def HasPrefix_def)
  next
    case (Cons w ws)
    let ?rest = "join_on (CHR 0x2C) (map (\<lambda>(k, v). quote k @ CHR 0x3A # print_json v) ms)"
    have join: "join_on (CHR 0x2C) (map (\<lambda>(k, v). quote k @ CHR 0x3A # print_json v) (m # ms))
        = quote n @ CHR 0x3A # print_json v @ CHR 0x2C # ?rest" using Cons m by simp
    have "parse_value j (print_json v @ CHR 0x2C # ?rest @ CHR 0x7D # x) = Some (valid_json v, CHR 0x2C # ?rest @ CHR 0x7D # x)"
      by (rule Cons.prems(1)) (use Cons.prems(3) k d m join in auto)
    moreover have "parse_members j (?rest @ CHR 0x7D # x) = Some (map (\<lambda>(k, v). (to_valid k, valid_json v)) ms, x)"
      by (rule Cons.IH [OF Cons.prems(1)]) (use Cons Cons.prems(3) k join in auto)
    ultimately show ?thesis unfolding join using k m name by (simp add: skip_ws_plain quote_def HasPrefix_def)
  qed
qed simp

lemma not_closed: "numbers_ok v \<Longrightarrow> \<not> HasPrefix (skip_ws (print_json v @ x)) [CHR 0x5D]"
  using skip_ws_print [of v x] by (auto elim!: print_start simp: HasPrefix_def)

lemma parse_print:
  "numbers_ok v \<Longrightarrow> delimited x \<Longrightarrow> 2 * length (print_json v) \<le> k \<Longrightarrow> parse_value k (print_json v @ x) = Some (valid_json v, x)"
proof (induction v arbitrary: x k)
  case (JNum t)
  then obtain j where "k = Suc j" using number_ok_nonempty by (cases k) auto
  then show ?case using JNum parse_print_number by simp
next
  case (JArr vs)
  then obtain j where k: "k = Suc j" by (cases k) auto
  show ?case
  proof (cases vs)
    case Nil
    then show ?thesis using k by (simp add: skip_ws_plain HasPrefix_def)
  next
    case (Cons v ws)
    let ?els = "join_on (CHR 0x2C) (map print_json vs)"
    obtain y where y: "?els @ CHR 0x5D # x = print_json v @ y" using Cons by (cases ws) auto
    have "\<not> HasPrefix (skip_ws (?els @ CHR 0x5D # x)) [CHR 0x5D]"
      unfolding y by (rule not_closed) (use JArr.prems(1) Cons in simp)
    moreover have "parse_elems j (?els @ CHR 0x5D # x) = Some (map valid_json vs, x)"
      by (rule parse_print_elems) (use JArr Cons k in \<open>auto simp: list_all_iff\<close>)
    ultimately show ?thesis using k by (simp add: skip_ws_plain)
  qed
next
  case (JObj ms)
  then obtain j where k: "k = Suc j" by (cases k) auto
  show ?case
  proof (cases ms)
    case Nil
    then show ?thesis using k by (simp add: skip_ws_plain HasPrefix_def)
  next
    case (Cons m ws)
    let ?mem = "join_on (CHR 0x2C) (map (\<lambda>(k, v). quote k @ CHR 0x3A # print_json v) ms)"
    have "\<exists>y. ?mem @ CHR 0x7D # x = CHR 0x22 # y" using Cons by (cases ws; cases m) (auto simp: quote_def)
    then have "\<not> HasPrefix (skip_ws (?mem @ CHR 0x7D # x)) [CHR 0x7D]" by (auto simp: skip_ws_plain HasPrefix_def)
    moreover have "parse_members j (?mem @ CHR 0x7D # x) = Some (map (\<lambda>(k, v). (to_valid k, valid_json v)) ms, x)"
    proof (rule parse_print_members)
      fix n v y i
      assume "(n, v) \<in> set ms" and d: "delimited y" "2 * length (print_json v) \<le> i"
      then show "parse_value i (print_json v @ y) = Some (valid_json v, y)"
        using JObj.IH [of "(n, v)" v, OF _ _ _ d] JObj.prems(1) by (auto simp: list_all_iff snds.simps)
    qed (use JObj.prems(3) Cons k in auto)
    ultimately show ?thesis using k by (simp add: skip_ws_plain)
  qed
next
  case (JStr s)
  then obtain j where "k = Suc j" by (cases k) (auto simp: quote_def)
  then show ?case using parse_json_escape [of s x] by (simp add: quote_def skip_ws_plain)
next
  case (JBool b)
  then obtain j where "k = Suc j" by (cases k; cases b) auto
  then show ?case by (cases b) (simp_all add: skip_ws_plain json_literal_def HasPrefix_def)
next
  case JNull
  then obtain j where "k = Suc j" by (cases k) auto
  then show ?case by (simp add: skip_ws_plain json_literal_def HasPrefix_def)
qed

theorem parse_print_json: "numbers_ok v \<Longrightarrow> parse_json (print_json v) = Some (valid_json v)"
  using parse_print [of v "[]" "2 * length (print_json v) + 1"] by (simp add: parse_json_def skip_ws_def)


section \<open>The fuel is enough\<close>

text \<open>Every reader leaves a shorter text behind, so no text needs more than two calls a byte.\<close>

lemma skip_ws_length: "length (skip_ws s) \<le> length s"
  by (simp add: skip_ws_def length_dropWhile_le)

lemma skip_ws_Cons: "skip_ws s = c # r \<Longrightarrow> length r < length s"
  using skip_ws_length [of s] by simp

lemma parse_string_shorter: "parse_string s = Some (v, r) \<Longrightarrow> length r < length s"
proof (induction "length s" arbitrary: s v r rule: less_induct)
  case less
  have IH: "length t < length s \<longrightarrow> length r < length s" if "parse_string t = Some (w, r)" for t w
    using less.hyps [OF _ that] by auto
  obtain c t where s: "s = c # t" using less.prems by (cases s) (auto simp: parse_string.simps)
  show ?case
    using less.prems
    by (auto simp: s parse_string.simps(2) Let_def split: if_splits list.splits option.splits
        dest!: IH [unfolded s])
qed

lemma literal_shorter: "json_literal w v s = Some (x, r) \<Longrightarrow> w \<noteq> [] \<Longrightarrow> length r < length s"
  by (auto simp: json_literal_def HasPrefix_iff split: if_splits)

lemma parse_number_shorter: "parse_number s = Some (v, r) \<Longrightarrow> length r < length s"
proof -
  assume "parse_number s = Some (v, r)"
  then have "number_ok (takeWhile number_char s)" "r = dropWhile number_char s"
    by (auto simp: parse_number_def Let_def split: if_splits)
  then show ?thesis
    using number_ok_nonempty takeWhile_dropWhile_id [of number_char s] by (metis length_append length_greater_0_conv less_add_same_cancel2)
qed

lemma parse_shorter:
  "parse_value k s = Some (v, r) \<Longrightarrow> length r < length s"
  "parse_elems k s = Some (vs, r) \<Longrightarrow> length r < length s"
  "parse_members k s = Some (ms, r) \<Longrightarrow> length r < length s"
proof (induction k s and k s and k s arbitrary: v r and vs r and ms r rule: parse_value_parse_elems_parse_members.induct)
  case (2 k s)
  then obtain c t where ws: "skip_ws s = c # t" by (cases "skip_ws s") auto
  note tail = skip_ws_Cons [OF ws] skip_ws_length [of s, unfolded ws] skip_ws_length [of t]
  have "length r < length t" if "parse_members k t = Some (ms, r)" "c = CHR 0x7B" "\<not> HasPrefix (skip_ws t) [CHR 0x7D]" for ms
    using 2(1) [OF ws] that by simp
  moreover have "length r < length t" if "parse_elems k t = Some (vs, r)" "c = CHR 0x5B" "\<not> HasPrefix (skip_ws t) [CHR 0x5D]" for vs
    using 2(2) [OF ws] that by simp
  ultimately show ?case
    using 2(3) tail
    by (fastforce simp: ws split: if_splits dest!: parse_string_shorter literal_shorter parse_number_shorter)
next
  case (4 k s)
  then obtain w t where w: "parse_value k s = Some (w, t)" by (auto split: option.splits)
  then obtain c t' where t: "skip_ws t = c # t'" using 4(3) by (cases "skip_ws t") auto
  have "length t < length s" by (rule 4(1) [OF w])
  then show ?case using 4(3) 4(2) [OF w refl t] skip_ws_Cons [OF t] by (fastforce simp: w t split: if_splits)
next
  case (6 k s)
  then obtain c t where ws: "skip_ws s = c # t" by (cases "skip_ws s") auto
  then obtain n t1 where n: "parse_string t = Some (n, t1)" "c = CHR 0x22" using 6(3) by (auto split: option.splits if_splits)
  then obtain w t2 where w: "parse_value k (tl (skip_ws t1)) = Some (w, t2)" "HasPrefix (skip_ws t1) [CHR 0x3A]"
    using 6(3) ws by (auto split: option.splits if_splits)
  then obtain c' t3 where t: "skip_ws t2 = c' # t3" using 6(3) ws n by (cases "skip_ws t2") auto
  have "length t2 < length s"
    using 6(1) [OF ws _ n(1) refl _ w(1)] n(2) w(2) skip_ws_Cons [OF ws] parse_string_shorter [OF n(1)] skip_ws_length [of t1] by simp
  then show ?case
    using 6(3) 6(2) [OF ws _ n(1) refl _ w(1) refl t] n(2) w(2) skip_ws_Cons [OF t] by (fastforce simp: w t ws n split: if_splits)
qed simp_all


lemma parse_fuel:
  "parse_value k s = Some (v, r) \<Longrightarrow> 2 * length s < j \<Longrightarrow> parse_value j s = Some (v, r)"
  "parse_elems k s = Some (vs, r) \<Longrightarrow> 2 * length s + 1 < j \<Longrightarrow> parse_elems j s = Some (vs, r)"
  "parse_members k s = Some (ms, r) \<Longrightarrow> 2 * length s < j \<Longrightarrow> parse_members j s = Some (ms, r)"
proof (induction k s and k s and k s arbitrary: v r j and vs r j and ms r j rule: parse_value_parse_elems_parse_members.induct)
  case (2 k s)
  obtain c t where ws: "skip_ws s = c # t" using 2(3) by (cases "skip_ws s") auto
  obtain i where j: "j = Suc i" using 2(4) by (cases j) auto
  have i: "2 * length t < i" "2 * length t + 1 < i" using skip_ws_Cons [OF ws] 2(4) j by simp_all
  have "parse_members i t = Some (ms, r)"
    if "parse_members k t = Some (ms, r)" "c = CHR 0x7B" "\<not> HasPrefix (skip_ws t) [CHR 0x7D]" for ms
    using 2(1) [OF ws _ _ _ i(1)] that by simp
  moreover have "parse_elems i t = Some (vs, r)"
    if "parse_elems k t = Some (vs, r)" "c = CHR 0x5B" "\<not> HasPrefix (skip_ws t) [CHR 0x5D]" for vs
    using 2(2) [OF ws _ _ _ _ i(2)] that by simp
  ultimately show ?case
    using 2(3) by (fastforce simp: ws j split: if_splits)
next
  case (4 k s)
  obtain w t where w: "parse_value k s = Some (w, t)" using 4(3) by (auto split: option.splits)
  obtain i where j: "j = Suc i" using 4(4) by (cases j) auto
  obtain c t' where t: "skip_ws t = c # t'" using 4(3) w by (cases "skip_ws t") auto
  have "length t' < length s" using parse_shorter(1) [OF w] skip_ws_Cons [OF t] by simp
  then have "parse_elems i t' = Some (vs, r)" if "parse_elems k t' = Some (vs, r)" "c = CHR 0x2C" for vs
    using 4(2) [OF w refl t, of vs r i] that 4(4) j by simp
  moreover have "parse_value i s = Some (w, t)" using 4(1) [OF w] 4(4) j by simp
  ultimately show ?case using 4(3) by (fastforce simp: w t j split: if_splits)
next
  case (6 k s)
  obtain c t where ws: "skip_ws s = c # t" using 6(3) by (cases "skip_ws s") auto
  obtain i where j: "j = Suc i" using 6(4) by (cases j) auto
  obtain n t1 where n: "parse_string t = Some (n, t1)" "c = CHR 0x22" using 6(3) ws by (auto split: option.splits if_splits)
  obtain w t2 where w: "parse_value k (tl (skip_ws t1)) = Some (w, t2)" "HasPrefix (skip_ws t1) [CHR 0x3A]"
    using 6(3) ws n by (auto split: option.splits if_splits)
  obtain c' t3 where t: "skip_ws t2 = c' # t3" using 6(3) ws n w by (cases "skip_ws t2") auto
  have len: "length (tl (skip_ws t1)) < length s" "length t3 < length s"
    using parse_shorter(1) [OF w(1)] skip_ws_Cons [OF t] skip_ws_Cons [OF ws] parse_string_shorter [OF n(1)] skip_ws_length [of t1]
    by simp_all
  have "parse_value i (tl (skip_ws t1)) = Some (w, t2)" using 6(1) [OF ws _ n(1) refl _ w(1)] n(2) w(2) len(1) 6(4) j by simp
  moreover have "parse_members i t3 = Some (ms, r)" if "parse_members k t3 = Some (ms, r)" "c' = CHR 0x2C" for ms
    using 6(2) [OF ws _ n(1) refl _ w(1) refl t, of ms r i] n(2) w(2) that len(2) 6(4) j by simp
  ultimately show ?case using 6(3) by (fastforce simp: w t ws n j split: if_splits)
qed simp_all

lemma parse_json_any_fuel:
  "parse_value k s = Some (v, r) \<Longrightarrow> skip_ws r = [] \<Longrightarrow> parse_json s = Some v"
  using parse_fuel(1) [of k s v r "2 * length s + 1"] by (simp add: parse_json_def)


section \<open>Structs\<close>

text \<open>
  \<^verbatim>\<open>Unmarshal\<close> into a struct. A member goes to the field of that name or, failing that, to the field whose name is the
  same but for case; other members are skipped, a later member overwrites an earlier one and \<^verbatim>\<open>null\<close> leaves
  the field as it was. A value of the wrong type or out of range is an error: None. Upper-casing a name maps the two
  characters outside ASCII that fold to an ASCII letter, the Kelvin sign and the long s.
\<close>

definition fold_char :: "char \<Rightarrow> char" where
  "fold_char c = (if 97 \<le> ord8 c \<and> ord8 c \<le> 122 then char_of (ord8 c - 32) else c)"

fun fold_name :: "bytes \<Rightarrow> bytes" where
  "fold_name [] = []"
| "fold_name (c # s) =
     (if HasPrefix (c # s) [CHR 0xE2, CHR 0x84, CHR 0xAA] then CHR ''K'' # fold_name (drop 2 s)
      else if HasPrefix (c # s) [CHR 0xC5, CHR 0xBF] then CHR ''S'' # fold_name (drop 1 s)
      else fold_char c # fold_name s)"

declare fold_name.simps [simp del]

type_synonym 'a field = "bytes \<times> (json \<Rightarrow> 'a \<Rightarrow> 'a option)"

definition field_of :: "'a field list \<Rightarrow> bytes \<Rightarrow> (json \<Rightarrow> 'a \<Rightarrow> 'a option) option" where
  "field_of fs k =
     (case map_of fs k of
        Some f \<Rightarrow> Some f
      | None \<Rightarrow> map_of (map (\<lambda>(n, f). (fold_name n, f)) fs) (fold_name k))"

fun dec_members :: "'a field list \<Rightarrow> (bytes \<times> json) list \<Rightarrow> 'a \<Rightarrow> 'a option" where
  "dec_members fs [] a = Some a"
| "dec_members fs ((k, j) # ms) a =
     (case field_of fs k of
        None \<Rightarrow> dec_members fs ms a
      | Some f \<Rightarrow> Option.bind (f j a) (dec_members fs ms))"

definition dec_struct :: "'a field list \<Rightarrow> json \<Rightarrow> 'a \<Rightarrow> 'a option" where
  "dec_struct fs j a =
     (case j of JNull \<Rightarrow> Some a | JObj ms \<Rightarrow> dec_members fs ms a | _ \<Rightarrow> None)"

definition dec_string :: "json \<Rightarrow> bytes \<Rightarrow> bytes option" where
  "dec_string j old = (case j of JNull \<Rightarrow> Some old | JStr s \<Rightarrow> Some s | _ \<Rightarrow> None)"

definition dec_bool :: "json \<Rightarrow> bool \<Rightarrow> bool option" where
  "dec_bool j old = (case j of JNull \<Rightarrow> Some old | JBool b \<Rightarrow> Some b | _ \<Rightarrow> None)"

definition dec_int64 :: "json \<Rightarrow> int \<Rightarrow> int option" where
  "dec_int64 j old = (case j of JNull \<Rightarrow> Some old | JNum t \<Rightarrow> ParseInt t | _ \<Rightarrow> None)"

definition dec_word :: "json \<Rightarrow> 'a::len word \<Rightarrow> 'a word option" where
  "dec_word j old =
     (case j of
        JNull \<Rightarrow> Some old
      | JNum t \<Rightarrow>
          (case unsigned_val t of
             None \<Rightarrow> None
           | Some n \<Rightarrow> if n < 2 ^ LENGTH('a) then Some (of_nat n) else None)
      | _ \<Rightarrow> None)"

text \<open>A field of a record: how it is read and how it is set.\<close>

definition struct_field :: "(json \<Rightarrow> 'b \<Rightarrow> 'b option) \<Rightarrow> ('a \<Rightarrow> 'b) \<Rightarrow> ('b \<Rightarrow> 'a \<Rightarrow> 'a) \<Rightarrow> json \<Rightarrow> 'a \<Rightarrow> 'a option" where
  "struct_field dec sel upd j a = map_option (\<lambda>x. upd x a) (dec j (sel a))"

definition Unmarshal :: "(json \<Rightarrow> 'a \<Rightarrow> 'a option) \<Rightarrow> bytes \<Rightarrow> 'a \<Rightarrow> 'a option" where
  "Unmarshal dec body out = Option.bind (parse_json body) (\<lambda>j. dec j out)"

definition JInt :: "int \<Rightarrow> json" where
  "JInt i = JNum (dec_int i)"

definition JWord :: "'a::len word \<Rightarrow> json" where
  "JWord x = JNum (dec_nat (unat x))"

lemma dec_members_append:
  "dec_members fs (ms @ ns) a = Option.bind (dec_members fs ms a) (dec_members fs ns)"
  by (induction fs ms a rule: dec_members.induct) (auto split: option.splits bind_splits)

lemma is_digit_digit: "is_digit (digit d)"
proof -
  have "d mod 10 \<in> {0, 1, 2, 3, 4, 5, 6, 7, 8, 9}" by (rule digit_cases) simp
  then show ?thesis by (auto simp: digit_def is_digit_def)
qed

lemma dec_nat_digits: "c \<in> set (dec_nat n) \<Longrightarrow> is_digit c"
  using dec_nat_chars is_digit_digit by blast

lemma dec_nat_no_leading_zero: "hd (dec_nat n) = CHR ''0'' \<Longrightarrow> dec_nat n = ''0''"
proof (induction n rule: dec_nat.induct)
  case (1 n)
  show ?case
  proof (cases "n < 10")
    case True
    then show ?thesis using "1.prems" by (simp add: dec_nat.simps)
  next
    case False
    then have "hd (dec_nat (n div 10)) = CHR ''0''" using "1.prems" by (subst (asm) dec_nat.simps) simp
    then have "dec_nat (n div 10) = dec_nat 0" using "1.IH" [OF False] by (simp add: dec_nat.simps [of 0] digit_def)
    then show ?thesis using dec_nat_inj [of "n div 10" 0] False by auto
  qed
qed

lemma int_part_dec_nat: "int_part (dec_nat n) = Some []"
proof -
  obtain c r where d: "dec_nat n = c # r" using dec_nat_nonempty by (cases "dec_nat n") auto
  have "dropWhile is_digit (dec_nat n) = []" "is_digit c" using dec_nat_digits [of _ n] d by auto
  then show ?thesis using dec_nat_no_leading_zero [of n] d by (auto simp: int_part_def digits_part_def)
qed

lemma number_dec_nat: "number_ok (dec_nat n)" "list_all number_char (dec_nat n)"
proof -
  have "\<not> HasPrefix (dec_nat n) ''-''" using dec_nat_hd [of n] by (cases "dec_nat n") (auto simp: HasPrefix_def)
  then show "number_ok (dec_nat n)" by (simp add: number_ok_def int_part_dec_nat frac_part_def exp_part_def)
  show "list_all number_char (dec_nat n)" using dec_nat_digits [of _ n] by (auto simp: list_all_iff number_char_def)
qed

lemma number_dec_int: "number_ok (dec_int i)" "list_all number_char (dec_int i)"
  using number_dec_nat [of "nat i"] number_dec_nat [of "nat (- i)"]
  by (auto simp: dec_int_def number_ok_def HasPrefix_def int_part_dec_nat frac_part_def exp_part_def number_char_def)

lemma JInt_simps [simp]: "numbers_ok (JInt i)" "valid_json (JInt i) = JInt i" "is_int64 i \<Longrightarrow> dec_int64 (JInt i) old = Some i"
  by (simp_all add: JInt_def number_dec_int dec_int64_def)

lemma JWord_simps [simp]: "numbers_ok (JWord x)" "valid_json (JWord x) = JWord x" "dec_word (JWord x) old = Some x"
  using unsigned_less [of x] by (simp_all add: JWord_def number_dec_nat dec_word_def)

lemma scalars_simps [simp]: "dec_string (JStr s) old = Some s" "dec_bool (JBool b) old' = Some b"
  by (simp_all add: dec_string_def dec_bool_def)

lemma Unmarshal_print: "numbers_ok j \<Longrightarrow> Unmarshal dec (print_json j) out = dec (valid_json j) out"
  by (simp add: Unmarshal_def parse_print_json)

lemma field_of_exact [simp]: "map_of fs k = Some f \<Longrightarrow> field_of fs k = Some f"
  by (simp add: field_of_def)

lemma field_of_fold:
  "map_of fs k = None \<Longrightarrow> field_of fs k = map_of (map (\<lambda>(n, f). (fold_name n, f)) fs) (fold_name k)"
  by (simp add: field_of_def)

lemma to_valid_Nil [simp]: "to_valid [] = []"
  by (simp add: to_valid.simps)

lemma to_valid_eq_Nil [simp]: "to_valid s = [] \<longleftrightarrow> s = []"
  using utf8_size_le [of s] by (cases s) (auto simp: to_valid.simps(2) Let_def RuneError_def)

lemma to_valid_ascii: "list_all (\<lambda>c. ord8 c < 0x80) s \<Longrightarrow> to_valid s = s"
  by (induction s) (simp_all add: to_valid.simps(2) utf8_size_ascii)

lemma json_escape_plain: "list_all (\<lambda>c. ord8 c < 0x80 \<and> escape_char c = [c]) s \<Longrightarrow> json_escape s = s"
  by (induction s) (simp_all add: json_escape.simps utf8_size_ascii)

lemma quote_plain: "list_all (\<lambda>c. ord8 c < 0x80 \<and> escape_char c = [c]) s \<Longrightarrow> quote s = CHR 0x22 # s @ [CHR 0x22]"
  by (simp add: quote_def json_escape_plain)

end
