(* ===== verification/Cluster.thy ===== *)
theory Cluster
  imports Core_HLC Core_Keys Json
begin

text \<open>
  \<^verbatim>\<open>internal/cluster/cluster.go\<close>: the membership view and the event stream the syncer reacts to. Gossip
  itself is the memberlist library: its list of nodes is an argument, and the callbacks it makes are
  the operations \<open>NotifyMsg\<close>, \<open>NotifyJoin\<close>, \<open>NotifyLeave\<close> and \<open>NotifyUpdate\<close>. The event channel is the
  list of buffered events.
\<close>

datatype EventKind = EventJoin | EventLeave | EventHint

definition EventKind_String :: "EventKind \<Rightarrow> string" where
  "EventKind_String k =
     (case k of EventJoin \<Rightarrow> ''join'' | EventLeave \<Rightarrow> ''leave'' | EventHint \<Rightarrow> ''hint'')"

record Event =
  ev_Kind :: EventKind
  ev_Node :: string
  ev_Addr :: string
  ev_Seq :: int

record hint =
  h_Node :: string
  h_Addr :: string
  h_Seq :: int

definition hint_json :: "hint \<Rightarrow> json" where
  "hint_json h = JObj [(''n'', JStr (h_Node h)), (''a'', JStr (h_Addr h)), (''s'', JInt (h_Seq h))]"

definition dec_hint :: "json \<Rightarrow> hint \<Rightarrow> hint option" where
  "dec_hint = dec_struct
     [(''n'', struct_field dec_string h_Node (\<lambda>x. h_Node_update (\<lambda>_. x))),
      (''a'', struct_field dec_string h_Addr (\<lambda>x. h_Addr_update (\<lambda>_. x))),
      (''s'', struct_field dec_int64 h_Seq (\<lambda>x. h_Seq_update (\<lambda>_. x)))]"

text \<open>\<^verbatim>\<open>nodeMeta\<close> has one field, the API address.\<close>

definition nodeMeta_json :: "string \<Rightarrow> json" where
  "nodeMeta_json api = JObj [(''api'', JStr api)]"

definition dec_nodeMeta :: "json \<Rightarrow> string \<Rightarrow> string option" where
  "dec_nodeMeta = dec_struct [(''api'', struct_field dec_string (\<lambda>api. api) (\<lambda>x _. x))]"

text \<open>What memberlist tells of a node: its name and the metadata it advertises.\<close>

record ml_Node =
  n_Name :: string
  n_Meta :: bytes

record Member =
  mem_Node :: string
  mem_Addr :: string
  mem_Self :: bool

record Cluster =
  c_Node :: string
  c_APIAddr :: string
  c_events :: "Event list"
  c_closed :: bool
  c_seq :: int
  c_queue :: "bytes list"

definition eventBuffer :: nat where
  "eventBuffer = 256"

record Cluster_Config =
  cc_Node :: string
  cc_BindAddr :: string
  cc_BindPort :: int
  cc_AdvertiseAddr :: string
  cc_AdvertisePort :: int
  cc_APIAddr :: string
  cc_Join :: "string list"
  cc_Keys :: Keys

text \<open>
  \<^verbatim>\<open>Join\<close>: an empty node name is refused, then gossip is started, which \<open>started\<close> says has succeeded. Whether a seed can be
  reached only decides what is logged.
\<close>

definition Join_cluster :: "bool \<Rightarrow> Cluster_Config \<Rightarrow> err + Cluster" where
  "Join_cluster started cf =
     (if cc_Node cf = '''' then Inl ErrInvalid
      else if \<not> started then Inl ErrInvalid
      else Inr \<lparr>c_Node = cc_Node cf, c_APIAddr = cc_APIAddr cf, c_events = [], c_closed = False, c_seq = 0, c_queue = []\<rparr>)"

text \<open>What gossip is started with: the name, the addresses, and the key it encrypts with.\<close>

record ml_Config =
  ml_Name :: string
  ml_BindAddr :: string
  ml_BindPort :: int
  ml_AdvertiseAddr :: string
  ml_AdvertisePort :: int
  ml_SecretKey :: bytes

definition mlCfg :: "Cluster_Config \<Rightarrow> ml_Config" where
  "mlCfg cf =
     \<lparr>ml_Name = cc_Node cf, ml_BindAddr = cc_BindAddr cf, ml_BindPort = cc_BindPort cf,
      ml_AdvertiseAddr = cc_AdvertiseAddr cf, ml_AdvertisePort = cc_AdvertisePort cf, ml_SecretKey = Gossip (cc_Keys cf)\<rparr>"

text \<open>
  A send that would block takes the default case and the event is lost. A send on the channel that
  \<^verbatim>\<open>Leave\<close> has closed panics: None.
\<close>

definition emit :: "Event \<Rightarrow> Cluster \<Rightarrow> Cluster option" where
  "emit e c =
     (if c_closed c then None
      else if length (c_events c) < eventBuffer then Some (c\<lparr>c_events := c_events c @ [e]\<rparr>)
      else Some c)"

text \<open>A receive: the oldest buffered event, None on a closed and drained channel (\<^verbatim>\<open>ok == false\<close>).\<close>

definition receive :: "Cluster \<Rightarrow> Event option \<times> Cluster" where
  "receive c = (case c_events c of [] \<Rightarrow> (None, c) | e # es \<Rightarrow> (Some e, c\<lparr>c_events := es\<rparr>))"

text \<open>\<^verbatim>\<open>json.Marshal\<close> does not fail on a hint or on the metadata of a node.\<close>

definition Announce :: "int \<Rightarrow> Cluster \<Rightarrow> Cluster" where
  "Announce q c =
     (let c = c\<lparr>c_seq := q\<rparr>;
          payload = print_json (hint_json \<lparr>h_Node = c_Node c, h_Addr = c_APIAddr c, h_Seq = q\<rparr>)
      in c\<lparr>c_queue := c_queue c @ [payload]\<rparr>)"

definition apiAddrOf :: "ml_Node \<Rightarrow> string" where
  "apiAddrOf n =
     (if length (n_Meta n) = 0 then ''''
      else case Unmarshal dec_nodeMeta (n_Meta n) '''' of None \<Rightarrow> '''' | Some api \<Rightarrow> api)"

definition Members :: "ml_Node list \<Rightarrow> Cluster \<Rightarrow> Member list" where
  "Members nodes c =
     map (\<lambda>n. \<lparr>mem_Node = n_Name n, mem_Addr = apiAddrOf n, mem_Self = (n_Name n = c_Node c)\<rparr>) nodes"

text \<open>Whether memberlist fails to announce the departure and to shut down are arguments; the channel is closed in any case, once.\<close>

definition Leave :: "bool \<Rightarrow> bool \<Rightarrow> Cluster \<Rightarrow> err option \<times> Cluster" where
  "Leave leaveFails shutdownFails c =
     (if c_closed c then (None, c)
      else (if leaveFails \<or> shutdownFails then Some ErrInvalid else None, c\<lparr>c_closed := True\<rparr>))"

definition NodeMeta :: "nat \<Rightarrow> Cluster \<Rightarrow> bytes" where
  "NodeMeta limit c =
     (let m = print_json (nodeMeta_json (c_APIAddr c)) in if length m > limit then [] else m)"

definition NotifyMsg :: "bytes \<Rightarrow> Cluster \<Rightarrow> Cluster option" where
  "NotifyMsg msg c =
     (case Unmarshal dec_hint msg \<lparr>h_Node = '''', h_Addr = '''', h_Seq = 0\<rparr> of
        None \<Rightarrow> Some c
      | Some h \<Rightarrow>
          if h_Node h = '''' \<or> h_Node h = c_Node c then Some c
          else emit \<lparr>ev_Kind = EventHint, ev_Node = h_Node h, ev_Addr = h_Addr h, ev_Seq = h_Seq h\<rparr> c)"

definition NotifyJoin :: "ml_Node \<Rightarrow> Cluster \<Rightarrow> Cluster option" where
  "NotifyJoin n c =
     (if n_Name n = c_Node c then Some c
      else emit \<lparr>ev_Kind = EventJoin, ev_Node = n_Name n, ev_Addr = apiAddrOf n, ev_Seq = 0\<rparr> c)"

definition NotifyLeave :: "ml_Node \<Rightarrow> Cluster \<Rightarrow> Cluster option" where
  "NotifyLeave n c =
     (if n_Name n = c_Node c then Some c
      else emit \<lparr>ev_Kind = EventLeave, ev_Node = n_Name n, ev_Addr = apiAddrOf n, ev_Seq = 0\<rparr> c)"

definition NotifyUpdate :: "ml_Node \<Rightarrow> Cluster \<Rightarrow> Cluster option" where
  "NotifyUpdate n c =
     (if n_Name n = c_Node c then Some c
      else emit \<lparr>ev_Kind = EventJoin, ev_Node = n_Name n, ev_Addr = apiAddrOf n, ev_Seq = 0\<rparr> c)"

section \<open>Properties\<close>

text \<open>The life of a cluster before it leaves: callbacks of gossip, announcements, and events taken by the syncer.\<close>

inductive cluster_step :: "Cluster \<Rightarrow> Cluster \<Rightarrow> bool" where
  cs_msg: "NotifyMsg msg c = Some c' \<Longrightarrow> cluster_step c c'"
| cs_join: "NotifyJoin n c = Some c' \<Longrightarrow> cluster_step c c'"
| cs_leave: "NotifyLeave n c = Some c' \<Longrightarrow> cluster_step c c'"
| cs_update: "NotifyUpdate n c = Some c' \<Longrightarrow> cluster_step c c'"
| cs_announce: "cluster_step c (Announce q c)"
| cs_receive: "cluster_step c (snd (receive c))"

definition events_ok :: "Cluster \<Rightarrow> bool" where
  "events_ok c \<longleftrightarrow> \<not> c_closed c \<and> length (c_events c) \<le> eventBuffer \<and> (\<forall>e \<in> set (c_events c). ev_Node e \<noteq> c_Node c)"

lemma emit_keeps: "emit e c = Some c' \<Longrightarrow> events_ok c \<Longrightarrow> ev_Node e \<noteq> c_Node c \<Longrightarrow> events_ok c' \<and> c_Node c' = c_Node c"
  by (auto simp: emit_def events_ok_def split: if_splits)

lemmas callbacks = NotifyMsg_def NotifyJoin_def NotifyLeave_def NotifyUpdate_def

lemma cluster_step_ok:
  assumes "cluster_step c c'" and "events_ok c"
  shows "events_ok c' \<and> c_Node c' = c_Node c"
  using assms
proof cases
  case cs_announce
  then show ?thesis using assms(2) by (auto simp: Announce_def Let_def events_ok_def split: option.splits)
next
  case cs_receive
  then show ?thesis using assms(2) by (auto simp: receive_def events_ok_def split: list.splits)
qed (use assms(2) in \<open>auto simp: callbacks dest!: emit_keeps split: option.splits if_splits\<close>)

lemma hint_round_trip:
  assumes "is_int64 (h_Seq h)"
  shows "Unmarshal dec_hint (print_json (hint_json h)) zero
       = Some \<lparr>h_Node = to_valid (h_Node h), h_Addr = to_valid (h_Addr h), h_Seq = h_Seq h\<rparr>"
proof -
  have "numbers_ok (hint_json h)" by (simp add: hint_json_def)
  then have "Unmarshal dec_hint (print_json (hint_json h)) zero = dec_hint (valid_json (hint_json h)) zero" by (rule Unmarshal_print)
  also have "\<dots> = Some \<lparr>h_Node = to_valid (h_Node h), h_Addr = to_valid (h_Addr h), h_Seq = h_Seq h\<rparr>"
    using assms by (simp add: hint_json_def dec_hint_def dec_struct_def struct_field_def to_valid_ascii)
  finally show ?thesis .
qed

lemma nodeMeta_round_trip: "Unmarshal dec_nodeMeta (print_json (nodeMeta_json api)) old = Some (to_valid api)"
proof -
  have "numbers_ok (nodeMeta_json api)" by (simp add: nodeMeta_json_def)
  then have "Unmarshal dec_nodeMeta (print_json (nodeMeta_json api)) old = dec_nodeMeta (valid_json (nodeMeta_json api)) old"
    by (rule Unmarshal_print)
  also have "\<dots> = Some (to_valid api)" by (simp add: nodeMeta_json_def dec_nodeMeta_def dec_struct_def struct_field_def to_valid_ascii)
  finally show ?thesis .
qed

text \<open>The event stream of a running node never blocks gossip and never carries the node's own events: after any
  sequence of callbacks, announcements and receives it holds at most 256 events, all of other nodes, and a
  callback always returns. When it is full the new event is the one that is lost; the comment on the buffer says the
  oldest are. After \<^verbatim>\<open>Leave\<close> an event of another node panics, since the channel is closed.\<close>

theorem event_stream_is_bounded:
  assumes "Join_cluster started cf = Inr c0" and "cluster_step\<^sup>*\<^sup>* c0 c"
  shows "c_Node c = cc_Node cf \<and> length (c_events c) \<le> 256 \<and> (\<forall>e \<in> set (c_events c). ev_Node e \<noteq> cc_Node cf)
       \<and> (\<forall>e. length (c_events c) = 256 \<longrightarrow> emit e c = Some c) \<and> (\<forall>e. emit e c \<noteq> None) \<and> (\<forall>e l s. emit e (snd (Leave l s c)) = None)"
proof -
  have start: "events_ok c0 \<and> c_Node c0 = cc_Node cf"
    using assms(1) by (auto simp: Join_cluster_def events_ok_def split: if_splits)
  have "events_ok c \<and> c_Node c = cc_Node cf"
    using assms(2) by (induction rule: rtranclp_induct) (use start cluster_step_ok in auto)
  then show ?thesis by (auto simp: events_ok_def eventBuffer_def emit_def Leave_def)
qed

definition example_join :: Cluster_Config where
  "example_join =
     \<lparr>cc_Node = ''n1'', cc_BindAddr = ''0.0.0.0'', cc_BindPort = 7946, cc_AdvertiseAddr = '''', cc_AdvertisePort = 7946,
      cc_APIAddr = ''h:7947'', cc_Join = [], cc_Keys = \<lparr>Gossip = '''', API = '''', Blob_key = ''''\<rparr>\<rparr>"

theorem event_stream_is_bounded_witness:
  "\<exists>c0 c. Join_cluster True example_join = Inr c0
     \<and> NotifyJoin \<lparr>n_Name = ''n2'', n_Meta = ''''\<rparr> c0 = Some c \<and> map ev_Node (c_events c) = [''n2'']
     \<and> length (c_events c) \<le> 256"
proof -
  let ?c0 = "\<lparr>c_Node = ''n1'', c_APIAddr = ''h:7947'', c_events = [], c_closed = False, c_seq = 0, c_queue = []\<rparr>"
  let ?e = "\<lparr>ev_Kind = EventJoin, ev_Node = ''n2'', ev_Addr = '''', ev_Seq = 0\<rparr>"
  have j: "Join_cluster True example_join = Inr ?c0" by (simp add: Join_cluster_def example_join_def)
  have n: "NotifyJoin \<lparr>n_Name = ''n2'', n_Meta = ''''\<rparr> ?c0 = Some (?c0\<lparr>c_events := [?e]\<rparr>)"
    by (simp add: NotifyJoin_def emit_def eventBuffer_def apiAddrOf_def)
  then have "cluster_step\<^sup>*\<^sup>* ?c0 (?c0\<lparr>c_events := [?e]\<rparr>)" by (intro r_into_rtranclp cs_join)
  then show ?thesis using event_stream_is_bounded [OF j] j n by (intro exI conjI) auto
qed

text \<open>C38. What a node gossips about itself is what its peers learn: the payload \<^verbatim>\<open>Announce\<close> queues makes every other
  node with room in its event stream see a hint with the announcer's name, API address and feed position, the announcer itself ignores it,
  and the metadata it advertises gives its API address back to every member, provided the limit of the
  library lets it through. Name and address must be valid UTF-8, as encoding/json replaces other bytes.\<close>

theorem announcement_reaches_the_others:
  assumes "utf8_valid (c_Node c)" and "utf8_valid (c_APIAddr c)" and "is_int64 q" and "c_Node c \<noteq> ''''"
    and "\<not> c_closed d" and "length (c_events d) < 256" and "c_Node d \<noteq> c_Node c"
    and "length (print_json (nodeMeta_json (c_APIAddr c))) \<le> limit"
  shows "(let payload = last (c_queue (Announce q c)) in
           NotifyMsg payload d
             = Some (d\<lparr>c_events := c_events d @ [\<lparr>ev_Kind = EventHint, ev_Node = c_Node c, ev_Addr = c_APIAddr c, ev_Seq = q\<rparr>]\<rparr>)
         \<and> NotifyMsg payload c = Some c)
       \<and> (\<forall>name. apiAddrOf \<lparr>n_Name = name, n_Meta = NodeMeta limit c\<rparr> = c_APIAddr c)"
proof -
  have v: "to_valid (c_Node c) = c_Node c" "to_valid (c_APIAddr c) = c_APIAddr c" using assms(1,2) by (simp_all add: utf8_valid_def)
  have p: "last (c_queue (Announce q c)) = print_json (hint_json \<lparr>h_Node = c_Node c, h_Addr = c_APIAddr c, h_Seq = q\<rparr>)"
    by (simp add: Announce_def Let_def)
  have "apiAddrOf \<lparr>n_Name = name, n_Meta = NodeMeta limit c\<rparr> = c_APIAddr c" for name
    using assms(8) v nodeMeta_round_trip [of "c_APIAddr c" "''''"]
    by (simp add: apiAddrOf_def NodeMeta_def Let_def not_less) (simp add: nodeMeta_json_def)
  then show ?thesis
    using assms(3-7) v unfolding p by (auto simp: NotifyMsg_def hint_round_trip emit_def eventBuffer_def)
qed

theorem announcement_reaches_the_others_witness:
  "let c = \<lparr>c_Node = ''n1'', c_APIAddr = ''h:7947'', c_events = [], c_closed = False, c_seq = 0, c_queue = []\<rparr>;
       d = \<lparr>c_Node = ''n2'', c_APIAddr = ''x'', c_events = [], c_closed = False, c_seq = 0, c_queue = []\<rparr>
   in map_option c_events (NotifyMsg (last (c_queue (Announce 17 c))) d)
        = Some [\<lparr>ev_Kind = EventHint, ev_Node = ''n1'', ev_Addr = ''h:7947'', ev_Seq = 17\<rparr>]
      \<and> apiAddrOf \<lparr>n_Name = ''n1'', n_Meta = NodeMeta 512 c\<rparr> = ''h:7947''"
proof -
  let ?c = "\<lparr>c_Node = ''n1'', c_APIAddr = ''h:7947'', c_events = [], c_closed = False, c_seq = 0, c_queue = []\<rparr>"
  let ?d = "\<lparr>c_Node = ''n2'', c_APIAddr = ''x'', c_events = [], c_closed = False, c_seq = 0, c_queue = []\<rparr>"
  have "utf8_valid ''n1''" "utf8_valid ''h:7947''" by (simp_all add: utf8_valid_def to_valid_ascii)
  moreover have "length (print_json (nodeMeta_json ''h:7947'')) \<le> 512"
    by (simp add: nodeMeta_json_def quote_def json_escape.simps utf8_size_ascii escape_char_def)
  ultimately show ?thesis
    using announcement_reaches_the_others [of ?c 17 ?d 512] by (auto simp: int64_defs Let_def)
qed

end
