(* ===== verification/AntiEntropy.thy ===== *)
theory AntiEntropy
  imports Syncer Cluster
begin

text \<open>
  \<^verbatim>\<open>internal/syncer/antientropy.go\<close>: pulling a peer's changes feed and applying it. A peer answers
  through the interface \<^verbatim>\<open>PeerClient\<close>; nothing is assumed of its answers here except where a lemma says
  so, and they may change from one request to the next, so a pull takes one client per round trip.
\<close>

section \<open>Peers\<close>

record DigestResponse =
  dr_Digest :: string
  dr_Entries :: int
  dr_Head :: int

record ManifestResponse =
  mr_Entries :: "Meta list"
  mr_Head :: int
  mr_More :: bool

record PeerClient =
  pc_Digest :: "string \<Rightarrow> err + DigestResponse"
  pc_Manifest :: "string \<Rightarrow> int \<Rightarrow> err + ManifestResponse"
  pc_Blob :: "string \<Rightarrow> string \<Rightarrow> err + bytes"

section \<open>Applying one page\<close>

definition validate :: "Service \<Rightarrow> Meta \<Rightarrow> err option" where
  "validate s m =
     (case SanitizePath (Path m) of
        Inl e \<Rightarrow> Some e
      | Inr _ \<Rightarrow>
          if \<not> Valid (Kind m) then Some ErrInvalid
          else if Origin (Ver m) = '''' then Some ErrInvalid
          else if Size m > MaxFileSize (cfg s) then Some ErrTooLarge
          else if Hash m \<noteq> '''' \<and> length (Hash m) \<noteq> 64 then Some ErrInvalid
          else if Hash m \<noteq> '''' \<and> \<not> hex_decodes (Hash m) then Some ErrInvalid
          else if Kind m = KindDir \<and> Hash m \<noteq> '''' then Some ErrInvalid
          else None)"

definition ensureBlob ::
  "dbfault \<Rightarrow> PeerClient \<Rightarrow> Service \<Rightarrow> string \<Rightarrow> string \<Rightarrow> err option \<times> Service" where
  "ensureBlob flt pc s addr hash =
     (case HasBlob flt (store s) hash of
        Inl e \<Rightarrow> (Some e, s)
      | Inr have \<Rightarrow>
          if have then (None, s)
          else case pc_Blob pc addr hash of
            Inl e \<Rightarrow> (Some e, s)
          | Inr content \<Rightarrow>
              if int (length content) > MaxFileSize (cfg s) then (Some ErrTooLarge, s)
              else case PutBlob flt (store s) content of
                (Inl e, st) \<Rightarrow> (Some e, s\<lparr>store := st\<rparr>)
              | (Inr _, st) \<Rightarrow> (None, s\<lparr>store := st\<rparr>))"

definition conflictCopy :: "Service \<Rightarrow> Meta \<Rightarrow> Meta \<times> Service" where
  "conflictCopy s local =
     (let (now, c) = Now (clock s)
      in (local\<lparr>Path := ConflictName (Path local) (Origin (Ver local)) (Wall (HLC (Ver local))),
                PrevHash := '''', Seq := 0, Ver := Version now (Node (cfg s))\<rparr>,
          s\<lparr>clock := c\<rparr>))"

text \<open>The local variables of the loop in \<^verbatim>\<open>applyRemote\<close>.\<close>

record page_acc =
  batch :: "Meta list"
  conflict :: nat
  safe :: int
  deferred :: bool

definition advance :: "Meta \<Rightarrow> page_acc \<Rightarrow> page_acc" where
  "advance m a = (if \<not> deferred a then a\<lparr>safe := max (safe a) (Seq m)\<rparr> else a)"

text \<open>The end of the loop body, reached when the remote entry wins.\<close>

definition stage ::
  "dbfault \<Rightarrow> PeerClient \<Rightarrow> string \<Rightarrow> Meta \<Rightarrow> Service \<Rightarrow> page_acc \<Rightarrow> page_acc \<times> Service" where
  "stage flt pc addr remote s a =
     (if Kind remote = KindFile \<and> \<not> Deleted remote \<and> Hash remote \<noteq> ''''
      then case ensureBlob flt pc s addr (Hash remote) of
             (Some e, s) \<Rightarrow> (a\<lparr>deferred := True\<rparr>, s)
           | (None, s) \<Rightarrow> (advance remote (a\<lparr>batch := batch a @ [remote]\<rparr>), s)
      else (advance remote (a\<lparr>batch := batch a @ [remote]\<rparr>), s))"

definition apply_entry ::
  "dbfault \<Rightarrow> PeerClient \<Rightarrow> string \<Rightarrow> Meta \<Rightarrow> Service \<Rightarrow> page_acc \<Rightarrow> (err + page_acc) \<times> Service" where
  "apply_entry flt pc addr remote s a =
     (case validate s remote of
        Some e \<Rightarrow> (Inr (advance remote a), s)
      | None \<Rightarrow>
          case Observe (clock s) (HLC (Ver remote)) of
            (Inl e, c) \<Rightarrow> (Inr (advance remote a), s\<lparr>clock := c\<rparr>)
          | (Inr _, c) \<Rightarrow>
              let s = s\<lparr>clock := c\<rparr> in
              case lookup flt (store s) (Path remote) of
                Inl e \<Rightarrow> (Inl e, s)
              | Inr (local, have) \<Rightarrow>
                  case resolve local have remote of
                    decisionSkip \<Rightarrow> (Inr (advance remote a), s)
                  | decisionConflict \<Rightarrow>
                      let (copyOf, s) = conflictCopy s local;
                          (a, s) = stage flt pc addr remote s
                                     (a\<lparr>batch := batch a @ [copyOf], conflict := conflict a + 1\<rparr>)
                      in (Inr a, s)
                  | decisionAccept \<Rightarrow>
                      let (a, s) = stage flt pc addr remote s a in (Inr a, s))"

fun apply_entries ::
  "dbfault \<Rightarrow> PeerClient \<Rightarrow> string \<Rightarrow> Meta list \<Rightarrow> Service \<Rightarrow> page_acc \<Rightarrow> (err + page_acc) \<times> Service" where
  "apply_entries flt pc addr [] s a = (Inr a, s)"
| "apply_entries flt pc addr (remote # rest) s a =
     (case apply_entry flt pc addr remote s a of
        (Inl e, s) \<Rightarrow> (Inl e, s)
      | (Inr a, s) \<Rightarrow> apply_entries flt pc addr rest s a)"

definition new_page :: page_acc where
  "new_page = \<lparr>batch = [], conflict = 0, safe = 0, deferred = False\<rparr>"

definition applyRemote ::
  "dbfault \<Rightarrow> PeerClient \<Rightarrow> Service \<Rightarrow> string \<Rightarrow> Meta list \<Rightarrow> (err + int) \<times> Service" where
  "applyRemote flt pc s addr es =
     (case apply_entries flt pc addr es s new_page of
        (Inl e, s) \<Rightarrow> (Inl e, s)
      | (Inr a, s) \<Rightarrow>
          if batch a = [] then (Inr (safe a), s)
          else case commit flt s (batch a) of
            (Some e, s) \<Rightarrow> (Inl e, s)
          | (None, s) \<Rightarrow> (Inr (safe a), s))"

section \<open>Pulling from a peer\<close>

text \<open>
  The loop over pages. Round \<open>k\<close> uses the client \<open>pcs k\<close>, the database faults \<open>flts k\<close> and the time
  \<open>nows k\<close>. It ends when a page is empty or says there is no more; a peer that always says there is
  more keeps it running, so the number of rounds is bounded by fuel and None means it ran out.
\<close>

fun sync_pages ::
  "(nat \<Rightarrow> PeerClient) \<Rightarrow> (nat \<Rightarrow> dbfault) \<Rightarrow> (nat \<Rightarrow> int) \<Rightarrow> string \<Rightarrow> string \<Rightarrow> nat \<Rightarrow> nat
   \<Rightarrow> int \<Rightarrow> int \<Rightarrow> Service \<Rightarrow> (err option \<times> Service) option" where
  "sync_pages pcs flts nows node addr 0 k cursor bookmark s = None"
| "sync_pages pcs flts nows node addr (Suc fuel) k cursor bookmark s =
     (case pc_Manifest (pcs k) addr cursor of
        Inl e \<Rightarrow> Some (Some e, s)
      | Inr page \<Rightarrow>
          if mr_Entries page = [] then Some (None, s)
          else case applyRemote (flts k) (pcs k) s addr (mr_Entries page) of
            (Inl e, s) \<Rightarrow> Some (Some e, s)
          | (Inr sf, s) \<Rightarrow>
              let cursor = mr_Head page; bookmark = max bookmark sf in
              case SetPeerSeq (flts k) (store s) node addr bookmark (nows k) of
                (Some e, st) \<Rightarrow> Some (Some e, s\<lparr>store := st\<rparr>)
              | (None, st) \<Rightarrow>
                  if \<not> mr_More page then Some (None, s\<lparr>store := st\<rparr>)
                  else sync_pages pcs flts nows node addr fuel (Suc k) cursor bookmark (s\<lparr>store := st\<rparr>))"

definition syncPeer ::
  "(nat \<Rightarrow> PeerClient) \<Rightarrow> (nat \<Rightarrow> dbfault) \<Rightarrow> (nat \<Rightarrow> int) \<Rightarrow> nat \<Rightarrow> Service \<Rightarrow> string \<Rightarrow> string
   \<Rightarrow> (err option \<times> Service) option" where
  "syncPeer pcs flts nows fuel s node addr =
     (case pc_Digest (pcs 0) addr of
        Inl e \<Rightarrow> Some (Some e, s)
      | Inr remote \<Rightarrow>
          case Digest (flts 0) (store s) of
            Inl e \<Rightarrow> Some (Some e, s)
          | Inr (local, _, _) \<Rightarrow>
              if local = dr_Digest remote
              then (case SetPeerSeq (flts 0) (store s) node addr (dr_Head remote) (nows 0) of
                      (e, st) \<Rightarrow> Some (e, s\<lparr>store := st\<rparr>))
              else case PeerSeq (flts 0) (store s) node of
                Inl e \<Rightarrow> Some (Some e, s)
              | Inr since \<Rightarrow>
                  let since = (if dr_Head remote < since then 0 else since)
                  in sync_pages pcs flts nows node addr fuel 1 since since s)"

section \<open>Garbage, bookkeeping and the event loop\<close>

definition collect :: "dbfault \<Rightarrow> int \<Rightarrow> Service \<Rightarrow> Service" where
  "collect flt now s =
     (let horizon = wrap64 (now - TombstoneTTL (cfg s)) in
      case GCTombstones flt (store s) horizon of
        (Inl e, st) \<Rightarrow> s\<lparr>store := st\<rparr>
      | (Inr tombstones, st) \<Rightarrow> s\<lparr>store := snd (GCBlobs flt st)\<rparr>)"

definition recordSync :: "int \<Rightarrow> err option \<Rightarrow> Service \<Rightarrow> Service" where
  "recordSync now e s = s\<lparr>lastSync := Some now, lastErr := e\<rparr>"

definition SyncState :: "Service \<Rightarrow> int option \<times> err option" where
  "SyncState s = (lastSync s, lastErr s)"

text \<open>The guard of \<^verbatim>\<open>triggerSync\<close>: whether a pull is started, and the peer marked busy.\<close>

definition triggerSync :: "string \<Rightarrow> string \<Rightarrow> Service \<Rightarrow> bool \<times> Service" where
  "triggerSync node addr s =
     (if node = '''' \<or> addr = '''' \<or> node = Node (cfg s) then (False, s)
      else if node \<in> set (syncing s) then (False, s)
      else (True, s\<lparr>syncing := node # syncing s\<rparr>))"

text \<open>
  The goroutine it starts, seen as one step when no other operation comes between its pages; the
  service with every interleaving is the step relation of the theory of steps. \<open>cancelled\<close> is
  \<^verbatim>\<open>ctx.Err() != nil\<close> after the pull.
\<close>

definition sync_goroutine ::
  "(nat \<Rightarrow> PeerClient) \<Rightarrow> (nat \<Rightarrow> dbfault) \<Rightarrow> (nat \<Rightarrow> int) \<Rightarrow> nat \<Rightarrow> bool \<Rightarrow> int \<Rightarrow> string \<Rightarrow> string
   \<Rightarrow> Service \<Rightarrow> Service option" where
  "sync_goroutine pcs flts nows fuel cancelled now node addr s =
     (case syncPeer pcs flts nows fuel s node addr of
        None \<Rightarrow> None
      | Some (e, s) \<Rightarrow>
          let s = recordSync now (if cancelled then None else e) s
          in Some (s\<lparr>syncing := removeAll node (syncing s)\<rparr>))"

fun syncAll :: "Member list \<Rightarrow> Service \<Rightarrow> (string \<times> string) list \<times> Service" where
  "syncAll [] s = ([], s)"
| "syncAll (m # ms) s =
     (if mem_Self m \<or> mem_Addr m = '''' then syncAll ms s
      else
        let (started, s) = triggerSync (mem_Node m) (mem_Addr m) s;
            (rest, s) = syncAll ms s
        in (if started then (mem_Node m, mem_Addr m) # rest else rest, s))"

text \<open>
  One turn of the select in \<^verbatim>\<open>Run\<close>. \<open>RunClosed\<close> is a receive from the closed event channel, which is then
  no longer selected.
\<close>

datatype run_event =
    RunDone
  | RunEvent Event
  | RunClosed
  | RunSyncTick "Member list"
  | RunJanitorTick int

definition run_turn ::
  "dbfault \<Rightarrow> run_event \<Rightarrow> bool \<times> Service \<Rightarrow> (string \<times> string) list \<times> (bool \<times> Service)" where
  "run_turn flt ev st =
     (let (open, s) = st in
      case ev of
        RunDone \<Rightarrow> ([], (open, s))
      | RunEvent e \<Rightarrow>
          if ev_Kind e = EventJoin \<or> ev_Kind e = EventHint
          then let (started, s) = triggerSync (ev_Node e) (ev_Addr e) s
               in (if started then [(ev_Node e, ev_Addr e)] else [], (open, s))
          else ([], (open, s))
      | RunClosed \<Rightarrow> ([], (False, s))
      | RunSyncTick ms \<Rightarrow>
          if \<not> HasPeers (cfg s) then ([], (open, s))
          else let (started, s) = syncAll ms s in (started, (open, s))
      | RunJanitorTick now \<Rightarrow> ([], (open, collect flt now s)))"

section \<open>What the loop over a page changes\<close>

text \<open>
  Until it commits, \<^verbatim>\<open>applyRemote\<close> touches the clock and adds blobs, nothing else.
\<close>

text \<open>Content that is new in a store is within the size limit.\<close>

definition small_blobs :: "int \<Rightarrow> Store \<Rightarrow> Store \<Rightarrow> bool" where
  "small_blobs mx st st' \<longleftrightarrow> (\<forall>b \<in> set (blobs st'). b \<in> set (blobs st) \<or> int (length (b_data b)) \<le> mx)"

lemma small_blobs_refl [simp]: "small_blobs mx st st"
  by (simp add: small_blobs_def)

lemma small_blobs_trans: "small_blobs mx a b \<Longrightarrow> small_blobs mx b c \<Longrightarrow> small_blobs mx a c"
  by (auto simp: small_blobs_def)

lemma small_blobs_same: "blobs st' = blobs st \<Longrightarrow> small_blobs mx st st'"
  by (simp add: small_blobs_def)

lemma PutBlob_small: "int (length c) \<le> mx \<Longrightarrow> small_blobs mx st (snd (PutBlob flt st c))"
  by (auto simp: PutBlob_def Let_def small_blobs_def)

definition fetched :: "Service \<Rightarrow> Service \<Rightarrow> bool" where
  "fetched s s' \<longleftrightarrow>
     cfg s' = cfg s \<and> entries (store s') = entries (store s) \<and> local_seq (store s') = local_seq (store s)
     \<and> peers (store s') = peers (store s) \<and> subs_m s' = subs_m s \<and> announced s' = announced s
     \<and> syncing s' = syncing s \<and> now_at (clock s') = now_at (clock s)
     \<and> (store_inv (store s) \<longrightarrow> store_inv (store s'))
     \<and> (\<forall>h. has_blob (store s) h \<longrightarrow> has_blob (store s') h) \<and> subs_next s' = subs_next s
     \<and> small_blobs (MaxFileSize (cfg s)) (store s) (store s')"

lemma fetched_refl [simp]: "fetched s s"
  by (simp add: fetched_def)

lemma fetched_trans: "fetched s s' \<Longrightarrow> fetched s' s'' \<Longrightarrow> fetched s s''"
  by (auto simp: fetched_def intro: small_blobs_trans)

lemma fetchedD:
  assumes "fetched s s'"
  shows "cfg s' = cfg s" "entries (store s') = entries (store s)" "local_seq (store s') = local_seq (store s)"
    "peers (store s') = peers (store s)" "subs_m s' = subs_m s" "announced s' = announced s"
    "syncing s' = syncing s" "now_at (clock s') = now_at (clock s)"
    "store_inv (store s) \<Longrightarrow> store_inv (store s')" "has_blob (store s) h \<Longrightarrow> has_blob (store s') h"
    "tree (store s') = tree (store s)" "row_at (store s') = row_at (store s)" "current s' = current s"
    "validate s' = validate s" "subs_next s' = subs_next s" "small_blobs (MaxFileSize (cfg s)) (store s) (store s')"
  using assms by (auto simp: fetched_def tree_def row_at_def current_def validate_def fun_eq_iff)

lemma fetched_blobs_ok: "fetched s s' \<Longrightarrow> blobs_ok (store s) \<Longrightarrow> blobs_ok (store s')"
  by (auto simp: fetched_def blobs_ok_def)

lemma fetched_clock: "now_at c = now_at (clock s) \<Longrightarrow> fetched s (s\<lparr>clock := c\<rparr>)"
  by (simp add: fetched_def)

lemma ensureBlob_fetched:
  "fetched s (snd (ensureBlob flt pc s addr h))" "clock (snd (ensureBlob flt pc s addr h)) = clock s"
proof -
  show "fetched s (snd (ensureBlob flt pc s addr h))"
  proof (cases "\<exists>c. pc_Blob pc addr h = Inr c \<and> int (length c) \<le> MaxFileSize (cfg s)")
    case True
    then obtain c where c: "pc_Blob pc addr h = Inr c" "int (length c) \<le> MaxFileSize (cfg s)" by blast
    have "fetched s (s\<lparr>store := snd (PutBlob flt (store s) c)\<rparr>)"
      using PutBlob_small [OF c(2)] by (simp add: fetched_def frame inv_intros PutBlob_keeps)
    then show ?thesis using c by (auto simp: ensureBlob_def split: sum.splits prod.splits)
  next
    case False
    then show ?thesis by (auto simp: ensureBlob_def split: sum.splits prod.splits)
  qed
  show "clock (snd (ensureBlob flt pc s addr h)) = clock s"
    by (auto simp: ensureBlob_def split: sum.splits prod.splits)
qed

abbreviation observed :: "Service \<Rightarrow> Meta \<Rightarrow> Service" where
  "observed s e \<equiv> s\<lparr>clock := snd (Observe (clock s) (HLC (Ver e)))\<rparr>"

text \<open>The conflict copies an entry gives rise to, none or one, and the service after making them.\<close>

definition copies_for :: "Service \<Rightarrow> Meta \<Rightarrow> Meta list" where
  "copies_for s e =
     (if resolve (current s (Path e)) (row_at (store s) (Path e) \<noteq> None) e = decisionConflict
      then [fst (conflictCopy (observed s e) (current s (Path e)))] else [])"

definition after_copies :: "Service \<Rightarrow> Meta \<Rightarrow> Service" where
  "after_copies s e =
     (if copies_for s e = [] then observed s e
      else (observed s e)\<lparr>clock := snd (Now (clock (observed s e)))\<rparr>)"

definition outdated :: "Service \<Rightarrow> Meta \<Rightarrow> bool" where
  "outdated s e \<longleftrightarrow> row_at (store s) (Path e) = None \<or> Ver (current s (Path e)) < Ver e"

lemma apply_entry_cases:
  assumes "apply_entry flt pc addr e s a = (r, s')"
  obtains
    (rejected) "validate s e \<noteq> None" "r = Inr (advance e a)" "s' = s"
  | (drift) x where "validate s e = None" "fst (Observe (clock s) (HLC (Ver e))) = Inl x"
      "r = Inr (advance e a)" "s' = observed s e"
  | (dberr) "flt (DbGet (Path e))" "r = Inl ErrDB" "s' = observed s e"
  | (skip) t where "validate s e = None" "fst (Observe (clock s) (HLC (Ver e))) = Inr t"
      "\<not> outdated s e" "r = Inr (advance e a)" "s' = observed s e"
  | (stored) t where "validate s e = None" "fst (Observe (clock s) (HLC (Ver e))) = Inr t"
      "outdated s e"
      "r = Inr (advance e (a\<lparr>conflict := conflict a + length (copies_for s e), batch := batch a @ copies_for s e @ [e]\<rparr>))"
      "s' = (if needs_blob e then snd (ensureBlob flt pc (after_copies s e) addr (Hash e)) else after_copies s e)"
      "needs_blob e \<Longrightarrow> fst (ensureBlob flt pc (after_copies s e) addr (Hash e)) = None"
  | (postponed) t x where "validate s e = None" "fst (Observe (clock s) (HLC (Ver e))) = Inr t"
      "outdated s e"
      "r = Inr (a\<lparr>batch := batch a @ copies_for s e, conflict := conflict a + length (copies_for s e), deferred := True\<rparr>)"
      "s' = snd (ensureBlob flt pc (after_copies s e) addr (Hash e))" "needs_blob e"
      "fst (ensureBlob flt pc (after_copies s e) addr (Hash e)) = Some x"
proof -
  let ?cur = "current s (Path e)" and ?have = "row_at (store s) (Path e) \<noteq> None"
  consider "validate s e \<noteq> None"
    | x where "validate s e = None" "fst (Observe (clock s) (HLC (Ver e))) = Inl x"
    | t where "validate s e = None" "fst (Observe (clock s) (HLC (Ver e))) = Inr t" "flt (DbGet (Path e))"
    | t where "validate s e = None" "fst (Observe (clock s) (HLC (Ver e))) = Inr t" "\<not> flt (DbGet (Path e))"
    by (cases "validate s e"; cases "fst (Observe (clock s) (HLC (Ver e)))") auto
  then show thesis
  proof cases
    case 1
    then show ?thesis using assms that(1) by (auto simp: apply_entry_def split: option.splits)
  next
    case 2
    then show ?thesis
      using assms that(2) by (auto simp: apply_entry_def split: prod.splits)
  next
    case 3
    then show ?thesis
      using assms that(3) by (auto simp: apply_entry_def Let_def lookup_current split: prod.splits)
  next
    case (4 t)
    have cur: "current (observed s e) = current s" by (simp add: current_def fun_eq_iff)
    have look: "lookup flt (store (observed s e)) (Path e) = Inr (?cur, ?have)"
      using 4(3) lookup_current [of flt "observed s e" "Path e"] by (simp add: cur)
    have out: "resolve ?cur ?have e \<noteq> decisionSkip \<longleftrightarrow> outdated s e"
      by (auto simp: resolve_skip_iff outdated_def)
    have eq: "(r, s') =
        (if resolve ?cur ?have e = decisionSkip then (Inr (advance e a), observed s e)
         else let (a, s) = stage flt pc addr e (after_copies s e)
                (a\<lparr>batch := batch a @ copies_for s e, conflict := conflict a + length (copies_for s e)\<rparr>)
              in (Inr a, s))"
      using assms 4(1,2) look
      by (auto simp: apply_entry_def Let_def copies_for_def after_copies_def conflictCopy_def
          split: prod.splits decision.splits)
    show ?thesis
    proof (cases "outdated s e")
      case False
      then show ?thesis using that(4) [OF 4(1,2)] eq out by simp
    next
      case True
      then show ?thesis
        using that(5) [OF 4(1,2) True] that(6) [OF 4(1,2) True] eq out
        by (cases "needs_blob e"; cases "fst (ensureBlob flt pc (after_copies s e) addr (Hash e))")
          (auto simp: stage_def needs_blob_def split: prod.splits)
    qed
  qed
qed

lemma conflictCopy_simps:
  "fst (conflictCopy s l) =
     l\<lparr>Path := ConflictName (Path l) (Origin (Ver l)) (Wall (HLC (Ver l))), PrevHash := '''', Seq := 0,
       Ver := Version (fst (Now (clock s))) (Node (cfg s))\<rparr>"
  "snd (conflictCopy s l) = s\<lparr>clock := snd (Now (clock s))\<rparr>"
  by (simp_all add: conflictCopy_def split_beta)

lemma after_copies_fetched: "fetched s (after_copies s e)"
  by (simp add: after_copies_def fetched_def frame)

lemma advance_batch [simp]: "batch (advance e a) = batch a" "deferred (advance e a) = deferred a"
  by (simp_all add: advance_def)

lemma apply_entry_fetched:
  assumes "apply_entry flt pc addr e s a = (r, s')"
  shows "fetched s s'"
proof -
  have obs: "fetched s (observed s e)" by (simp add: fetched_def frame)
  have ens: "fetched s (snd (ensureBlob flt pc (after_copies s e) addr (Hash e)))"
    using fetched_trans [OF after_copies_fetched ensureBlob_fetched(1)] .
  show ?thesis
    using assms by (cases rule: apply_entry_cases) (use obs ens after_copies_fetched in auto)
qed

text \<open>Induction over the loop: a property of what is done so far that every step keeps.\<close>

lemma apply_entries_invariant:
  assumes "apply_entries flt pc addr es s a = (r, s')" and "P [] s a"
    and step: "\<And>pre e rest s a a' s'. es = pre @ e # rest \<Longrightarrow> P pre s a \<Longrightarrow>
           apply_entry flt pc addr e s a = (Inr a', s') \<Longrightarrow> P (pre @ [e]) s' a'"
    and fail: "\<And>pre e rest s a x s'. es = pre @ e # rest \<Longrightarrow> P pre s a \<Longrightarrow>
           apply_entry flt pc addr e s a = (Inl x, s') \<Longrightarrow> Q s'"
  shows "case r of Inl x \<Rightarrow> Q s' | Inr a' \<Rightarrow> P es s' a'"
proof -
  have gen: "es = pre @ rest \<Longrightarrow> P pre s a \<Longrightarrow> apply_entries flt pc addr rest s a = (r, s') \<Longrightarrow>
      (case r of Inl x \<Rightarrow> Q s' | Inr a' \<Rightarrow> P es s' a')" for pre rest s a
  proof (induction rest arbitrary: pre s a)
    case Nil
    then show ?case by auto
  next
    case (Cons e rest)
    show ?case
    proof (cases "apply_entry flt pc addr e s a")
      case (Pair r1 s1)
      show ?thesis
      proof (cases r1)
        case (Inl x)
        then show ?thesis using Cons.prems Pair fail [OF Cons.prems(1,2)] by auto
      next
        case (Inr a1)
        then have "P (pre @ [e]) s1 a1" using step [OF Cons.prems(1,2)] Pair by simp
        then show ?thesis using Cons.IH [of "pre @ [e]" s1 a1] Cons.prems Pair Inr by simp
      qed
    qed
  qed
  show ?thesis by (rule gen [of "[]" es s a]) (use assms(1,2) in simp_all)
qed

lemma apply_entries_fetched:
  assumes "apply_entries flt pc addr es s a = (r, s')"
  shows "fetched s s'"
proof -
  have "case r of Inl x \<Rightarrow> fetched s s' | Inr a' \<Rightarrow> fetched s s'"
    by (rule apply_entries_invariant [OF assms, where P = "\<lambda>_ s' _. fetched s s'" and Q = "fetched s"])
      (auto intro: fetched_trans apply_entry_fetched)
  then show ?thesis by (cases r) auto
qed

lemma applyRemote_cases:
  assumes "applyRemote flt pc s addr es = (r, s')"
  obtains
    (failed) e where "r = Inl e" "fetched s s'"
  | (applied) a s1 where "apply_entries flt pc addr es s new_page = (Inr a, s1)" "r = Inr (safe a)"
      "batch a = [] \<and> s' = s1 \<or> batch a \<noteq> [] \<and> commit flt s1 (batch a) = (None, s')"
proof -
  obtain r1 s1 where run: "apply_entries flt pc addr es s new_page = (r1, s1)"
    by (cases "apply_entries flt pc addr es s new_page")
  have f: "fetched s s1" using apply_entries_fetched [OF run] .
  show thesis
    using assms run f that(1) that(2) [of _ s1]
    by (cases r1) (auto simp: applyRemote_def dest!: commit_error split: if_splits prod.splits option.splits)
qed

section \<open>Clients that verify what they fetch\<close>

text \<open>
  What the syncer relies on, and the comment in \<^verbatim>\<open>ensureBlob\<close> says: content a client returns hashes to
  what was asked for. The theory of the transport interprets the locale on its client.
\<close>

locale verifying_client =
  fixes pc :: PeerClient
  assumes blob_verified: "pc_Blob pc addr h = Inr c \<Longrightarrow> HashContent c = h"
begin

lemma ensureBlob_has:
  assumes "fst (ensureBlob flt pc s addr h) = None"
  shows "has_blob (store (snd (ensureBlob flt pc s addr h))) h"
proof (cases "HasBlob flt (store s) h")
  case (Inr have_it)
  show ?thesis
  proof (cases have_it)
    case True
    then have "has_blob (store s) h"
      using Inr by (auto simp: HasBlob_def has_blob_def filter_empty_conv split: if_splits)
    then show ?thesis using ensureBlob_fetched(1) fetchedD(10) by blast
  next
    case False
    then obtain c h' st where c: "pc_Blob pc addr h = Inr c" "PutBlob flt (store s) c = (Inr h', st)"
      and eq: "ensureBlob flt pc s addr h = (None, s\<lparr>store := st\<rparr>)"
      using assms Inr by (auto simp: ensureBlob_def split: sum.splits if_splits prod.splits)
    then show ?thesis
      using PutBlob_has [of flt "store s" c h'] PutBlob_hash [of flt "store s" c h'] blob_verified [OF c(1)]
      by simp
  qed
qed (use assms in \<open>simp add: ensureBlob_def\<close>)

definition staged :: "Service \<Rightarrow> page_acc \<Rightarrow> bool" where
  "staged s a \<longleftrightarrow> (\<forall>m \<in> set (batch a). needs_blob m \<longrightarrow> has_blob (store s) (Hash m))"

lemma staged_new: "staged s new_page"
  by (simp add: staged_def new_page_def)

lemma copies_for_blob:
  assumes "blobs_ok (store s)" and "m \<in> set (copies_for s e)" and "needs_blob m"
  shows "has_blob (store s) (Hash m)"
proof -
  have m: "needs_blob (current s (Path e))" "Hash m = Hash (current s (Path e))"
    and row: "row_at (store s) (Path e) \<noteq> None"
    using assms(2,3) by (auto simp: copies_for_def conflictCopy_simps needs_blob_def resolve_conflict_iff
        split: if_splits)
  then obtain y where y: "row_at (store s) (Path e) = Some y" by blast
  then show ?thesis
    using m assms(1) row_at_Some [OF y] by (auto simp: current_def blobs_ok_def)
qed

lemma apply_entry_staged:
  assumes "apply_entry flt pc addr e s a = (Inr a', s')" and "blobs_ok (store s)" and "staged s a"
  shows "staged s' a'"
proof -
  have keep: "\<And>h. has_blob (store s) h \<Longrightarrow> has_blob (store s') h"
    using fetchedD(10) [OF apply_entry_fetched [OF assms(1)]] .
  show ?thesis
    using assms(1)
  proof (cases rule: apply_entry_cases)
    case (stored t)
    then show ?thesis
      using assms(2,3) keep copies_for_blob [OF assms(2)] ensureBlob_has [of flt "after_copies s e" addr "Hash e"]
      by (auto simp: staged_def)
  next
    case (postponed t x)
    then show ?thesis
      using assms(2,3) keep copies_for_blob [OF assms(2)] by (auto simp: staged_def)
  qed (use assms(3) keep in \<open>auto simp: staged_def\<close>)
qed

lemma apply_entries_staged:
  assumes "apply_entries flt pc addr es s new_page = (Inr a, s')" and "blobs_ok (store s)"
  shows "staged s' a \<and> fetched s s'"
proof -
  have "case Inr a :: err + page_acc of Inl x \<Rightarrow> True | Inr a' \<Rightarrow> staged s' a' \<and> fetched s s'"
    by (rule apply_entries_invariant [OF assms(1), where P = "\<lambda>_ s' a. staged s' a \<and> fetched s s'"
          and Q = "\<lambda>_. True"])
      (auto simp: staged_new intro: apply_entry_staged
        fetched_trans apply_entry_fetched fetched_blobs_ok assms(2))
  then show ?thesis by simp
qed

lemma applyRemote_invariants:
  assumes "applyRemote flt pc s addr es = (r, s')" and "store_inv (store s)" and "blobs_ok (store s)"
  shows "store_inv (store s') \<and> blobs_ok (store s')"
proof -
  show ?thesis
    using assms(1)
  proof (cases rule: applyRemote_cases)
    case (failed e)
    then show ?thesis using fetchedD(9) fetched_blobs_ok assms(2,3) by blast
  next
    case (applied a s1)
    have f: "staged s1 a" "fetched s s1" using apply_entries_staged [OF applied(1) assms(3)] by auto
    have inv: "store_inv (store s1)" "blobs_ok (store s1)"
      using fetchedD(9) [OF f(2) assms(2)] fetched_blobs_ok [OF f(2) assms(3)] .
    have "store s' = store s1 \<or> store s' = snd (Apply flt (store s1) (batch a))"
      using applied(3) commit_ok(1) [OF _ inv(1)] by blast
    then show ?thesis
      using inv Apply_inv [OF inv(1)] Apply_blobs_ok [OF inv, of "batch a" flt] f(1)
      by (auto simp: staged_def)
  qed
qed

end

end
