(* ===== verification/Documents.thy ===== *)
theory Documents
  imports AntiEntropy
begin

text \<open>
  The documents nodes exchange, as \<^verbatim>\<open>encoding/json\<close> writes and reads them by their struct tags: entries
  (\<^verbatim>\<open>core.Meta\<close>), the digest and a page of the changes feed. A document survives the wire as far as its strings are
  UTF-8.
\<close>

section \<open>Entries\<close>

definition omitempty :: "bool \<Rightarrow> bytes \<Rightarrow> json \<Rightarrow> (bytes \<times> json) list" where
  "omitempty none name j = (if none then [] else [(name, j)])"

definition Timestamp_json :: "Timestamp \<Rightarrow> json" where
  "Timestamp_json t = JObj [(''wall'', JInt (Wall t)), (''ctr'', JWord (Counter t))]"

definition Version_json :: "Version \<Rightarrow> json" where
  "Version_json v = JObj [(''hlc'', Timestamp_json (HLC v)), (''origin'', JStr (Origin v))]"

definition Meta_json :: "Meta \<Rightarrow> json" where
  "Meta_json m =
     JObj ([(''path'', JStr (Path m)), (''kind'', JWord (Kind m))]
           @ omitempty (Hash m = '''') ''hash'' (JStr (Hash m))
           @ omitempty (PrevHash m = '''') ''prev_hash'' (JStr (PrevHash m))
           @ [(''size'', JInt (Size m)), (''mode'', JWord (Mode m)), (''uid'', JWord (UID m)), (''gid'', JWord (GID m)),
              (''version'', Version_json (Ver m))]
           @ omitempty (\<not> Deleted m) ''deleted'' (JBool (Deleted m))
           @ omitempty (DeletedAt m = 0) ''deleted_at'' (JInt (DeletedAt m))
           @ [(''seq'', JInt (Seq m))])"

definition dec_Timestamp :: "json \<Rightarrow> Timestamp \<Rightarrow> Timestamp option" where
  "dec_Timestamp = dec_struct
     [(''wall'', struct_field dec_int64 Wall (\<lambda>x t. Timestamp x (Counter t))),
      (''ctr'', struct_field dec_word Counter (\<lambda>x t. Timestamp (Wall t) x))]"

definition dec_Version :: "json \<Rightarrow> Version \<Rightarrow> Version option" where
  "dec_Version = dec_struct
     [(''hlc'', struct_field dec_Timestamp HLC (\<lambda>x v. Version x (Origin v))),
      (''origin'', struct_field dec_string Origin (\<lambda>x v. Version (HLC v) x))]"

definition dec_Meta :: "json \<Rightarrow> Meta \<Rightarrow> Meta option" where
  "dec_Meta = dec_struct
     [(''path'', struct_field dec_string Path (\<lambda>x. Path_update (\<lambda>_. x))),
      (''kind'', struct_field dec_word Kind (\<lambda>x. Kind_update (\<lambda>_. x))),
      (''hash'', struct_field dec_string Hash (\<lambda>x. Hash_update (\<lambda>_. x))),
      (''prev_hash'', struct_field dec_string PrevHash (\<lambda>x. PrevHash_update (\<lambda>_. x))),
      (''size'', struct_field dec_int64 Size (\<lambda>x. Size_update (\<lambda>_. x))),
      (''mode'', struct_field dec_word Mode (\<lambda>x. Mode_update (\<lambda>_. x))),
      (''uid'', struct_field dec_word UID (\<lambda>x. UID_update (\<lambda>_. x))),
      (''gid'', struct_field dec_word GID (\<lambda>x. GID_update (\<lambda>_. x))),
      (''version'', struct_field dec_Version Ver (\<lambda>x. Ver_update (\<lambda>_. x))),
      (''deleted'', struct_field dec_bool Deleted (\<lambda>x. Deleted_update (\<lambda>_. x))),
      (''deleted_at'', struct_field dec_int64 DeletedAt (\<lambda>x. DeletedAt_update (\<lambda>_. x))),
      (''seq'', struct_field dec_int64 Seq (\<lambda>x. Seq_update (\<lambda>_. x)))]"

section \<open>Digests and pages\<close>

definition Digest_json :: "DigestResponse \<Rightarrow> json" where
  "Digest_json d = JObj [(''digest'', JStr (dr_Digest d)), (''entries'', JInt (dr_Entries d)), (''head'', JInt (dr_Head d))]"

definition dec_Digest :: "json \<Rightarrow> DigestResponse \<Rightarrow> DigestResponse option" where
  "dec_Digest = dec_struct
     [(''digest'', struct_field dec_string dr_Digest (\<lambda>x. dr_Digest_update (\<lambda>_. x))),
      (''entries'', struct_field dec_int64 dr_Entries (\<lambda>x. dr_Entries_update (\<lambda>_. x))),
      (''head'', struct_field dec_int64 dr_Head (\<lambda>x. dr_Head_update (\<lambda>_. x)))]"

definition Manifest_json :: "ManifestResponse \<Rightarrow> json" where
  "Manifest_json p =
     JObj [(''entries'', JArr (map Meta_json (mr_Entries p))), (''head'', JInt (mr_Head p)), (''more'', JBool (mr_More p))]"

text \<open>
  A slice being decoded: its backing array and its length. An element is decoded over what the array holds at its place, a
  zero value past its end; \<^verbatim>\<open>null\<close> and an empty array drop the array.
\<close>

type_synonym 'a slice = "'a list \<times> nat"

fun dec_array :: "(json \<Rightarrow> 'a \<Rightarrow> 'a option) \<Rightarrow> 'a \<Rightarrow> json list \<Rightarrow> 'a list \<Rightarrow> 'a list option" where
  "dec_array dec zero [] old = Some old"
| "dec_array dec zero (j # js) old =
     (case dec j (case old of [] \<Rightarrow> zero | x # _ \<Rightarrow> x) of
        None \<Rightarrow> None
      | Some x \<Rightarrow> map_option (\<lambda>xs. x # xs) (dec_array dec zero js (tl old)))"

definition dec_slice :: "(json \<Rightarrow> 'a \<Rightarrow> 'a option) \<Rightarrow> 'a \<Rightarrow> json \<Rightarrow> 'a slice \<Rightarrow> 'a slice option" where
  "dec_slice dec zero j old =
     (case j of
        JNull \<Rightarrow> Some ([], 0)
      | JArr js \<Rightarrow>
          if js = [] then Some ([], 0)
          else map_option (\<lambda>b. (b, length js)) (dec_array dec zero js (fst old))
      | _ \<Rightarrow> None)"

type_synonym page_slot = "Meta slice \<times> int \<times> bool"

definition dec_page :: "json \<Rightarrow> page_slot \<Rightarrow> page_slot option" where
  "dec_page = dec_struct
     [(''entries'', struct_field (dec_slice dec_Meta zero_Meta) fst (\<lambda>x (es, h, more). (x, h, more))),
      (''head'', struct_field dec_int64 (\<lambda>p. fst (snd p)) (\<lambda>x (es, h, more). (es, x, more))),
      (''more'', struct_field dec_bool (\<lambda>p. snd (snd p)) (\<lambda>x (es, h, more). (es, h, x)))]"

definition page_of :: "page_slot \<Rightarrow> ManifestResponse" where
  "page_of = (\<lambda>((b, n), h, more). \<lparr>mr_Entries = take n b, mr_Head = h, mr_More = more\<rparr>)"

definition zero_Digest :: DigestResponse where
  "zero_Digest = \<lparr>dr_Digest = '''', dr_Entries = 0, dr_Head = 0\<rparr>"

definition zero_page :: page_slot where
  "zero_page = (([], 0), 0, False)"

section \<open>Round trips\<close>

text \<open>A document with every string made UTF-8, and the ranges its numbers have.\<close>

definition valid_Meta :: "Meta \<Rightarrow> Meta" where
  "valid_Meta m =
     m\<lparr>Path := to_valid (Path m), Hash := to_valid (Hash m), PrevHash := to_valid (PrevHash m),
       Ver := Version (HLC (Ver m)) (to_valid (Origin (Ver m)))\<rparr>"

definition numbers64 :: "Meta \<Rightarrow> bool" where
  "numbers64 m \<longleftrightarrow> is_int64 (Size m) \<and> is_int64 (Wall (HLC (Ver m))) \<and> is_int64 (DeletedAt m) \<and> is_int64 (Seq m)"

lemma Meta_json_ok:
  "numbers_ok (Meta_json m)"
  by (simp add: Meta_json_def omitempty_def Version_json_def Timestamp_json_def)

lemma dec_Timestamp:
  "is_int64 (Wall t) \<Longrightarrow> dec_Timestamp (valid_json (Timestamp_json t)) old = Some t"
  by (simp add: dec_Timestamp_def Timestamp_json_def to_valid_ascii dec_struct_def struct_field_def)

lemma dec_Version:
  "is_int64 (Wall (HLC v)) \<Longrightarrow> dec_Version (valid_json (Version_json v)) old = Some (Version (HLC v) (to_valid (Origin v)))"
  by (simp add: dec_Version_def Version_json_def to_valid_ascii dec_struct_def struct_field_def dec_Timestamp)

lemma dec_Meta:
  "numbers64 m \<Longrightarrow> dec_Meta (valid_json (Meta_json m)) zero_Meta = Some (valid_Meta m)"
  by (simp add: dec_Meta_def Meta_json_def to_valid_ascii dec_struct_def struct_field_def dec_Version dec_members_append omitempty_def
     numbers64_def valid_Meta_def zero_Meta_def)

lemma Digest_round_trip:
  assumes "is_int64 (dr_Entries d)" and "is_int64 (dr_Head d)"
  shows "Unmarshal dec_Digest (print_json (Digest_json d)) zero_Digest = Some (d\<lparr>dr_Digest := to_valid (dr_Digest d)\<rparr>)"
proof -
  have "numbers_ok (Digest_json d)" by (simp add: Digest_json_def)
  then have "Unmarshal dec_Digest (print_json (Digest_json d)) zero_Digest = dec_Digest (valid_json (Digest_json d)) zero_Digest"
    by (rule Unmarshal_print)
  also have "\<dots> = Some (d\<lparr>dr_Digest := to_valid (dr_Digest d)\<rparr>)"
    using assms by (simp add: zero_Digest_def Digest_json_def dec_Digest_def dec_struct_def struct_field_def to_valid_ascii)
  finally show ?thesis .
qed

lemma dec_array_map:
  "(\<And>x. x \<in> set xs \<Longrightarrow> dec (f x) zero = Some (g x)) \<Longrightarrow> dec_array dec zero (map f xs) [] = Some (map g xs)"
  by (induction xs) simp_all

lemma dec_array_entries:
  "list_all numbers64 ms \<Longrightarrow>
     dec_array dec_Meta zero_Meta (map (\<lambda>m. valid_json (Meta_json m)) ms) [] = Some (map valid_Meta ms)"
  by (rule dec_array_map) (simp add: list_all_iff dec_Meta)

definition valid_page :: "ManifestResponse \<Rightarrow> ManifestResponse" where
  "valid_page p = p\<lparr>mr_Entries := map valid_Meta (mr_Entries p)\<rparr>"

lemma page_round_trip:
  assumes "list_all numbers64 (mr_Entries p)" and "is_int64 (mr_Head p)"
  shows "map_option page_of (Unmarshal dec_page (print_json (Manifest_json p)) zero_page) = Some (valid_page p)"
proof -
  have "numbers_ok (Manifest_json p)" by (simp add: Manifest_json_def list_all_iff Meta_json_ok)
  then have "Unmarshal dec_page (print_json (Manifest_json p)) zero_page = dec_page (valid_json (Manifest_json p)) zero_page"
    by (rule Unmarshal_print)
  moreover have "map_option page_of (dec_page (valid_json (Manifest_json p)) zero_page) = Some (valid_page p)"
    using assms dec_array_entries [OF assms(1)]
    by (simp add: zero_page_def Manifest_json_def dec_page_def dec_struct_def struct_field_def to_valid_ascii dec_slice_def page_of_def
        valid_page_def comp_def)
  ultimately show ?thesis by simp
qed

lemma valid_Meta_id:
  "utf8_valid (Path m) \<Longrightarrow> utf8_valid (Hash m) \<Longrightarrow> utf8_valid (PrevHash m) \<Longrightarrow> utf8_valid (Origin (Ver m)) \<Longrightarrow> valid_Meta m = m"
  by (simp add: valid_Meta_def utf8_valid_def)

end
