(* ===== verification/Go_Time.thy ===== *)
theory Go_Time
  imports Json "HOL-Library.Monad_Syntax"
begin

text \<open>
  The part of Go's \<^verbatim>\<open>time\<close> the status document and the status command use: the calendar, dates as RFC 3339 text as
  \<^verbatim>\<open>MarshalJSON\<close> writes and \<^verbatim>\<open>UnmarshalJSON\<close> reads them, and durations in whole seconds as text. What is
  written is read back.
\<close>

section \<open>The calendar\<close>

text \<open>Days are counted from 1 January of year 1, in the Gregorian calendar extended in both directions.\<close>

definition leap :: "int \<Rightarrow> bool" where
  "leap y \<longleftrightarrow> y mod 4 = 0 \<and> (y mod 100 \<noteq> 0 \<or> y mod 400 = 0)"

definition days_before_year :: "int \<Rightarrow> int" where
  "days_before_year y = 365 * (y - 1) + (y - 1) div 4 - (y - 1) div 100 + (y - 1) div 400"

definition daysIn :: "int \<Rightarrow> nat \<Rightarrow> nat" where
  "daysIn y m = (if m = 2 then (if leap y then 29 else 28) else if m \<in> {4, 6, 9, 11} then 30 else 31)"

definition days_before_month :: "int \<Rightarrow> nat \<Rightarrow> nat" where
  "days_before_month y m = sum_list (map (daysIn y) [1..<m])"

definition day_number :: "int \<Rightarrow> nat \<Rightarrow> nat \<Rightarrow> int" where
  "day_number y m d = days_before_year y + int (days_before_month y m) + int d - 1"

definition year_of :: "int \<Rightarrow> int" where
  "year_of n = (let y = n * 400 div 146097 + 1 in if days_before_year (y + 1) \<le> n then y + 1 else y)"

fun month_from :: "int \<Rightarrow> nat \<Rightarrow> nat list \<Rightarrow> nat \<times> nat" where
  "month_from y k [] = (12, k + 1)"
| "month_from y k (m # ms) = (if k < daysIn y m then (m, k + 1) else month_from y (k - daysIn y m) ms)"

definition civil_date :: "int \<Rightarrow> int \<times> nat \<times> nat" where
  "civil_date n = (let y = year_of n in (y, month_from y (nat (n - days_before_year y)) [1..<13]))"

lemma div_bounds:
  fixes k c :: int
  assumes "0 < c"
  shows "c * (k div c) \<le> k" and "k < c * (k div c) + c"
  using mult_div_mod_eq [of c k] pos_mod_bound [OF assms, of k] pos_mod_sign [OF assms, of k] by linarith+

lemma div_step:
  fixes k c :: int
  assumes "0 < c"
  shows "(k + 1) div c = k div c + (if (k + 1) mod c = 0 then 1 else 0)"
proof (cases "k mod c + 1 = c")
  case True
  then have "k + 1 = c * (k div c + 1)" using mult_div_mod_eq [of c k] unfolding distrib_left by linarith
  then show ?thesis using assms by simp
next
  case False
  then have r: "0 \<le> k mod c + 1" "k mod c + 1 < c" "k mod c + 1 \<noteq> 0"
    using pos_mod_bound [OF assms, of k] pos_mod_sign [OF assms, of k] by linarith+
  have e: "k + 1 = (k mod c + 1) + c * (k div c)" using mult_div_mod_eq [of c k] by simp
  have "k + 1 = c * (k div c) + (k mod c + 1)" using e by simp
  note int_mod_pos_eq [OF this r(1,2)] int_div_pos_eq [OF this r(1,2)]
  then show ?thesis using r by simp
qed

lemma days_before_year_bounds:
  "146097 * (y - 1) - 699 \<le> 400 * days_before_year y" "400 * days_before_year y \<le> 146097 * (y - 1) + 396"
  using div_bounds [of 4 "y - 1"] div_bounds [of 100 "y - 1"] div_bounds [of 400 "y - 1"]
  by (simp_all add: days_before_year_def)

lemma leap_steps:
  fixes a b c a' b' c' y :: int
  assumes "B \<Longrightarrow> A" and "C \<Longrightarrow> B" and "a' = a + (if A then 1 else 0)" and "b' = b + (if B then 1 else 0)" and "c' = c + (if C then 1 else 0)"
  shows "365 * y + a' - b' + c' = 365 * (y - 1) + a - b + c + (if A \<and> (\<not> B \<or> C) then 366 else 365)"
  using assms by (cases A; cases B; cases C) simp_all

lemma days_before_year_Suc: "days_before_year (y + 1) = days_before_year y + (if leap y then 366 else 365)"
  unfolding days_before_year_def leap_def add_diff_cancel_right'
proof (rule leap_steps)
  show "y mod 4 = 0" if "y mod 100 = 0" using that dvd_trans [of 4 "100 :: int" y] by (simp add: mod_eq_0_iff_dvd)
  show "y mod 100 = 0" if "y mod 400 = 0" using that dvd_trans [of 100 "400 :: int" y] by (simp add: mod_eq_0_iff_dvd)
qed (use div_step [of 4 "y - 1"] div_step [of 100 "y - 1"] div_step [of 400 "y - 1"] in
      \<open>simp_all only: diff_add_cancel zero_less_numeral simp_thms\<close>)

lemma year_of_bounds: "days_before_year (year_of n) \<le> n" "n < days_before_year (year_of n + 1)"
proof -
  define q where "q = n * 400 div 146097"
  have q: "146097 * q \<le> n * 400" "n * 400 < 146097 * q + 146097"
    using div_bounds [of 146097 "n * 400"] by (simp_all add: q_def)
  have "days_before_year (q + 1) \<le> n" using days_before_year_bounds(2) [of "q + 1"] q(1) by simp
  moreover have "n < days_before_year (q + 3)" using days_before_year_bounds(1) [of "q + 3"] q(2) by simp
  ultimately show "days_before_year (year_of n) \<le> n" "n < days_before_year (year_of n + 1)"
    by (auto simp: year_of_def Let_def q_def [symmetric] add.assoc split: if_splits)
qed

lemma month_from_sum:
  "ms \<noteq> [] \<Longrightarrow> k < sum_list (map (daysIn y) ms) \<Longrightarrow> month_from y k ms = (m, d) \<Longrightarrow>
     \<exists>as bs. ms = as @ m # bs \<and> 1 \<le> d \<and> d \<le> daysIn y m \<and> sum_list (map (daysIn y) as) + d = k + 1"
proof (induction ms arbitrary: k)
  case (Cons a ms)
  show ?case
  proof (cases "k < daysIn y a")
    case True
    then show ?thesis using Cons.prems by (intro exI [of _ "[]"] exI [of _ ms]) auto
  next
    case False
    then have "month_from y (k - daysIn y a) ms = (m, d)" "k - daysIn y a < sum_list (map (daysIn y) ms)" "ms \<noteq> []"
      using Cons.prems by auto
    from Cons.IH [OF this(3,2,1)] obtain as bs where "ms = as @ m # bs" "1 \<le> d" "d \<le> daysIn y m"
      "sum_list (map (daysIn y) as) + d = k - daysIn y a + 1" by blast
    then show ?thesis using False by (intro exI [of _ "a # as"] exI [of _ bs]) auto
  qed
qed simp

lemma year_length: "sum_list (map (daysIn y) [1..<13]) = (if leap y then 366 else 365)"
  by (simp add: daysIn_def upt_rec)

lemma upt_split: "[1..<13] = as @ m # bs \<Longrightarrow> as = [1..<m] \<and> 1 \<le> m \<and> m \<le> 12"
  for m :: nat
proof -
  assume eq: "[1..<13] = as @ m # bs"
  have "m = [1..<13] ! length as" unfolding eq by simp
  moreover have "length as < 12" using arg_cong [OF eq, of length] by simp
  ultimately have m: "m = Suc (length as)" by simp
  have "as = take (length as) [1..<13]" unfolding eq by simp
  also have "\<dots> = [1..<m]" using \<open>length as < 12\<close> by (simp add: m take_upt)
  finally show ?thesis using m \<open>length as < 12\<close> by simp
qed

lemma civil_date_day_number:
  assumes "civil_date n = (y, m, d)"
  shows "day_number y m d = n" "y = year_of n" "1 \<le> m" "m \<le> 12" "1 \<le> d" "d \<le> daysIn y m"
proof -
  define k where "k = nat (n - days_before_year y)"
  show y: "y = year_of n" and md: "1 \<le> m" "m \<le> 12" "1 \<le> d" "d \<le> daysIn y m" "day_number y m d = n"
  proof -
    show "y = year_of n" using assms by (simp add: civil_date_def Let_def)
    then have b: "days_before_year y \<le> n" "n < days_before_year (y + 1)" using year_of_bounds [of n] by simp_all
    then have "k < sum_list (map (daysIn y) [1..<13])" unfolding year_length using days_before_year_Suc [of y] by (simp add: k_def split: if_splits)
    moreover have "month_from y k [1..<13] = (m, d)" using assms \<open>y = year_of n\<close> by (simp add: civil_date_def Let_def k_def)
    ultimately obtain as bs where s: "[1..<13] = as @ m # bs" "1 \<le> d" "d \<le> daysIn y m" "sum_list (map (daysIn y) as) + d = k + 1"
      using month_from_sum [of "[1..<13]" k y m d] by auto
    note u = upt_split [OF s(1)]
    then show "1 \<le> m" "m \<le> 12" "1 \<le> d" "d \<le> daysIn y m" using s by simp_all
    have "int (days_before_month y m) + int d = int k + 1" using s(4) u by (simp add: days_before_month_def)
    then show "day_number y m d = n" using b(1) by (simp add: day_number_def k_def)
  qed
qed

section \<open>Dates as text\<close>

text \<open>A point in time: nanoseconds since the start of year 1 in UTC, and how many seconds the clock on the wall is ahead of UTC.\<close>

record Time =
  t_ns :: int
  t_offset :: int

definition zero_Time :: Time where
  "zero_Time = \<lparr>t_ns = 0, t_offset = 0\<rparr>"

text \<open>The start of 1970.\<close>

definition unix_epoch :: int where
  "unix_epoch = 62135596800 * 1000000000"

definition IsZero :: "Time \<Rightarrow> bool" where
  "IsZero t \<longleftrightarrow> t_ns t = 0"

definition padded :: "nat \<Rightarrow> nat \<Rightarrow> string" where
  "padded w n = replicate (w - length (dec_nat n)) CHR ''0'' @ dec_nat n"

definition frac_text :: "nat \<Rightarrow> string" where
  "frac_text ns = (if ns = 0 then '''' else CHR ''.'' # rev (dropWhile (\<lambda>c. c = CHR ''0'') (rev (padded 9 ns))))"

definition zone_text :: "int \<Rightarrow> string" where
  "zone_text offset =
     (if offset = 0 then ''Z''
      else let z = nat (\<bar>offset\<bar> div 60)
           in (if offset \<le> - 60 then CHR ''-'' else CHR ''+'') # padded 2 (z div 60) @ CHR '':'' # padded 2 (z mod 60))"

text \<open>
  \<^verbatim>\<open>Time.MarshalJSON\<close>, the text between the quotes; None is its error, for a year that has not four digits or a
  zone that is a day or more away.
\<close>

definition Time_text :: "Time \<Rightarrow> string option" where
  "Time_text t =
     (let secs = t_ns t div 1000000000 + t_offset t;
          (y, m, d) = civil_date (secs div 86400);
          s = nat (secs mod 86400)
      in if y < 0 \<or> 9999 < y \<or> 86400 \<le> \<bar>t_offset t\<bar> then None
         else Some (padded 4 (nat y) @ CHR ''-'' # padded 2 m @ CHR ''-'' # padded 2 d
                    @ CHR ''T'' # padded 2 (s div 3600) @ CHR '':'' # padded 2 (s div 60 mod 60) @ CHR '':'' # padded 2 (s mod 60)
                    @ frac_text (nat (t_ns t mod 1000000000)) @ zone_text (t_offset t)))"

text \<open>
  \<^verbatim>\<open>Time.UnmarshalJSON\<close>, which is \<^verbatim>\<open>time.Parse\<close> for the layout of RFC 3339: an hour may have one digit, the fraction may
  follow a comma and only its first nine digits count, and a zone may be as much as 24 hours and 60 minutes away.
\<close>

definition ensure :: "bool \<Rightarrow> unit option" where
  "ensure c = (if c then Some () else None)"

definition literally :: "char \<Rightarrow> string \<Rightarrow> string option" where
  "literally c s = (case s of [] \<Rightarrow> None | x # r \<Rightarrow> if x = c then Some r else None)"

definition getnum :: "bool \<Rightarrow> string \<Rightarrow> (nat \<times> string) option" where
  "getnum fixed s =
     (case s of
        [] \<Rightarrow> None
      | a # r \<Rightarrow>
          (case digit_val a of
             None \<Rightarrow> None
           | Some x \<Rightarrow>
               (case r of
                  [] \<Rightarrow> if fixed then None else Some (x, r)
                | b # r' \<Rightarrow>
                    (case digit_val b of
                       None \<Rightarrow> if fixed then None else Some (x, r)
                     | Some y \<Rightarrow> Some (10 * x + y, r')))))"

definition read_year :: "string \<Rightarrow> (nat \<times> string) option" where
  "read_year s = (if length s < 4 then None else map_option (\<lambda>y. (y, drop 4 s)) (digits_val 0 (take 4 s)))"

definition frac_val :: "string \<Rightarrow> nat" where
  "frac_val ds = (case digits_val 0 ds of None \<Rightarrow> 0 | Some v \<Rightarrow> v * 10 ^ (9 - length ds))"

definition read_frac :: "string \<Rightarrow> nat \<times> string" where
  "read_frac s =
     (case s of
        p # c # r \<Rightarrow>
          if (p = CHR ''.'' \<or> p = CHR '','') \<and> is_digit c
          then (frac_val (take 9 (takeWhile is_digit (c # r))), dropWhile is_digit (c # r))
          else (0, s)
      | _ \<Rightarrow> (0, s))"

definition read_zone :: "string \<Rightarrow> (int \<times> string) option" where
  "read_zone s =
     (if HasPrefix s ''Z'' then Some (0, drop 1 s)
      else do {
        ensure (6 \<le> length s \<and> s ! 3 = CHR '':'');
        (hr, _) \<leftarrow> getnum True (take 2 (drop 1 s));
        (mm, _) \<leftarrow> getnum True (take 2 (drop 4 s));
        ensure (hr \<le> 24 \<and> mm \<le> 60);
        ensure (hd s = CHR ''+'' \<or> hd s = CHR ''-'');
        let offset = (int hr * 60 + int mm) * 60;
        Some (if hd s = CHR ''-'' then - offset else offset, drop 6 s)
      })"

definition Time_of :: "string \<Rightarrow> Time option" where
  "Time_of s =
     do {
       (year, s) \<leftarrow> read_year s;
       s \<leftarrow> literally CHR ''-'' s;
       (month, s) \<leftarrow> getnum True s;
       ensure (1 \<le> month \<and> month \<le> 12);
       s \<leftarrow> literally CHR ''-'' s;
       (day, s) \<leftarrow> getnum True s;
       s \<leftarrow> literally CHR ''T'' s;
       (hour, s) \<leftarrow> getnum False s;
       ensure (hour < 24);
       s \<leftarrow> literally CHR '':'' s;
       (minute, s) \<leftarrow> getnum True s;
       ensure (minute < 60);
       s \<leftarrow> literally CHR '':'' s;
       (sec, s) \<leftarrow> getnum True s;
       ensure (sec < 60);
       let (ns, s) = read_frac s;
       (offset, s) \<leftarrow> read_zone s;
       ensure (s = []);
       ensure (1 \<le> day \<and> day \<le> daysIn (int year) month);
       Some \<lparr>t_ns = (day_number (int year) month day * 86400 + int (hour * 3600 + minute * 60 + sec) - offset) * 1000000000 + int ns,
             t_offset = offset\<rparr>
     }"

section \<open>What is written is read back\<close>

lemma digits_val_zeros: "digits_val 0 (replicate k CHR ''0'' @ s) = digits_val 0 s"
  by (induction k) (simp_all add: digit_val_def)

lemma padded_val: "digits_val 0 (padded w n) = Some n"
  by (simp add: padded_def digits_val_zeros)

lemma padded_length: "n < 10 ^ w \<Longrightarrow> 0 < w \<Longrightarrow> length (padded w n) = w"
  using length_dec_nat [of w n] by (simp add: padded_def)

lemma padded2: "n < 100 \<Longrightarrow> padded 2 n = [digit (n div 10), digit (n mod 10)]"
  by (cases "n < 10") (simp_all add: padded_def dec_nat.simps [of n] dec_nat.simps [of "n div 10"] digit_def)

lemma getnum_padded: "n < 100 \<Longrightarrow> getnum fixed (padded 2 n @ r) = Some (n, r)"
  by (simp add: padded2 getnum_def)

lemma read_year_padded: "n < 10000 \<Longrightarrow> read_year (padded 4 n @ r) = Some (n, r)"
  using padded_length [of n 4] by (simp add: read_year_def padded_val)

lemma digits_val_more_zeros: "digits_val a (t @ replicate k CHR ''0'') = map_option (\<lambda>v. v * 10 ^ k) (digits_val a t)"
proof (induction k arbitrary: t)
  case (Suc k)
  have "digits_val a (t @ replicate (Suc k) CHR ''0'') = digits_val a ((t @ [CHR ''0'']) @ replicate k CHR ''0'')"
    by (simp add: replicate_append_same)
  also have "\<dots> = map_option (\<lambda>v. v * 10 ^ k) (digits_val a (t @ [CHR ''0'']))" by (rule Suc.IH)
  also have "\<dots> = map_option (\<lambda>v. v * 10 ^ Suc k) (digits_val a t)"
    by (cases "digits_val a t") (simp_all add: digits_val_append digit_val_def)
  finally show ?case .
qed (simp add: option.map_ident)

lemma strip_zeros: "s = rev (dropWhile (\<lambda>c. c = z) (rev s)) @ replicate (length s - length (rev (dropWhile (\<lambda>c. c = z) (rev s)))) z"
proof (induction s rule: rev_induct)
  case (snoc c s)
  have "length (dropWhile (\<lambda>c. c = z) (rev s)) \<le> length s" using length_dropWhile_le [of "\<lambda>c. c = z" "rev s"] by simp
  then show ?case using snoc by (auto simp: Suc_diff_le replicate_append_same [symmetric] simp flip: append_assoc)
qed simp

lemma padded_digits: "list_all is_digit (padded w n)"
  by (auto simp: padded_def list_all_iff is_digit_def dest: dec_nat_digits)

lemma read_frac_text:
  assumes "ns < 1000000000" and "r \<noteq> [] \<Longrightarrow> \<not> is_digit (hd r) \<and> hd r \<noteq> CHR ''.'' \<and> hd r \<noteq> CHR '',''"
  shows "read_frac (frac_text ns @ r) = (ns, r)"
proof (cases "ns = 0")
  case True
  then show ?thesis using assms(2) by (auto simp: frac_text_def read_frac_def split: list.splits)
next
  case False
  define t where "t = rev (dropWhile (\<lambda>c. c = CHR ''0'') (rev (padded 9 ns)))"
  have nine: "length (padded 9 ns) = 9" using assms(1) padded_length [of ns 9] by simp
  have s: "padded 9 ns = t @ replicate (9 - length t) CHR ''0''"
    using strip_zeros [of "padded 9 ns" "CHR ''0''"] unfolding nine t_def [symmetric] .
  have len: "length t \<le> 9" using arg_cong [OF s, of length] nine by simp
  have digits: "list_all is_digit t" using padded_digits [of 9 ns] s by (metis list_all_append)
  have val: "map_option (\<lambda>v. v * 10 ^ (9 - length t)) (digits_val 0 t) = Some ns"
    using padded_val [of 9 ns] unfolding s digits_val_more_zeros .
  then have "t \<noteq> []" using False by (auto simp: \<open>ns \<noteq> 0\<close>)
  then obtain c u where t: "t = c # u" "is_digit c" using digits by (cases t) auto
  have stop: "takeWhile is_digit (t @ r) = t" "dropWhile is_digit (t @ r) = r"
    using digits assms(2) by (cases r; simp add: list_all_iff takeWhile_append dropWhile_append)+
  have "read_frac (CHR ''.'' # t @ r) = (frac_val t, r)"
    using t stop len by (simp add: read_frac_def del: takeWhile.simps dropWhile.simps)
  then show ?thesis using False val by (auto simp: frac_text_def t_def [symmetric] frac_val_def split: option.splits)
qed

lemma read_zone_text:
  assumes "60 dvd offset" and "\<bar>offset\<bar> < 86400"
  shows "read_zone (zone_text offset) = Some (offset, [])"
proof (cases "offset = 0")
  case False
  define z where "z = nat (\<bar>offset\<bar> div 60)"
  obtain k where k: "offset = 60 * k" using assms(1) by (elim dvdE)
  have z: "z = nat \<bar>k\<bar>" by (simp add: z_def k abs_mult)
  then have "z < 1440" using assms(2) by (simp add: k abs_mult)
  then have small: "z div 60 < 24" by simp
  have neg: "offset \<le> - 60 \<longleftrightarrow> k < 0" unfolding k by linarith
  have "(int (z div 60) * 60 + int (z mod 60)) = int z" by (simp add: zdiv_int zmod_int)
  then have "(int (z div 60) * 60 + int (z mod 60)) * 60 = 60 * \<bar>k\<bar>" by (simp add: z)
  then have sum: "(int (z div 60) * 60 + int (z mod 60)) * 60 = \<bar>offset\<bar>" by (simp add: k abs_mult)
  define a b where "a = padded 2 (z div 60)" and "b = padded 2 (z mod 60)"
  have ab: "length a = 2" "length b = 2" "getnum True a = Some (z div 60, [])" "getnum True b = Some (z mod 60, [])"
    using small getnum_padded [of "z div 60" True "[]"] getnum_padded [of "z mod 60" True "[]"] by (simp_all add: a_def b_def padded2)
  have "read_zone (c # a @ CHR '':'' # b) = Some (if c = CHR ''-'' then - \<bar>offset\<bar> else \<bar>offset\<bar>, [])"
    if "c = CHR ''-'' \<or> c = CHR ''+''" for c
    using that ab small sum by (auto simp: read_zone_def HasPrefix_def ensure_def nth_append)
  moreover have "zone_text offset = (if k < 0 then CHR ''-'' else CHR ''+'') # a @ CHR '':'' # b"
    using False by (simp add: zone_text_def z_def [symmetric] Let_def neg a_def b_def)
  ultimately show ?thesis by (auto simp: k abs_mult)
qed (simp add: zone_text_def read_zone_def HasPrefix_def)

text \<open>The day of a time on the wall.\<close>

abbreviation wall_seconds :: "Time \<Rightarrow> int" where
  "wall_seconds t \<equiv> t_ns t div 1000000000 + t_offset t"

lemma hms:
  fixes s :: nat
  shows "s div 3600 * 3600 + s div 60 mod 60 * 60 + s mod 60 = s"
proof -
  have "s div 60 = s div 3600 * 60 + s div 60 mod 60" using div_mult_mod_eq [of "s div 60" 60] by (simp add: div_mult2_eq [symmetric])
  then have "s div 60 * 60 = s div 3600 * 3600 + s div 60 mod 60 * 60" by simp
  then show ?thesis using div_mult_mod_eq [of s 60] by simp
qed

lemma zone_text_start: "hd (zone_text z @ r) \<in> {CHR ''Z'', CHR ''+'', CHR ''-''}"
  by (simp add: zone_text_def Let_def)

lemma literally_same: "literally c (c # r) = Some r"
  by (simp add: literally_def)

lemma ensure_true: "c \<Longrightarrow> ensure c = Some ()"
  by (simp add: ensure_def)

lemmas read_parts = read_year_padded getnum_padded literally_same ensure_true

theorem Time_round_trip:
  assumes "0 \<le> year_of (wall_seconds t div 86400)" and "year_of (wall_seconds t div 86400) \<le> 9999"
    and "60 dvd t_offset t" and "\<bar>t_offset t\<bar> < 86400"
  shows "\<exists>s. Time_text t = Some s \<and> Time_of s = Some t"
proof -
  obtain y m d where date: "civil_date (wall_seconds t div 86400) = (y, m, d)" by (cases "civil_date (wall_seconds t div 86400)")
  note c = civil_date_day_number [OF date]
  have d: "d < 100" using c(6) by (auto simp: daysIn_def split: if_splits)
  define s where "s = nat (wall_seconds t mod 86400)"
  define ns where "ns = nat (t_ns t mod 1000000000)"
  have s: "s < 86400" "int s = wall_seconds t mod 86400" by (simp_all add: s_def nat_less_iff)
  have ns: "ns < 1000000000" "int ns = t_ns t mod 1000000000" by (simp_all add: ns_def nat_less_iff)
  have "\<not> is_digit (hd (zone_text (t_offset t)))" "hd (zone_text (t_offset t)) \<noteq> CHR ''.''" "hd (zone_text (t_offset t)) \<noteq> CHR '',''"
    using zone_text_start [of "t_offset t" "[]"] by (auto simp: is_digit_def)
  then have frac: "read_frac (frac_text ns @ zone_text (t_offset t)) = (ns, zone_text (t_offset t))"
    using ns(1) by (intro read_frac_text) auto
  define out where "out = padded 4 (nat y) @ CHR ''-'' # padded 2 m @ CHR ''-'' # padded 2 d
    @ CHR ''T'' # padded 2 (s div 3600) @ CHR '':'' # padded 2 (s div 60 mod 60) @ CHR '':'' # padded 2 (s mod 60) @ frac_text ns @ zone_text (t_offset t)"
  have "(y < 0 \<or> 9999 < y \<or> 86400 \<le> \<bar>t_offset t\<bar>) = False" using assms c(2) by simp
  then have "Time_text t = Some out" unfolding Time_text_def Let_def date prod.case s_def [symmetric] ns_def [symmetric] out_def by (simp only: if_False)
  moreover have "Time_of out = Some \<lparr>t_ns = (day_number y m d * 86400 + int (s div 3600 * 3600 + s div 60 mod 60 * 60 + s mod 60)
      - t_offset t) * 1000000000 + int ns, t_offset = t_offset t\<rparr>"
  proof -
    have "nat y < 10000" "int (nat y) = y" using assms(1,2) c(2) by simp_all
    moreover have "m < 100" "s div 3600 < 24" "s div 60 mod 60 < 60" "s mod 60 < 60" using c(4) s(1) by simp_all
    ultimately show ?thesis using assms(3,4) c(3-6) d
      by (simp add: Time_of_def out_def read_parts frac read_zone_text del: One_nat_def of_nat_add of_nat_mult)
  qed
  moreover have "(day_number y m d * 86400 + int s - t_offset t) * 1000000000 + int ns = t_ns t"
    using c(1) s(2) ns(2) div_mult_mod_eq [of "wall_seconds t" 86400] div_mult_mod_eq [of "t_ns t" 1000000000] by simp
  ultimately show ?thesis by (simp only: hms) simp
qed

lemma digit_ascii: "is_digit c \<Longrightarrow> ord8 c < 0x80"
  by (auto simp: is_digit_def)

lemma padded_ascii [simp]: "list_all (\<lambda>c. ord8 c < 0x80) (padded w n)"
  using padded_digits [of w n] by (auto simp: list_all_iff digit_ascii)

lemma Time_text_ascii: "Time_text t = Some s \<Longrightarrow> list_all (\<lambda>c. ord8 c < 0x80) s"
proof -
  have "list_all (\<lambda>c. ord8 c < 0x80) (frac_text n)" for n
    using padded_ascii [of 9 n] by (auto simp: frac_text_def list_all_iff dest!: set_dropWhileD)
  moreover have "list_all (\<lambda>c. ord8 c < 0x80) (zone_text z)" for z by (simp add: zone_text_def Let_def)
  ultimately show "Time_text t = Some s \<Longrightarrow> list_all (\<lambda>c. ord8 c < 0x80) s"
    by (auto simp: Time_text_def Let_def split: prod.splits if_splits)
qed

section \<open>Durations\<close>

definition Second :: int where
  "Second = 1000000000"

text \<open>\<^verbatim>\<open>time.Since\<close>: the difference saturates at the ends of a 64 bit duration.\<close>

definition time_Since :: "int \<Rightarrow> int \<Rightarrow> int" where
  "time_Since now t = max min_int64 (min max_int64 (now - t))"

text \<open>\<^verbatim>\<open>d.Truncate(time.Second)\<close>, as a number of seconds: rounded towards zero.\<close>

definition Truncate_Second :: "int \<Rightarrow> int" where
  "Truncate_Second d = (if d < 0 then - (- d div Second) else d div Second)"

text \<open>\<^verbatim>\<open>Duration.String\<close> of that many seconds.\<close>

definition Duration_text :: "int \<Rightarrow> string" where
  "Duration_text secs =
     (let u = nat \<bar>secs\<bar>; m = u div 60; h = m div 60
      in (if secs < 0 then ''-'' else '''')
         @ (if h > 0 then dec_nat h @ ''h'' else '''')
         @ (if m > 0 then dec_nat (m mod 60) @ ''m'' else '''')
         @ dec_nat (u mod 60) @ ''s'')"

end
