(* ===== verification/Status_Document.thy ===== *)
theory Status_Document
  imports Documents Go_Time
begin

text \<open>
  \<^verbatim>\<open>internal/transport/status.go\<close>: the status document and its JSON form. Its two dates make it the one document whose marshalling can
  fail. It survives the wire as far as its strings are UTF-8 and its zone is a whole number of minutes.
\<close>

record StatusMember =
  sm_Node :: string
  sm_Addr :: string
  sm_Alive :: bool
  sm_Self :: bool
  sm_LastSeq :: int

record Status =
  st_Node :: string
  st_Addr :: string
  st_StartedAt :: Time
  st_Digest :: string
  st_Entries :: int
  st_Tombstones :: int
  st_Blobs :: int
  st_BlobBytes :: int
  st_Head :: int
  st_Conflicts :: "string list"
  st_Members :: "StatusMember list"
  st_MirrorDir :: string
  st_MountPoint :: string
  st_LastSync :: Time
  st_LastError :: string

section \<open>Writing\<close>

definition Member_json :: "StatusMember \<Rightarrow> json" where
  "Member_json m =
     JObj [(''node'', JStr (sm_Node m)), (''addr'', JStr (sm_Addr m)), (''alive'', JBool (sm_Alive m)), (''self'', JBool (sm_Self m)),
           (''last_seq'', JInt (sm_LastSeq m))]"

text \<open>The slices of the document are made by \<^verbatim>\<open>append\<close>, so an empty one is nil and is written as \<^verbatim>\<open>null\<close>.\<close>

definition slice_json :: "('a \<Rightarrow> json) \<Rightarrow> 'a list \<Rightarrow> json" where
  "slice_json f xs = (if xs = [] then JNull else JArr (map f xs))"

definition Status_fields :: "Status \<Rightarrow> string \<Rightarrow> string \<Rightarrow> (bytes \<times> json) list" where
  "Status_fields st started synced =
     [(''node'', JStr (st_Node st)), (''addr'', JStr (st_Addr st)), (''started_at'', JStr started), (''digest'', JStr (st_Digest st)),
      (''entries'', JInt (st_Entries st)), (''tombstones'', JInt (st_Tombstones st)), (''blobs'', JInt (st_Blobs st)),
      (''blob_bytes'', JInt (st_BlobBytes st)), (''head'', JInt (st_Head st)), (''conflicts'', slice_json JStr (st_Conflicts st)),
      (''members'', slice_json Member_json (st_Members st))]
     @ omitempty (st_MirrorDir st = '''') ''mirror_dir'' (JStr (st_MirrorDir st))
     @ omitempty (st_MountPoint st = '''') ''mount_point'' (JStr (st_MountPoint st))
     @ [(''last_sync'', JStr synced)]
     @ omitempty (st_LastError st = '''') ''last_error'' (JStr (st_LastError st))"

definition Status_json :: "Status \<Rightarrow> json option" where
  "Status_json st =
     (case (Time_text (st_StartedAt st), Time_text (st_LastSync st)) of
        (Some started, Some synced) \<Rightarrow> Some (JObj (Status_fields st started synced))
      | _ \<Rightarrow> None)"

section \<open>Reading\<close>

text \<open>A date is read from the text between its quotes, which holds no escapes when this program wrote it.\<close>

definition dec_Time :: "json \<Rightarrow> Time \<Rightarrow> Time option" where
  "dec_Time j old = (case j of JNull \<Rightarrow> Some old | JStr s \<Rightarrow> Time_of s | _ \<Rightarrow> None)"

definition zero_Member :: StatusMember where
  "zero_Member = \<lparr>sm_Node = '''', sm_Addr = '''', sm_Alive = False, sm_Self = False, sm_LastSeq = 0\<rparr>"

definition dec_Member :: "json \<Rightarrow> StatusMember \<Rightarrow> StatusMember option" where
  "dec_Member = dec_struct
     [(''node'', struct_field dec_string sm_Node (\<lambda>x. sm_Node_update (\<lambda>_. x))),
      (''addr'', struct_field dec_string sm_Addr (\<lambda>x. sm_Addr_update (\<lambda>_. x))),
      (''alive'', struct_field dec_bool sm_Alive (\<lambda>x. sm_Alive_update (\<lambda>_. x))),
      (''self'', struct_field dec_bool sm_Self (\<lambda>x. sm_Self_update (\<lambda>_. x))),
      (''last_seq'', struct_field dec_int64 sm_LastSeq (\<lambda>x. sm_LastSeq_update (\<lambda>_. x)))]"

text \<open>The document being decoded: its two slices apart, since they have backing arrays.\<close>

type_synonym status_slot = "string slice \<times> StatusMember slice \<times> Status"

definition status_field ::
  "(json \<Rightarrow> 'b \<Rightarrow> 'b option) \<Rightarrow> (Status \<Rightarrow> 'b) \<Rightarrow> (('b \<Rightarrow> 'b) \<Rightarrow> Status \<Rightarrow> Status) \<Rightarrow> json \<Rightarrow> status_slot \<Rightarrow> status_slot option" where
  "status_field dec sel upd = struct_field dec (\<lambda>(c, m, s). sel s) (\<lambda>x (c, m, s). (c, m, upd (\<lambda>_. x) s))"

definition dec_Status :: "json \<Rightarrow> status_slot \<Rightarrow> status_slot option" where
  "dec_Status = dec_struct
     [(''node'', status_field dec_string st_Node st_Node_update),
      (''addr'', status_field dec_string st_Addr st_Addr_update),
      (''started_at'', status_field dec_Time st_StartedAt st_StartedAt_update),
      (''digest'', status_field dec_string st_Digest st_Digest_update),
      (''entries'', status_field dec_int64 st_Entries st_Entries_update),
      (''tombstones'', status_field dec_int64 st_Tombstones st_Tombstones_update),
      (''blobs'', status_field dec_int64 st_Blobs st_Blobs_update),
      (''blob_bytes'', status_field dec_int64 st_BlobBytes st_BlobBytes_update),
      (''head'', status_field dec_int64 st_Head st_Head_update),
      (''conflicts'', struct_field (dec_slice dec_string '''') fst (\<lambda>x (c, m, s). (x, m, s))),
      (''members'', struct_field (dec_slice dec_Member zero_Member) (\<lambda>(c, m, s). m) (\<lambda>x (c, m, s). (c, x, s))),
      (''mirror_dir'', status_field dec_string st_MirrorDir st_MirrorDir_update),
      (''mount_point'', status_field dec_string st_MountPoint st_MountPoint_update),
      (''last_sync'', status_field dec_Time st_LastSync st_LastSync_update),
      (''last_error'', status_field dec_string st_LastError st_LastError_update)]"

definition zero_status :: status_slot where
  "zero_status =
     (([], 0), ([], 0),
      \<lparr>st_Node = '''', st_Addr = '''', st_StartedAt = zero_Time, st_Digest = '''', st_Entries = 0, st_Tombstones = 0, st_Blobs = 0,
       st_BlobBytes = 0, st_Head = 0, st_Conflicts = [], st_Members = [], st_MirrorDir = '''', st_MountPoint = '''',
       st_LastSync = zero_Time, st_LastError = ''''\<rparr>)"

definition status_of :: "status_slot \<Rightarrow> Status" where
  "status_of = (\<lambda>((c, nc), (m, nm), s). s\<lparr>st_Conflicts := take nc c, st_Members := take nm m\<rparr>)"

section \<open>Round trip\<close>

definition valid_Member :: "StatusMember \<Rightarrow> StatusMember" where
  "valid_Member m = m\<lparr>sm_Node := to_valid (sm_Node m), sm_Addr := to_valid (sm_Addr m)\<rparr>"

definition valid_Status :: "Status \<Rightarrow> Status" where
  "valid_Status st =
     st\<lparr>st_Node := to_valid (st_Node st), st_Addr := to_valid (st_Addr st), st_Digest := to_valid (st_Digest st),
        st_Conflicts := map to_valid (st_Conflicts st), st_Members := map valid_Member (st_Members st),
        st_MirrorDir := to_valid (st_MirrorDir st), st_MountPoint := to_valid (st_MountPoint st), st_LastError := to_valid (st_LastError st)\<rparr>"

text \<open>The numbers of the document are 64 bit numbers, as the fields of the Go structs are.\<close>

definition status64 :: "Status \<Rightarrow> bool" where
  "status64 st \<longleftrightarrow>
     is_int64 (st_Entries st) \<and> is_int64 (st_Tombstones st) \<and> is_int64 (st_Blobs st) \<and> is_int64 (st_BlobBytes st) \<and> is_int64 (st_Head st)
     \<and> list_all (\<lambda>m. is_int64 (sm_LastSeq m)) (st_Members st)"

lemma slice_json_simps [simp]:
  "numbers_ok (slice_json f xs) \<longleftrightarrow> list_all (\<lambda>x. numbers_ok (f x)) xs"
  "valid_json (slice_json f xs) = slice_json (\<lambda>x. valid_json (f x)) xs"
  by (simp_all add: slice_json_def list_all_iff)

lemma dec_slice_json:
  assumes "\<And>x. x \<in> set xs \<Longrightarrow> dec (f x) zero = Some (g x)"
  shows "dec_slice dec zero (slice_json f xs) ([], 0) = Some (map g xs, length xs)"
  using dec_array_map [of xs dec f zero g] assms by (simp add: slice_json_def dec_slice_def)

lemma dec_Member:
  "is_int64 (sm_LastSeq m) \<Longrightarrow> dec_Member (valid_json (Member_json m)) zero_Member = Some (valid_Member m)"
  by (simp add: dec_Member_def Member_json_def to_valid_ascii dec_struct_def struct_field_def zero_Member_def valid_Member_def)

lemma Status_fields_ok: "numbers_ok (JObj (Status_fields st started synced))"
  by (auto simp: Status_fields_def omitempty_def Member_json_def list_all_iff)

theorem Status_round_trip:
  assumes "status64 st" and "Time_text (st_StartedAt st) = Some started" and "Time_of started = Some (st_StartedAt st)"
    and "Time_text (st_LastSync st) = Some synced" and "Time_of synced = Some (st_LastSync st)"
  shows "map_option status_of (Unmarshal dec_Status (print_json (JObj (Status_fields st started synced))) zero_status) = Some (valid_Status st)"
proof -
  have ascii: "to_valid started = started" "to_valid synced = synced"
    using assms(2,4) by (simp_all add: to_valid_ascii Time_text_ascii)
  have c: "dec_slice dec_string [] (slice_json (\<lambda>x. JStr (to_valid x)) (st_Conflicts st)) ([], 0)
      = Some (map to_valid (st_Conflicts st), length (st_Conflicts st))"
    by (rule dec_slice_json) simp
  have m: "dec_slice dec_Member zero_Member (slice_json (\<lambda>m. valid_json (Member_json m)) (st_Members st)) ([], 0)
      = Some (map valid_Member (st_Members st), length (st_Members st))"
    by (rule dec_slice_json) (use assms(1) in \<open>auto simp: dec_Member status64_def list_all_iff\<close>)
  have "map_option status_of (dec_Status (valid_json (JObj (Status_fields st started synced))) zero_status) = Some (valid_Status st)"
    using assms(1,3,5) ascii c m
    by (simp add: dec_Status_def Status_fields_def omitempty_def zero_status_def dec_struct_def status_field_def struct_field_def
        to_valid_ascii dec_Time_def status64_def status_of_def valid_Status_def)
  then show ?thesis by (simp only: Unmarshal_print [OF Status_fields_ok])
qed

end
