(* ===== verification/Aes_Gcm.thy ===== *)
theory Aes_Gcm
  imports Sha256
begin

text \<open>
  \<^verbatim>\<open>crypto/aes\<close> and \<^verbatim>\<open>cipher.NewGCM\<close>, the authenticated encryption every response body is sealed with: the AES block
  cipher of FIPS 197 for the three key sizes and the Galois counter mode of NIST SP 800-38D with nonces of twelve bytes, tags
  of sixteen and no additional data. That opening inverts sealing needs of the block cipher only the length of its
  blocks, which is the interface \<open>block_cipher\<close>. The theory \<open>Aes_Vectors\<close> evaluates published test vectors. The limit of
  64 GiB on a message is left out.
\<close>

section \<open>AES\<close>

definition sbox :: "int list list" where
  "sbox =
    [
      [99, 124, 119, 123, 242, 107, 111, 197, 48, 1, 103, 43, 254, 215, 171, 118],
      [202, 130, 201, 125, 250, 89, 71, 240, 173, 212, 162, 175, 156, 164, 114, 192],
      [183, 253, 147, 38, 54, 63, 247, 204, 52, 165, 229, 241, 113, 216, 49, 21],
      [4, 199, 35, 195, 24, 150, 5, 154, 7, 18, 128, 226, 235, 39, 178, 117],
      [9, 131, 44, 26, 27, 110, 90, 160, 82, 59, 214, 179, 41, 227, 47, 132],
      [83, 209, 0, 237, 32, 252, 177, 91, 106, 203, 190, 57, 74, 76, 88, 207],
      [208, 239, 170, 251, 67, 77, 51, 133, 69, 249, 2, 127, 80, 60, 159, 168],
      [81, 163, 64, 143, 146, 157, 56, 245, 188, 182, 218, 33, 16, 255, 243, 210],
      [205, 12, 19, 236, 95, 151, 68, 23, 196, 167, 126, 61, 100, 93, 25, 115],
      [96, 129, 79, 220, 34, 42, 144, 136, 70, 238, 184, 20, 222, 94, 11, 219],
      [224, 50, 58, 10, 73, 6, 36, 92, 194, 211, 172, 98, 145, 149, 228, 121],
      [231, 200, 55, 109, 141, 213, 78, 169, 108, 86, 244, 234, 101, 122, 174, 8],
      [186, 120, 37, 46, 28, 166, 180, 198, 232, 221, 116, 31, 75, 189, 139, 138],
      [112, 62, 181, 102, 72, 3, 246, 14, 97, 53, 87, 185, 134, 193, 29, 158],
      [225, 248, 152, 17, 105, 217, 142, 148, 155, 30, 135, 233, 206, 85, 40, 223],
      [140, 161, 137, 13, 191, 230, 66, 104, 65, 153, 45, 15, 176, 84, 187, 22]]"

definition sub_byte :: "int \<Rightarrow> int" where
  "sub_byte b = sbox ! nat (b div 16) ! nat (b mod 16)"

definition xtime :: "int \<Rightarrow> int" where
  "xtime b = (if b < 128 then 2 * b else (2 * b - 256) XOR 0x1B)"

text \<open>The state is the list of its sixteen bytes, column by column.\<close>

definition ShiftRows :: "int list \<Rightarrow> int list" where
  "ShiftRows s = map (\<lambda>i. s ! i) [0, 5, 10, 15, 4, 9, 14, 3, 8, 13, 2, 7, 12, 1, 6, 11]"

fun chunks :: "nat \<Rightarrow> nat \<Rightarrow> 'a list \<Rightarrow> 'a list list" where
  "chunks n 0 xs = []"
| "chunks n (Suc k) xs = take n xs # chunks n k (drop n xs)"

fun mix_column :: "int list \<Rightarrow> int list" where
  "mix_column [a, b, c, d] =
     (let t = a XOR b XOR c XOR d
      in [a XOR t XOR xtime (a XOR b), b XOR t XOR xtime (b XOR c), c XOR t XOR xtime (c XOR d), d XOR t XOR xtime (d XOR a)])"
| "mix_column s = s"

definition MixColumns :: "int list \<Rightarrow> int list" where
  "MixColumns s = concat (map mix_column (chunks 4 4 s))"

definition AddRoundKey :: "int list \<Rightarrow> int list \<Rightarrow> int list" where
  "AddRoundKey s k = map (\<lambda>i. s ! i XOR k ! i) [0..<16]"

definition aes_round :: "int list \<Rightarrow> int list \<Rightarrow> int list" where
  "aes_round k s = AddRoundKey (MixColumns (ShiftRows (map sub_byte s))) k"

text \<open>The key schedule: words of four bytes, the first ones of the key.\<close>

definition rcon :: "nat \<Rightarrow> int" where
  "rcon n = (xtime ^^ (n - 1)) 1"

definition next_word :: "nat \<Rightarrow> int list list \<Rightarrow> int list" where
  "next_word nk ws =
     (let i = length ws; t = last ws;
          t' = (if i mod nk = 0 then map2 (XOR) (map sub_byte (rotate1 t)) [rcon (i div nk), 0, 0, 0]
                else if nk > 6 \<and> i mod nk = 4 then map sub_byte t
                else t)
      in map2 (XOR) (ws ! (i - nk)) t')"

fun expand_words :: "nat \<Rightarrow> nat \<Rightarrow> int list list \<Rightarrow> int list list" where
  "expand_words nk 0 ws = ws"
| "expand_words nk (Suc n) ws = expand_words nk n (ws @ [next_word nk ws])"

definition round_keys :: "int list \<Rightarrow> int list list" where
  "round_keys key =
     (let nk = length key div 4
      in chunks 16 (nk + 7) (concat (expand_words nk (4 * (nk + 7) - nk) (chunks 4 nk key))))"

definition aes_block :: "int list \<Rightarrow> int list \<Rightarrow> int list" where
  "aes_block key blk =
     (let ks = round_keys key; n = length ks - 1;
          s = fold aes_round (take (n - 1) (tl ks)) (AddRoundKey blk (hd ks))
      in AddRoundKey (ShiftRows (map sub_byte s)) (ks ! n))"

definition of_bytes :: "bytes \<Rightarrow> int list" where
  "of_bytes = map of_char"

definition to_bytes :: "int list \<Rightarrow> bytes" where
  "to_bytes = map char_of"

definition aes_encrypt :: "bytes \<Rightarrow> bytes \<Rightarrow> bytes" where
  "aes_encrypt key blk = to_bytes (aes_block (of_bytes key) (of_bytes blk))"

lemma length_aes_encrypt [simp]: "length (aes_encrypt key blk) = 16"
  by (simp add: aes_encrypt_def to_bytes_def aes_block_def AddRoundKey_def Let_def)

section \<open>Galois counter mode\<close>

text \<open>\<open>enc\<close> is the block cipher under the key.\<close>

definition xor_bytes :: "bytes \<Rightarrow> bytes \<Rightarrow> bytes" where
  "xor_bytes xs ys = map2 (\<lambda>x y. char_of ((of_char x :: int) XOR of_char y)) xs ys"

text \<open>Counter mode: the key stream is the cipher of the nonce and a 32 bit counter.\<close>

function ctr :: "(bytes \<Rightarrow> bytes) \<Rightarrow> bytes \<Rightarrow> uint32 \<Rightarrow> bytes \<Rightarrow> bytes" where
  "ctr enc nonce i s =
     (if s = [] then []
      else xor_bytes (take 16 s) (enc (nonce @ word_bytes i)) @ ctr enc nonce (i + 1) (drop 16 s))"
  by pat_completeness auto

termination ctr
  by (relation "measure (\<lambda>(enc, nonce, i, s). length s)") auto

declare ctr.simps [simp del]

text \<open>A block is a number of 128 bits whose highest bit is the coefficient of the lowest degree.\<close>

definition block_int :: "bytes \<Rightarrow> int" where
  "block_int b = foldl (\<lambda>w c. 256 * w + of_char c) 0 b"

fun int_block :: "nat \<Rightarrow> int \<Rightarrow> bytes" where
  "int_block 0 w = []"
| "int_block (Suc n) w = int_block n (w div 256) @ [char_of w]"

text \<open>Multiplication, one bit of \<open>x\<close> at a time: \<open>z\<close> is the sum so far, \<open>v\<close> the other factor times a power of the variable.\<close>

fun gf_loop :: "nat \<Rightarrow> int \<Rightarrow> int \<Rightarrow> int \<Rightarrow> int" where
  "gf_loop 0 x z v = z"
| "gf_loop (Suc n) x z v =
     (let top = 0x80000000000000000000000000000000;
          v' = (if v mod 2 = 0 then v div 2 else (v div 2) XOR 0xE1000000000000000000000000000000)
      in if top \<le> x then gf_loop n (2 * (x - top)) (z XOR v) v' else gf_loop n (2 * x) z v')"

definition gf_mul :: "int \<Rightarrow> int \<Rightarrow> int" where
  "gf_mul x y = gf_loop 128 x 0 y"

definition pad16 :: "bytes \<Rightarrow> bytes" where
  "pad16 b = b @ replicate (16 - length b) (CHR 0x00)"

function ghash :: "int \<Rightarrow> int \<Rightarrow> bytes \<Rightarrow> int" where
  "ghash h y s =
     (if s = [] then y else ghash h (gf_mul (y XOR block_int (pad16 (take 16 s))) h) (drop 16 s))"
  by pat_completeness auto

termination ghash
  by (relation "measure (\<lambda>(h, y, s). length s)") auto

declare ghash.simps [simp del]

definition gcm_tag :: "(bytes \<Rightarrow> bytes) \<Rightarrow> bytes \<Rightarrow> bytes \<Rightarrow> bytes" where
  "gcm_tag enc nonce ciphertext =
     (let h = block_int (enc (replicate 16 (CHR 0x00)));
          y = ghash h 0 ciphertext;
          s = gf_mul (y XOR int (8 * length ciphertext)) h
      in xor_bytes (int_block 16 s) (enc (nonce @ word_bytes 1)))"

definition gcm_Seal :: "(bytes \<Rightarrow> bytes) \<Rightarrow> bytes \<Rightarrow> bytes \<Rightarrow> bytes" where
  "gcm_Seal enc nonce plaintext =
     (let c = ctr enc nonce 2 plaintext in c @ gcm_tag enc nonce c)"

definition gcm_Open :: "(bytes \<Rightarrow> bytes) \<Rightarrow> bytes \<Rightarrow> bytes \<Rightarrow> bytes option" where
  "gcm_Open enc nonce sealed =
     (if length sealed < 16 then None
      else
        let n = length sealed - 16; c = take n sealed
        in if gcm_tag enc nonce c \<noteq> drop n sealed then None else Some (ctr enc nonce 2 c))"

lemma char_xor_twice: "char_of ((of_char (char_of ((of_char x :: int) XOR of_char y)) :: int) XOR of_char y) = x"
proof -
  have "take_bit 8 (of_char x :: int) = of_char x" "take_bit 8 (of_char y :: int) = of_char y"
    by (simp_all add: take_bit_eq_mod)
  then have "take_bit 8 ((of_char x :: int) XOR of_char y) = of_char x XOR of_char y" by (simp add: take_bit_xor)
  then have "(of_char (char_of ((of_char x :: int) XOR of_char y)) :: int) = of_char x XOR of_char y"
    by (simp add: take_bit_eq_mod)
  then show ?thesis by (simp add: xor.assoc)
qed

lemma length_xor_bytes [simp]: "length (xor_bytes xs ys) = min (length xs) (length ys)"
  by (simp add: xor_bytes_def)

lemma xor_bytes_twice: "length xs \<le> length ys \<Longrightarrow> xor_bytes (xor_bytes xs ys) ys = xs"
  by (induction xs ys rule: list_induct2') (simp_all add: xor_bytes_def char_xor_twice del: of_char_of)

lemma length_int_block [simp]: "length (int_block n w) = n"
  by (induction n arbitrary: w) simp_all

locale block_cipher =
  fixes enc :: "bytes \<Rightarrow> bytes"
  assumes block: "length (enc b) = 16"
begin

lemma length_ctr: "length (ctr enc nonce i s) = length s"
proof (induction "length s" arbitrary: s i rule: less_induct)
  case less
  have "length (ctr enc nonce (i + 1) (drop 16 s)) = length s - 16" if "s \<noteq> []" using less [of "drop 16 s"] that by simp
  then show ?case by (cases "s = []") (simp_all add: ctr.simps [of enc nonce i] block)
qed

lemma ctr_twice: "ctr enc nonce i (ctr enc nonce i s) = s"
proof (induction "length s" arbitrary: s i rule: less_induct)
  case less
  show ?case
  proof (cases "s = []")
    case False
    let ?k = "enc (nonce @ word_bytes i)" and ?rest = "ctr enc nonce (i + 1) (drop 16 s)"
    have c: "ctr enc nonce i s = xor_bytes (take 16 s) ?k @ ?rest" using False by (subst ctr.simps) simp
    have head: "take 16 (ctr enc nonce i s) = xor_bytes (take 16 s) ?k" and tail: "drop 16 (ctr enc nonce i s) = ?rest"
      using length_ctr [of nonce "i + 1" "drop 16 s"] by (cases "length s < 16"; simp add: c block)+
    have "xor_bytes (xor_bytes (take 16 s) ?k) ?k = take 16 s" by (rule xor_bytes_twice) (simp add: block)
    moreover have "ctr enc nonce (i + 1) ?rest = drop 16 s" by (rule less) (use False in simp)
    moreover have "ctr enc nonce i s \<noteq> []" using False length_ctr [of nonce i s] by auto
    ultimately show ?thesis by (subst ctr.simps) (simp add: head tail)
  qed (simp add: ctr.simps)
qed

lemma length_gcm_tag: "length (gcm_tag enc nonce c) = 16"
  by (simp add: gcm_tag_def Let_def block)

lemma length_gcm_Seal: "length (gcm_Seal enc nonce s) = length s + 16"
  by (simp add: gcm_Seal_def Let_def length_ctr length_gcm_tag)

lemma gcm_Open_Seal: "gcm_Open enc nonce (gcm_Seal enc nonce s) = Some s"
  by (simp add: gcm_Open_def gcm_Seal_def Let_def length_ctr length_gcm_tag ctr_twice)

text \<open>What opens was sealed: nothing but the sealed form of a text is accepted under a nonce.\<close>

lemma gcm_Open_Some: "gcm_Open enc nonce c = Some s \<longleftrightarrow> c = gcm_Seal enc nonce s"
proof
  assume a: "gcm_Open enc nonce c = Some s"
  let ?n = "length c - 16"
  have tag: "gcm_tag enc nonce (take ?n c) = drop ?n c" and s: "s = ctr enc nonce 2 (take ?n c)"
    using a by (auto simp: gcm_Open_def Let_def split: if_splits)
  then show "c = gcm_Seal enc nonce s" by (simp add: gcm_Seal_def Let_def ctr_twice)
qed (simp add: gcm_Open_Seal)

end

interpretation aes: block_cipher "aes_encrypt key" for key
  by unfold_locales simp

end
