(* ===== verification/Transport.thy ===== *)
theory Transport
  imports Status_Document Core_Keys Aes_Gcm
begin

text \<open>
  \<^verbatim>\<open>internal/transport\<close>: signed requests, sealed bodies, the server's handlers over a store and the client.
  The random nonces, the clock and the network are arguments. A request
  is its method, path, the \<^verbatim>\<open>since\<close> parameter and the Authorization header, which is all the handlers read.
\<close>

section \<open>Signed requests\<close>

definition AuthScheme :: string where
  "AuthScheme = ''DCFS1''"

definition MaxSkew :: int where
  "MaxSkew = 5 * 60 * 1000000000"

record Request =
  rq_Method :: string
  rq_Path :: string
  rq_Since :: "string option"
  rq_Authorization :: string

definition RequestURI :: "Request \<Rightarrow> string" where
  "RequestURI r = rq_Path r @ (case rq_Since r of None \<Rightarrow> '''' | Some v \<Rightarrow> ''?since='' @ v)"

definition signed_text :: "string \<Rightarrow> string \<Rightarrow> string \<Rightarrow> int \<Rightarrow> string \<Rightarrow> string" where
  "signed_text method pathWithQuery node unixNano nonce =
     join_on (CHR 0x0A) [method, pathWithQuery, node, dec_int unixNano, nonce]"

definition sign :: "bytes \<Rightarrow> string \<Rightarrow> string \<Rightarrow> string \<Rightarrow> int \<Rightarrow> string \<Rightarrow> string" where
  "sign key method pathWithQuery node unixNano nonce =
     b64_encode (hmac key (signed_text method pathWithQuery node unixNano nonce))"

text \<open>\<open>nonceBytes\<close> are the twelve random bytes, None when the source of randomness fails.\<close>

definition authorize ::
  "bytes \<Rightarrow> string \<Rightarrow> string \<Rightarrow> string \<Rightarrow> int \<Rightarrow> bytes option \<Rightarrow> err + string" where
  "authorize key method pathWithQuery node now nonceBytes =
     (case nonceBytes of
        None \<Rightarrow> Inl ErrInvalid
      | Some bs \<Rightarrow>
          let nonce = hex_encode bs;
              sig = sign key method pathWithQuery node now nonce
          in Inr (AuthScheme @ '' '' @ join_on CHR '':'' [node, dec_int now, nonce, sig]))"

definition verify :: "bytes \<Rightarrow> int \<Rightarrow> Request \<Rightarrow> err + string" where
  "verify key now r =
     (case Cut CHR '' '' (rq_Authorization r) of
        None \<Rightarrow> Inl ErrUnauthorized
      | Some (scheme, rest) \<Rightarrow>
          if scheme \<noteq> AuthScheme then Inl ErrUnauthorized
          else case split_on CHR '':'' rest of
            [node, tsRaw, nonce, gotSig] \<Rightarrow>
              if node = '''' \<or> nonce = '''' then Inl ErrUnauthorized
              else (case ParseInt tsRaw of
                      None \<Rightarrow> Inl ErrUnauthorized
                    | Some ts \<Rightarrow>
                        let skew = time_Since now ts in
                        if skew > MaxSkew \<or> skew < - MaxSkew then Inl ErrUnauthorized
                        else if sign key (rq_Method r) (RequestURI r) node ts nonce \<noteq> gotSig
                        then Inl ErrUnauthorized
                        else Inr node)
          | _ \<Rightarrow> Inl ErrUnauthorized)"

section \<open>Sealed bodies\<close>

definition NonceSize :: nat where
  "NonceSize = 12"

text \<open>\<^verbatim>\<open>aes.NewCipher\<close> accepts keys of 16, 24 or 32 bytes.\<close>

definition newGCM :: "bytes \<Rightarrow> bool" where
  "newGCM key \<longleftrightarrow> length key \<in> {16, 24, 32}"

definition seal :: "bytes \<Rightarrow> bytes option \<Rightarrow> bytes \<Rightarrow> err + bytes" where
  "seal key nonce plaintext =
     (if \<not> newGCM key then Inl ErrInvalid
      else case nonce of
        None \<Rightarrow> Inl ErrInvalid
      | Some n \<Rightarrow> Inr (n @ gcm_Seal (aes_encrypt key) n plaintext))"

definition open_sealed :: "bytes \<Rightarrow> bytes \<Rightarrow> err + bytes" where
  "open_sealed key payload =
     (if \<not> newGCM key then Inl ErrInvalid
      else if length payload < NonceSize then Inl ErrSeal
      else case gcm_Open (aes_encrypt key) (take NonceSize payload) (drop NonceSize payload) of
        None \<Rightarrow> Inl ErrSeal
      | Some plaintext \<Rightarrow> Inr plaintext)"

section \<open>The server\<close>

definition MaxManifestPage :: nat where
  "MaxManifestPage = 2000"

record Response =
  rs_Status :: nat
  rs_Body :: bytes

text \<open>A request's random nonce and the cluster keys.\<close>

record Server =
  sv_keys :: Keys
  sv_nonce :: "bytes option"

definition parseSeq :: "string \<Rightarrow> int" where
  "parseSeq raw = (case ParseInt raw of None \<Rightarrow> 0 | Some n \<Rightarrow> if n < 0 then 0 else n)"

text \<open>\<^verbatim>\<open>http.Error\<close> ends the message with a newline.\<close>

definition http_Error :: "string \<Rightarrow> nat \<Rightarrow> Response" where
  "http_Error msg code = \<lparr>rs_Status = code, rs_Body = msg @ [CHR 0x0A]\<rparr>"

definition fail :: Response where
  "fail = http_Error ''internal error'' 500"

definition sealedBytes :: "Server \<Rightarrow> bytes \<Rightarrow> Response" where
  "sealedBytes sv body =
     (case seal (Blob_key (sv_keys sv)) (sv_nonce sv) body of
        Inl e \<Rightarrow> fail
      | Inr payload \<Rightarrow> \<lparr>rs_Status = 200, rs_Body = payload\<rparr>)"

text \<open>The document is what \<^verbatim>\<open>json.Marshal\<close> makes of it, None when that fails.\<close>

definition sealed :: "Server \<Rightarrow> json option \<Rightarrow> Response" where
  "sealed sv v = (case v of None \<Rightarrow> fail | Some j \<Rightarrow> sealedBytes sv (print_json j))"

definition getDigest :: "Server \<Rightarrow> dbfault \<Rightarrow> Store \<Rightarrow> Response" where
  "getDigest sv flt st =
     (case Digest flt st of
        Inl e \<Rightarrow> fail
      | Inr (digest, n, head) \<Rightarrow>
          sealed sv (Some (Digest_json \<lparr>dr_Digest = digest, dr_Entries = n, dr_Head = head\<rparr>)))"

text \<open>The page a request for \<^verbatim>\<open>since\<close> is answered with.\<close>

definition manifest_page :: "dbfault \<Rightarrow> Store \<Rightarrow> int \<Rightarrow> err + ManifestResponse" where
  "manifest_page flt st since =
     (case ManifestSince flt st since (MaxManifestPage + 1) of
        Inl e \<Rightarrow> Inl e
      | Inr es \<Rightarrow>
          let resp = \<lparr>mr_Entries = [], mr_Head = since, mr_More = False\<rparr>;
              (es, more) = (if length es > MaxManifestPage then (take MaxManifestPage es, True) else (es, False));
              resp = resp\<lparr>mr_Entries := es, mr_More := more\<rparr>
          in Inr (if length es > 0 then resp\<lparr>mr_Head := Seq (es ! (length es - 1))\<rparr> else resp))"

definition getManifest :: "Server \<Rightarrow> dbfault \<Rightarrow> Store \<Rightarrow> Request \<Rightarrow> Response" where
  "getManifest sv flt st r =
     (case manifest_page flt st (parseSeq (case rq_Since r of None \<Rightarrow> '''' | Some v \<Rightarrow> v)) of
        Inl e \<Rightarrow> fail
      | Inr resp \<Rightarrow> sealed sv (Some (Manifest_json resp)))"

definition getBlob :: "Server \<Rightarrow> dbfault \<Rightarrow> Store \<Rightarrow> string \<Rightarrow> Response" where
  "getBlob sv flt st hash =
     (if length hash \<noteq> 64 then http_Error ''bad hash'' 400
      else if \<not> hex_decodes hash then http_Error ''bad hash'' 400
      else case Blob flt st hash of
        Inl e \<Rightarrow> http_Error ''not found'' 404
      | Inr content \<Rightarrow> sealedBytes sv content)"

definition getStatus :: "Server \<Rightarrow> (err + Status) \<Rightarrow> Response" where
  "getStatus sv status = (case status of Inl e \<Rightarrow> fail | Inr st \<Rightarrow> sealed sv (Status_json st))"

datatype route = RHealth | RDigest | RManifest | RBlob string | RStatus

definition route_of :: "string \<Rightarrow> route option" where
  "route_of p =
     (if p = ''/healthz'' then Some RHealth
      else if p = ''/v1/digest'' then Some RDigest
      else if p = ''/v1/manifest'' then Some RManifest
      else if p = ''/v1/status'' then Some RStatus
      else if HasPrefix p ''/v1/blob/'' \<and> drop 9 p \<noteq> '''' \<and> CHR ''/'' \<notin> set (drop 9 p)
      then Some (RBlob (drop 9 p))
      else None)"

text \<open>
  \<^verbatim>\<open>Handler\<close>: every route but the health check is behind \<^verbatim>\<open>authenticate\<close>. \<open>status\<close> is what the function returns that
  assembles the status document.
\<close>

definition Handler ::
  "Server \<Rightarrow> int \<Rightarrow> dbfault \<Rightarrow> Store \<Rightarrow> (err + Status) \<Rightarrow> Request \<Rightarrow> Response" where
  "Handler sv now flt st status r =
     (case route_of (rq_Path r) of
        None \<Rightarrow> http_Error ''404 page not found'' 404
      | Some rt \<Rightarrow>
          if rq_Method r \<noteq> ''GET'' then \<lparr>rs_Status = 405, rs_Body = ''''\<rparr>
          else if rt = RHealth then \<lparr>rs_Status = 200, rs_Body = ''ok'' @ [CHR 0x0A]\<rparr>
          else case verify (API (sv_keys sv)) now r of
            Inl e \<Rightarrow> http_Error ''unauthorized'' 401
          | Inr node \<Rightarrow>
              (case rt of
                 RHealth \<Rightarrow> \<lparr>rs_Status = 200, rs_Body = ''ok'' @ [CHR 0x0A]\<rparr>
               | RDigest \<Rightarrow> getDigest sv flt st
               | RManifest \<Rightarrow> getManifest sv flt st r
               | RBlob hash \<Rightarrow> getBlob sv flt st hash
               | RStatus \<Rightarrow> getStatus sv status))"

text \<open>
  \<^verbatim>\<open>Serve\<close> ends when listening does, with its error unless that is \<^verbatim>\<open>http.ErrServerClosed\<close>, or when the context is cancelled, with an error if shutting down
  takes longer than five seconds.
\<close>

datatype serve_end = ListenEnded "err option" bool | ContextDone bool

fun Serve_api :: "serve_end \<Rightarrow> err option" where
  "Serve_api (ListenEnded e serverClosed) = (if serverClosed then None else e)"
| "Serve_api (ContextDone shutdownFails) = (if shutdownFails then Some ErrInvalid else None)"

section \<open>The client\<close>

record Client =
  cl_keys :: Keys
  cl_node :: string
  cl_maxBody :: int

definition NewClient :: "string \<Rightarrow> Keys \<Rightarrow> int \<Rightarrow> Client" where
  "NewClient node keys maxBody = \<lparr>cl_keys = keys, cl_node = node, cl_maxBody = maxBody\<rparr>"

text \<open>
  \<^verbatim>\<open>Client.get\<close>. \<open>net\<close> is the network: what comes back for a request sent to an address, or an error of
  \<^verbatim>\<open>http.Client.Do\<close>.
\<close>

definition get ::
  "Client \<Rightarrow> (string \<Rightarrow> Request \<Rightarrow> err + Response) \<Rightarrow> int \<Rightarrow> bytes option
   \<Rightarrow> string \<Rightarrow> string \<Rightarrow> string option \<Rightarrow> err + bytes" where
  "get c net now nonceBytes addr path since =
     (let req = \<lparr>rq_Method = ''GET'', rq_Path = path, rq_Since = since, rq_Authorization = ''''\<rparr> in
      case authorize (API (cl_keys c)) ''GET'' (RequestURI req) (cl_node c) now nonceBytes of
        Inl e \<Rightarrow> Inl e
      | Inr auth \<Rightarrow>
          (case net addr (req\<lparr>rq_Authorization := auth\<rparr>) of
             Inl e \<Rightarrow> Inl e
           | Inr resp \<Rightarrow>
               if rs_Status resp = 404 then Inl ErrPeerNotFound
               else if rs_Status resp \<noteq> 200 then Inl ErrPeer
               else if int (length (rs_Body resp)) > cl_maxBody c then Inl ErrPeer
               else open_sealed (Blob_key (cl_keys c)) (rs_Body resp)))"

definition getJSON ::
  "(json \<Rightarrow> 'a \<Rightarrow> 'a option) \<Rightarrow> Client \<Rightarrow> (string \<Rightarrow> Request \<Rightarrow> err + Response) \<Rightarrow> int \<Rightarrow> bytes option
   \<Rightarrow> string \<Rightarrow> string \<Rightarrow> string option \<Rightarrow> 'a \<Rightarrow> err + 'a" where
  "getJSON dec c net now nonceBytes addr path since out =
     (case get c net now nonceBytes addr path since of
        Inl e \<Rightarrow> Inl e
      | Inr body \<Rightarrow> (case Unmarshal dec body out of None \<Rightarrow> Inl ErrPeer | Some v \<Rightarrow> Inr v))"

definition Client_Digest ::
  "Client \<Rightarrow> (string \<Rightarrow> Request \<Rightarrow> err + Response) \<Rightarrow> int \<Rightarrow> bytes option \<Rightarrow> string \<Rightarrow> err + DigestResponse" where
  "Client_Digest c net now nonceBytes addr =
     getJSON dec_Digest c net now nonceBytes addr ''/v1/digest'' None zero_Digest"

definition Client_Manifest ::
  "Client \<Rightarrow> (string \<Rightarrow> Request \<Rightarrow> err + Response) \<Rightarrow> int \<Rightarrow> bytes option \<Rightarrow> string \<Rightarrow> int
   \<Rightarrow> err + ManifestResponse" where
  "Client_Manifest c net now nonceBytes addr since =
     map_sum id page_of (getJSON dec_page c net now nonceBytes addr ''/v1/manifest'' (Some (dec_int since)) zero_page)"

definition Client_Status ::
  "Client \<Rightarrow> (string \<Rightarrow> Request \<Rightarrow> err + Response) \<Rightarrow> int \<Rightarrow> bytes option \<Rightarrow> string \<Rightarrow> err + Status" where
  "Client_Status c net now nonceBytes addr =
     map_sum id status_of (getJSON dec_Status c net now nonceBytes addr ''/v1/status'' None zero_status)"

definition Client_Blob ::
  "Client \<Rightarrow> (string \<Rightarrow> Request \<Rightarrow> err + Response) \<Rightarrow> int \<Rightarrow> bytes option \<Rightarrow> string \<Rightarrow> string \<Rightarrow> err + bytes" where
  "Client_Blob c net now nonceBytes addr hash =
     (case get c net now nonceBytes addr (''/v1/blob/'' @ hash) None of
        Inl e \<Rightarrow> Inl e
      | Inr body \<Rightarrow> if HashContent body \<noteq> hash then Inl ErrPeer else Inr body)"

text \<open>The client as the interface the syncer uses.\<close>

definition http_client ::
  "Client \<Rightarrow> (string \<Rightarrow> Request \<Rightarrow> err + Response) \<Rightarrow> int \<Rightarrow> bytes option \<Rightarrow> PeerClient" where
  "http_client c net now nonceBytes =
     \<lparr>pc_Digest = Client_Digest c net now nonceBytes,
      pc_Manifest = Client_Manifest c net now nonceBytes,
      pc_Blob = Client_Blob c net now nonceBytes\<rparr>"

interpretation http_client: verifying_client "http_client c net now nonceBytes" for c net now nonceBytes
  by unfold_locales (auto simp: http_client_def Client_Blob_def split: sum.splits if_splits)

end
