(* ===== verification/Store_Digest.thy ===== *)
theory Store_Digest
  imports Store
begin

text \<open>
  The digest two nodes compare before they exchange anything (\<^verbatim>\<open>Store.Digest\<close>): the text it hashes
  determines the tree, and the head it reports is compared with the feed counter.
\<close>

section \<open>The digest text determines the tree\<close>

definition digest_fields ::
  "Meta \<Rightarrow> string \<times> Kind \<times> string \<times> uint32 \<times> uint32 \<times> uint32 \<times> Version \<times> bool" where
  "digest_fields m = (Path m, Kind m, Hash m, Mode m, UID m, GID m, Ver m, Deleted m)"

definition no_NUL :: "Meta \<Rightarrow> bool" where
  "no_NUL m \<longleftrightarrow>
     CHR 0x00 \<notin> set (Path m) \<and> CHR 0x00 \<notin> set (Hash m) \<and> CHR 0x00 \<notin> set (Origin (Ver m))"

lemma dec_nat_no_NUL [simp]: "CHR 0x00 \<notin> set (dec_nat n)"
  using dec_int_chars(1) [of "int n"] by (simp add: dec_int_def)

lemma append_sep_eq:
  "c \<notin> set a \<Longrightarrow> c \<notin> set b \<Longrightarrow> a @ c # x = b @ c # y \<longleftrightarrow> a = b \<and> x = y"
proof (induction a arbitrary: b)
  case Nil
  then show ?case by (cases b) auto
next
  case (Cons u a)
  then show ?case by (cases b) auto
qed

lemma bool_text_eq:
  "bool_text a @ CHR 0x0A # x = bool_text b @ CHR 0x0A # y \<longleftrightarrow> a = b \<and> x = y"
  by (simp add: bool_text_def)

lemma dec_nat_unat_eq [simp]: "dec_nat (unat v) = dec_nat (unat w) \<longleftrightarrow> v = (w :: 'a::len word)"
  by (auto dest!: dec_nat_inj simp: word_unat_eq_iff)

lemma digest_line_eq:
  assumes "no_NUL m" and "no_NUL n"
  shows "digest_line m @ x = digest_line n @ y \<longleftrightarrow> digest_fields m = digest_fields n \<and> x = y"
proof -
  have ver: "Ver m = Ver n \<longleftrightarrow> Wall (HLC (Ver m)) = Wall (HLC (Ver n))
      \<and> Counter (HLC (Ver m)) = Counter (HLC (Ver n)) \<and> Origin (Ver m) = Origin (Ver n)"
    by (metis Timestamp.expand Version.expand)
  have dec: "dec_int i = dec_int j \<longleftrightarrow> i = j" for i j
    by (auto dest: dec_int_inj)
  show ?thesis
    using assms unfolding digest_line_def digest_fields_def no_NUL_def
    by (simp add: append_sep_eq dec_int_chars bool_text_eq ver dec)
qed

lemma digest_text_eq:
  assumes "list_all no_NUL ms" and "list_all no_NUL ns"
  shows "digest_text ms = digest_text ns \<longleftrightarrow> map digest_fields ms = map digest_fields ns"
  using assms
proof (induction ms arbitrary: ns)
  case Nil
  then show ?case by (cases ns) (auto simp: digest_text_def digest_line_def)
next
  case (Cons m ms)
  show ?case
  proof (cases ns)
    case Nil
    then show ?thesis by (auto simp: digest_text_def digest_line_def)
  next
    case (Cons n ns')
    then show ?thesis
      using Cons.prems Cons.IH [of ns'] digest_line_eq [of m n] by (simp add: digest_text_def)
  qed
qed

lemma All_entries_rows:
  assumes "All_entries flt st = Inr ms"
  shows "set ms = meta ` set (entries st)" and "sorted (map Path ms)"
proof -
  have "ms = map meta (sort_key r_path (entries st))"
    using assms by (simp add: All_entries_def split: if_splits)
  then show "set ms = meta ` set (entries st)" "sorted (map Path ms)"
    by (simp_all add: comp_def)
qed

lemma same_fields_same_tree:
  assumes "store_inv st" and "store_inv st'"
    and "digest_fields ` meta ` set (entries st) = digest_fields ` meta ` set (entries st')"
  shows "map_option digest_fields (tree st p) = map_option digest_fields (tree st' p)"
proof -
  have one: "map_option digest_fields (tree a p) = Some f \<Longrightarrow> map_option digest_fields (tree b p) = Some f"
    if inv: "store_inv a" "store_inv b"
      and sub: "digest_fields ` meta ` set (entries a) \<subseteq> digest_fields ` meta ` set (entries b)" for a b f
  proof -
    assume "map_option digest_fields (tree a p) = Some f"
    then obtain r where r: "r \<in> set (entries a)" "r_path r = p" "f = digest_fields (meta r)"
      using tree_iff_rows [OF inv(1)] by (auto simp: digest_fields_def)
    have "f \<in> digest_fields ` meta ` set (entries b)"
      unfolding r(3) by (rule subsetD [OF sub]) (intro imageI r(1))
    then obtain r' where r': "r' \<in> set (entries b)" "digest_fields (meta r') = f"
      by (auto simp only: image_iff)
    then have "r_path r' = p"
      using r by (auto simp: digest_fields_def)
    then have "tree b p = Some (replicated (meta r'))"
      using tree_iff_rows [OF inv(2)] r'(1) by blast
    with r'(2) show ?thesis by (simp add: digest_fields_def)
  qed
  have "map_option digest_fields (tree st p) = Some f \<longleftrightarrow> map_option digest_fields (tree st' p) = Some f" for f
    using one [OF assms(1,2)] one [OF assms(2,1)] assms(3) by blast
  then show ?thesis by (rule option_eqI)
qed

lemma same_tree_same_fields:
  assumes "store_inv st" and "store_inv st'"
    and "\<And>p. map_option digest_fields (tree st p) = map_option digest_fields (tree st' p)"
  shows "digest_fields ` meta ` set (entries st) \<subseteq> digest_fields ` meta ` set (entries st')"
proof (rule subsetI, elim imageE)
  fix f m r
  assume r: "r \<in> set (entries st)" "m = meta r" "f = digest_fields m"
  then have "tree st (r_path r) = Some (replicated (meta r))"
    using tree_iff_rows [OF assms(1)] by blast
  then obtain m' where m': "tree st' (r_path r) = Some m'"
    and f: "digest_fields m' = digest_fields (replicated (meta r))"
    using assms(3) [of "r_path r"] by (cases "tree st' (r_path r)") auto
  then obtain r' where r': "r' \<in> set (entries st')" "m' = replicated (meta r')"
    using tree_iff_rows [OF assms(2)] by blast
  have "f = digest_fields (meta r')"
    using r f r'(2) by (simp add: digest_fields_def)
  with r'(1) show "f \<in> digest_fields ` meta ` set (entries st')" by blast
qed

lemma All_entries_fields_eq:
  assumes "store_inv st" and "store_inv st'"
    and "All_entries flt st = Inr ms" and "All_entries flt' st' = Inr ns"
  shows "map digest_fields ms = map digest_fields ns \<longleftrightarrow>
           (\<forall>p. map_option digest_fields (tree st p) = map_option digest_fields (tree st' p))"
proof
  assume "map digest_fields ms = map digest_fields ns"
  then have "digest_fields ` set ms = digest_fields ` set ns"
    by (metis list.set_map)
  then show "\<forall>p. map_option digest_fields (tree st p) = map_option digest_fields (tree st' p)"
    using same_fields_same_tree [OF assms(1,2)] All_entries_rows(1) assms(3,4) by metis
next
  assume eq: "\<forall>p. map_option digest_fields (tree st p) = map_option digest_fields (tree st' p)"
  have fst: "map fst (map digest_fields xs) = map Path xs" for xs
    by (simp add: digest_fields_def)
  have dist: "distinct (map Path xs)" if "store_inv s" "All_entries f s = Inr xs" for s f xs
    using that by (auto simp: All_entries_def store_inv_def distinct_map_sort comp_def
        split: if_splits)
  have "digest_fields ` set ms = digest_fields ` set ns"
    using same_tree_same_fields [OF assms(1,2)] same_tree_same_fields [OF assms(2,1)] eq
      All_entries_rows(1) [OF assms(3)] All_entries_rows(1) [OF assms(4)] by auto
  then have sets: "set (map digest_fields ms) = set (map digest_fields ns)" by simp
  have dm: "distinct (map fst (map digest_fields ms))" and dn: "distinct (map fst (map digest_fields ns))"
    using dist assms fst by metis+
  have inj: "inj_on fst (set (map digest_fields ms) \<union> set (map digest_fields ns))"
    using dm unfolding sets Un_absorb distinct_map [of fst "map digest_fields ms"] by blast
  show "map digest_fields ms = map digest_fields ns"
    by (rule map_sorted_distinct_set_unique [OF inj _ dm _ dn sets])
      (use All_entries_rows(2) assms fst in metis)+
qed

lemma digest_text_tree:
  assumes "store_inv st" and "store_inv st'"
    and "list_all no_NUL (map meta (entries st))" and "list_all no_NUL (map meta (entries st'))"
    and "All_entries flt st = Inr ms" and "All_entries flt' st' = Inr ns"
  shows "digest_text ms = digest_text ns \<longleftrightarrow> (\<forall>p. map_option digest_fields (tree st p) = map_option digest_fields (tree st' p))"
proof -
  have "list_all no_NUL ms" "list_all no_NUL ns"
    using assms(3-6) All_entries_rows(1) by (auto simp: list_all_iff)
  then have "digest_text ms = digest_text ns \<longleftrightarrow> map digest_fields ms = map digest_fields ns"
    by (rule digest_text_eq)
  then show ?thesis using All_entries_fields_eq [OF assms(1,2,5,6)] by simp
qed

section \<open>Properties\<close>

text \<open>C17. The digest decides whether two nodes hold the same tree: for stores in which no path, hash or
  origin contains a NUL byte, and unless SHA-256 collides on the two texts, the digests are equal
  exactly when at every path both have the same kind, hash, mode, owner, version and deletion mark,
  or both have nothing. The order rows were written in and the local feed positions play no part.\<close>

theorem Digest_identifies_tree:
  assumes "store_inv st" and "store_inv st'"
    and "list_all no_NUL (map meta (entries st))" and "list_all no_NUL (map meta (entries st'))"
    and "All_entries flt st = Inr ms" and "All_entries flt' st' = Inr ns"
    and "inj_on sha256 {digest_text ms, digest_text ns}"
    and "Digest flt st = Inr (d, n, h)" and "Digest flt' st' = Inr (d', n', h')"
  shows "d = d' \<longleftrightarrow>
           (\<forall>p. map_option digest_fields (tree st p) = map_option digest_fields (tree st' p))"
proof -
  have d: "d = hex_encode (sha256 (digest_text ms))" "d' = hex_encode (sha256 (digest_text ns))"
    using assms(5,6,8,9) by (auto simp: Digest_def)
  have "d = d' \<longleftrightarrow> digest_text ms = digest_text ns"
  proof -
    have "sha256 (digest_text ms) = sha256 (digest_text ns) \<longleftrightarrow> digest_text ms = digest_text ns"
      by (rule inj_on_eq_iff [OF assms(7)]) simp_all
    then show ?thesis
      unfolding d using hex_encode_inj [of "sha256 (digest_text ms)" "sha256 (digest_text ns)"] by metis
  qed
  then show ?thesis using digest_text_tree [OF assms(1-6)] by simp
qed

theorem Digest_identifies_tree_witness:
  "let st' = example_store\<lparr>entries := rev (entries example_store), local_seq := 9\<rparr>
   in \<exists>d n h d' n' h'. Digest (\<lambda>_. False) example_store = Inr (d, n, h)
        \<and> Digest (\<lambda>_. False) st' = Inr (d', n', h') \<and> d = d'"
proof -
  let ?st' = "example_store\<lparr>entries := rev (entries example_store), local_seq := 9\<rparr>"
  let ?ms = "map meta (rev (entries example_store))"
  have inv: "store_inv ?st'"
    by (simp add: example_store_def store_inv_def rowOf_def max_int64_def)
  have nul: "list_all no_NUL (map meta (entries example_store))"
    "list_all no_NUL (map meta (entries ?st'))"
    by (simp_all add: example_store_def no_NUL_def rowOf_def meta_def)
  have all: "All_entries (\<lambda>_. False) example_store = Inr ?ms" "All_entries (\<lambda>_. False) ?st' = Inr ?ms"
    by (simp_all add: All_entries_def example_store_def)
  have dig: "Digest (\<lambda>_. False) example_store = Inr (hex_encode (sha256 (digest_text ?ms)), int (length ?ms),
      fold (\<lambda>m head. max head (Seq m)) ?ms 0)"
    "Digest (\<lambda>_. False) ?st' = Inr (hex_encode (sha256 (digest_text ?ms)), int (length ?ms),
      fold (\<lambda>m head. max head (Seq m)) ?ms 0)"
    by (simp_all only: Digest_def all sum.case)
  have "tree example_store p = tree ?st' p" for p
    by (auto simp: tree_def row_at_def example_store_def)
  then show ?thesis
    using Digest_identifies_tree [OF example_store_inv inv nul all _ dig] dig by (simp add: Let_def)
qed

text \<open>Without the condition on NUL bytes the digest does not determine the tree: the fields are
  separated by NUL but nothing keeps NUL out of an origin, and \<^verbatim>\<open>validate\<close> only asks of a peer's entry
  that its origin is not empty. For any two entries there is a single entry, at the path of the first
  and different from it in origin and deletion mark only, whose digest text is that of both together.\<close>

theorem Digest_text_ambiguous:
  "let w = Origin (Ver m1) @ [CHR 0x00] @ bool_text (Deleted m1) @ [CHR 0x0A]
             @ join_on (CHR 0x00)
                 [Path m2, dec_nat (unat (Kind m2)), Hash m2, dec_nat (unat (Mode m2)),
                  dec_nat (unat (UID m2)), dec_nat (unat (GID m2)), dec_int (Wall (HLC (Ver m2))),
                  dec_nat (unat (Counter (HLC (Ver m2)))), Origin (Ver m2)];
       m = m1\<lparr>Ver := Version (HLC (Ver m1)) w, Deleted := Deleted m2\<rparr>
   in w \<noteq> '''' \<and> digest_text [m] = digest_text [m1, m2]"
  by (simp add: Let_def digest_text_def digest_line_def)

text \<open>The head \<^verbatim>\<open>Digest\<close> reports is the largest feed position of a row, not the feed counter: it is at
  most the counter, and equal to it exactly when the newest write is still in the table. After the
  newest write has been collected as an expired tombstone the digest's head lies behind \<^verbatim>\<open>Head\<close>, and a
  peer that had read further takes the feed for one that was rebuilt from scratch.\<close>

theorem Digest_head_is_row_maximum:
  assumes "store_inv st" and "Digest flt st = Inr (d, n, h)"
  shows "h \<le> local_seq st
       \<and> (h = local_seq st \<longleftrightarrow> local_seq st = 0 \<or> local_seq st \<in> r_seq ` set (entries st))"
proof -
  obtain ms where ms: "All_entries flt st = Inr ms" and h: "h = fold (\<lambda>m head. max head (Seq m)) ms 0"
    using assms(2) by (auto simp: Digest_def split: sum.splits)
  have fold_max: "fold (\<lambda>m head. max head (Seq m)) xs a = Max (insert a (set (map Seq xs)))" for xs a
  proof (induction xs arbitrary: a)
    case (Cons x xs)
    have "Max (insert (max a (Seq x)) (set (map Seq xs))) = Max (insert a (insert (Seq x) (set (map Seq xs))))"
      by (cases "set (map Seq xs) = {}") (simp_all add: max.assoc)
    with Cons show ?case by simp
  qed simp
  have seqs: "set (map Seq ms) = r_seq ` set (entries st)"
    using All_entries_rows(1) [OF ms] by (simp add: image_image)
  have h: "h = Max (insert 0 (r_seq ` set (entries st)))"
    using h fold_max [of ms 0] seqs by simp
  have bound: "\<And>r. r \<in> set (entries st) \<Longrightarrow> 0 < r_seq r \<and> r_seq r \<le> local_seq st" "0 \<le> local_seq st"
    using assms(1) by (auto simp: store_inv_def)
  have "h \<in> insert 0 (r_seq ` set (entries st))"
    unfolding h by (rule Max_in) auto
  moreover have "x \<in> insert 0 (r_seq ` set (entries st)) \<Longrightarrow> x \<le> h" for x
    unfolding h by (rule Max_ge) auto
  ultimately have in_h: "h \<in> insert 0 (r_seq ` set (entries st))" and le: "h \<le> local_seq st"
    and ge: "local_seq st \<in> insert 0 (r_seq ` set (entries st)) \<Longrightarrow> local_seq st \<le> h"
    using bound by auto
  show ?thesis
  proof (intro conjI iffI)
    show "h \<le> local_seq st" by (rule le)
    show "h = local_seq st \<Longrightarrow> local_seq st = 0 \<or> local_seq st \<in> r_seq ` set (entries st)"
      using in_h by (simp only: insert_iff)
    show "local_seq st = 0 \<or> local_seq st \<in> r_seq ` set (entries st) \<Longrightarrow> h = local_seq st"
      using le ge by (metis insert_iff order_antisym)
  qed
qed

theorem Digest_head_is_row_maximum_witness:
  "let st = snd (GCTombstones (\<lambda>_. False) example_store 100)
   in store_inv st \<and> Head (\<lambda>_. False) st = Inr 2
      \<and> (\<forall>d n h. Digest (\<lambda>_. False) st = Inr (d, n, h) \<longrightarrow> h < 2)"
proof -
  let ?st = "snd (GCTombstones (\<lambda>_. False) example_store 100)"
  have st: "entries ?st = [entries example_store ! 0]" "local_seq ?st = 2"
    by (simp_all add: GCTombstones_def example_store_def expired_def rowOf_def)
  have inv: "store_inv ?st" by (intro inv_intros example_store_inv)
  have "h < 2" if "Digest (\<lambda>_. False) ?st = Inr (d, n, h)" for d n h
    using Digest_head_is_row_maximum [OF inv that] st by (auto simp: example_store_def)
  with inv st show ?thesis by (simp add: Let_def Head_def)
qed

end
