(* ===== verification/AntiEntropy_Page.thy ===== *)
theory AntiEntropy_Page
  imports AntiEntropy
begin

text \<open>
  What applying one page achieves: no path goes back to an older version, every entry up to the position
  that may be bookmarked is accounted for, local content that loses is kept, and pages without conflicts
  are exactly the merges of their entries.
\<close>

section \<open>Clock readings while a page is applied\<close>

definition rejects :: "Service \<Rightarrow> Meta \<Rightarrow> bool" where
  "rejects s e \<longleftrightarrow>
     validate s e \<noteq> None \<or> (\<exists>n. wrap64 (Wall (HLC (Ver e)) - now_at (clock s) n) > MaxClockDrift)"

lemma Observe_Inl: "fst (Observe c t) = Inl x \<Longrightarrow> wrap64 (Wall t - physical c) > MaxClockDrift"
  by (auto simp: Observe_def Let_def split: if_splits)

lemma rejects_drift:
  assumes "fetched s0 s" and "fst (Observe (clock s) (HLC (Ver e))) = Inl x"
  shows "rejects s0 e"
  using Observe_Inl [OF assms(2)] fetchedD(8) [OF assms(1)] by (auto simp: rejects_def)

lemma rejects_invalid: "fetched s0 s \<Longrightarrow> validate s e \<noteq> None \<Longrightarrow> rejects s0 e"
  by (auto simp: rejects_def dest: fetchedD(14))

lemma after_copies_clock:
  assumes "fst (Observe (clock s) (HLC (Ver e))) = Inr t"
    and "room b (last_ts (clock s))" and "room b (HLC (Ver e))" and "b + 1 < 4294967295"
  shows "last_ts (clock s) < last_ts (clock (after_copies s e))"
    and "HLC (Ver e) < last_ts (clock (after_copies s e))"
    and "room (b + 2) (last_ts (clock (after_copies s e)))"
    and "\<And>m. m \<in> set (copies_for s e) \<Longrightarrow> HLC (Ver m) = last_ts (clock (after_copies s e))"
proof -
  have lt: "b < 4294967295" using assms(4) by simp
  have obs: "last_ts (snd (Observe (clock s) (HLC (Ver e)))) = t" by (rule Observe_last [OF assms(1)])
  note g = Observe_greater [OF assms(1-3) lt]
  have now: "t < fst (Now (clock (observed s e)))" "room (b + 2) (fst (Now (clock (observed s e))))"
    using Now_greater [of "Suc b" "clock (observed s e)"] g(3) assms(4) by (simp_all add: obs)
  show "last_ts (clock s) < last_ts (clock (after_copies s e))"
    "HLC (Ver e) < last_ts (clock (after_copies s e))"
    "room (b + 2) (last_ts (clock (after_copies s e)))"
    using g now room_mono [OF g(3), of "b + 2"] obs
    by (auto simp: after_copies_def Now_frame dest: less_trans)
  show "\<And>m. m \<in> set (copies_for s e) \<Longrightarrow> HLC (Ver m) = last_ts (clock (after_copies s e))"
    by (auto simp: after_copies_def copies_for_def conflictCopy_simps Now_frame split: if_splits)
qed

section \<open>The invariant of the loop\<close>

definition covers_entry :: "(string \<Rightarrow> Meta option) \<Rightarrow> Meta \<Rightarrow> bool" where
  "covers_entry t e \<longleftrightarrow> (\<exists>m. t (Path e) = Some m \<and> Ver e \<le> Ver m)"

text \<open>No path of the second tree is behind the first.\<close>

definition tree_le :: "(string \<Rightarrow> Meta option) \<Rightarrow> (string \<Rightarrow> Meta option) \<Rightarrow> bool" where
  "tree_le t t' \<longleftrightarrow> (\<forall>p m. t p = Some m \<longrightarrow> (\<exists>m'. t' p = Some m' \<and> Ver m \<le> Ver m'))"

definition accounted :: "Service \<Rightarrow> (string \<Rightarrow> Meta option) \<Rightarrow> Meta list \<Rightarrow> page_acc \<Rightarrow> bool" where
  "accounted s0 t pre a \<longleftrightarrow>
     (\<exists>dn rest. pre = dn @ rest \<and> (\<forall>e \<in> set dn. rejects s0 e \<or> covers_entry t e)
        \<and> (deferred a \<or> rest = []) \<and> (safe a = 0 \<or> safe a \<in> Seq ` set dn))"

definition page_inv :: "Service \<Rightarrow> nat \<Rightarrow> Meta list \<Rightarrow> Service \<Rightarrow> page_acc \<Rightarrow> bool" where
  "page_inv s0 b pre s a \<longleftrightarrow>
     fetched s0 s \<and> room (b + 2 * length pre) (last_ts (clock s))
     \<and> (\<forall>p m. tree (store s0) p = Some m \<longrightarrow> HLC (Ver m) \<le> last_ts (clock s))
     \<and> (\<forall>m \<in> set (batch a). HLC (Ver m) \<le> last_ts (clock s))
     \<and> (\<forall>e \<in> set pre. rejects s0 e \<or> HLC (Ver e) \<le> last_ts (clock s))
     \<and> tree_le (tree (store s0)) (put_all (batch a) (tree (store s0)))
     \<and> accounted s0 (put_all (batch a) (tree (store s0))) pre a"

lemma tree_le_refl [simp]: "tree_le t t"
  by (simp add: tree_le_def)

lemma tree_le_covers: "tree_le t t' \<Longrightarrow> covers_entry t e \<Longrightarrow> covers_entry t' e"
  unfolding tree_le_def covers_entry_def by (meson order_trans)

lemma accounted_advance:
  assumes "accounted s0 t pre a" and "\<And>e'. e' \<in> set pre \<Longrightarrow> covers_entry t e' \<Longrightarrow> rejects s0 e' \<or> covers_entry t' e'"
    and "rejects s0 e \<or> covers_entry t' e" and "deferred a' = deferred a" and "safe a' = safe a"
  shows "accounted s0 t' (pre @ [e]) (advance e a')"
proof -
  obtain dn rest where dn: "pre = dn @ rest" "\<forall>e \<in> set dn. rejects s0 e \<or> covers_entry t e"
    "deferred a \<or> rest = []" "safe a = 0 \<or> safe a \<in> Seq ` set dn"
    using assms(1) by (auto simp: accounted_def)
  have kept: "\<forall>e \<in> set dn. rejects s0 e \<or> covers_entry t' e"
    using dn(1,2) assms(2) by auto
  show ?thesis
  proof (cases "deferred a")
    case True
    then show ?thesis
      unfolding accounted_def using dn kept assms(4,5)
      by (intro exI [of _ dn] exI [of _ "rest @ [e]"]) (auto simp: advance_def)
  next
    case False
    then show ?thesis
      unfolding accounted_def using dn kept assms(3-5)
      by (intro exI [of _ "dn @ [e]"] exI [of _ "[]"]) (auto simp: advance_def max_def)
  qed
qed

lemma accounted_defer:
  assumes "accounted s0 t pre a" and "\<And>e'. e' \<in> set pre \<Longrightarrow> covers_entry t e' \<Longrightarrow> rejects s0 e' \<or> covers_entry t' e'"
    and "deferred a'" and "safe a' = safe a"
  shows "accounted s0 t' (pre @ [e]) a'"
proof -
  obtain dn rest where dn: "pre = dn @ rest" "\<forall>e \<in> set dn. rejects s0 e \<or> covers_entry t e"
    "safe a = 0 \<or> safe a \<in> Seq ` set dn"
    using assms(1) by (auto simp: accounted_def)
  then show ?thesis
    unfolding accounted_def using assms(2-4)
    by (intro exI [of _ dn] exI [of _ "rest @ [e]"]) auto
qed

text \<open>Entries put into the batch at the end of the loop body never lower a version already there.\<close>

lemma put_copies_le:
  assumes "tree_le t0 t" and "\<And>p m. t0 p = Some m \<Longrightarrow> HLC (Ver m) < now"
    and "\<And>m. m \<in> set cs \<Longrightarrow> HLC (Ver m) = now"
  shows "tree_le t0 (put_all cs t)"
  using assms
proof (induction cs arbitrary: t)
  case (Cons m cs)
  have "tree_le t0 (t(Path m \<mapsto> replicated m))"
    using Cons.prems by (auto simp: tree_le_def Version_less_iff intro!: less_imp_le)
  then show ?case using Cons by simp
qed simp

lemma put_copies_covers:
  assumes "covers_entry t e" and "HLC (Ver e) < now" and "\<And>m. m \<in> set cs \<Longrightarrow> HLC (Ver m) = now"
  shows "covers_entry (put_all cs t) e"
  using assms
proof (induction cs arbitrary: t)
  case (Cons m cs)
  have "covers_entry (t(Path m \<mapsto> replicated m)) e"
    using Cons.prems by (auto simp: covers_entry_def Version_less_iff intro!: less_imp_le)
  then show ?case using Cons by simp
qed simp

lemma put_entry_le:
  assumes "tree_le t0 t" and "\<And>m. t0 (Path e) = Some m \<Longrightarrow> Ver m < Ver e"
  shows "tree_le t0 (t(Path e \<mapsto> replicated e))"
  using assms by (auto simp: tree_le_def intro: less_imp_le)

lemma put_entry_covers:
  "covers_entry t e' \<Longrightarrow> Path e' \<noteq> Path e \<Longrightarrow> covers_entry (t(Path e \<mapsto> replicated e)) e'"
  "covers_entry (t(Path e \<mapsto> replicated e)) e"
  by (auto simp: covers_entry_def)

lemma outdated_tree: "outdated s e \<Longrightarrow> tree (store s) (Path e) = Some m \<Longrightarrow> Ver m < Ver e"
  by (auto simp: outdated_def tree_def current_def)

lemma not_outdated_covers: "\<not> outdated s e \<Longrightarrow> covers_entry (tree (store s)) e"
  by (auto simp: outdated_def covers_entry_def tree_def current_def not_less)

lemma observed_clock:
  assumes "room b (last_ts (clock s))" and "room b (HLC (Ver e))" and "b < 4294967295"
  shows "last_ts (clock s) \<le> last_ts (clock (observed s e))" "room (b + 2) (last_ts (clock (observed s e)))"
    "fst (Observe (clock s) (HLC (Ver e))) = Inr t \<Longrightarrow> HLC (Ver e) \<le> last_ts (clock (observed s e))"
proof -
  have "last_ts (clock s) \<le> last_ts (clock (observed s e)) \<and> room (b + 2) (last_ts (clock (observed s e)))
      \<and> (fst (Observe (clock s) (HLC (Ver e))) = Inr t \<longrightarrow> HLC (Ver e) \<le> last_ts (clock (observed s e)))"
  proof (cases "fst (Observe (clock s) (HLC (Ver e)))")
    case (Inl x)
    then show ?thesis using Observe_rejects [OF Inl] room_mono [OF assms(1), of "b + 2"] by simp
  next
    case (Inr u)
    then show ?thesis
      using Observe_last [OF Inr] Observe_greater [OF Inr assms] room_mono [of "Suc b" u "b + 2"] by auto
  qed
  then show "last_ts (clock s) \<le> last_ts (clock (observed s e))" "room (b + 2) (last_ts (clock (observed s e)))"
    "fst (Observe (clock s) (HLC (Ver e))) = Inr t \<Longrightarrow> HLC (Ver e) \<le> last_ts (clock (observed s e))"
    by simp_all
qed

text \<open>A step that leaves the batch alone: a rejected entry, one out of the drift bound, one skipped.\<close>

lemma page_inv_no_batch:
  assumes "page_inv s0 b pre s a" and "fetched s0 s'"
    and "last_ts (clock s) \<le> last_ts (clock s')"
    and "room (b + 2 * length (pre @ [e])) (last_ts (clock s'))"
    and "rejects s0 e \<or> HLC (Ver e) \<le> last_ts (clock s')"
    and "rejects s0 e \<or> covers_entry (put_all (batch a) (tree (store s0))) e"
  shows "page_inv s0 b (pre @ [e]) s' (advance e a)"
proof -
  have "accounted s0 (put_all (batch a) (tree (store s0))) (pre @ [e]) (advance e a)"
    by (rule accounted_advance) (use assms(1,6) in \<open>auto simp: page_inv_def\<close>)
  then show ?thesis
    using assms unfolding page_inv_def by (auto intro: order_trans)
qed

text \<open>A step in which the remote entry wins, whether it is staged (\<open>es = [e]\<close>) or postponed (\<open>es = []\<close>).\<close>

lemma page_inv_win:
  assumes inv: "page_inv s0 b pre s a" and f: "fetched s0 s'"
    and e: "fst (Observe (clock s) (HLC (Ver e))) = Inr t" "outdated s e" "e \<notin> set pre"
    and dist: "\<And>e'. e' \<in> set pre \<Longrightarrow> Path e' \<noteq> Path e"
    and rm: "room b (HLC (Ver e))" "b + 2 * length pre + 1 < 4294967295"
    and s': "clock s' = clock (after_copies s e)"
    and a': "a' = advance e nx \<and> es = [e] \<or> a' = nx \<and> es = [] \<and> deferred nx"
    and nx: "batch nx = batch a @ copies_for s e @ es" "safe nx = safe a" "es = [e] \<Longrightarrow> deferred nx = deferred a"
  shows "page_inv s0 b (pre @ [e]) s' a'"
proof -
  let ?b = "b + 2 * length pre" and ?old = "tree (store s0)"
  let ?t = "put_all (batch a) ?old" and ?now = "last_ts (clock s')"
  have fs: "fetched s0 s" and room: "room ?b (last_ts (clock s))"
    and t0: "\<And>p m. ?old p = Some m \<Longrightarrow> HLC (Ver m) \<le> last_ts (clock s)"
    and bt: "\<And>m. m \<in> set (batch a) \<Longrightarrow> HLC (Ver m) \<le> last_ts (clock s)"
    and pr: "\<And>e. e \<in> set pre \<Longrightarrow> rejects s0 e \<or> HLC (Ver e) \<le> last_ts (clock s)"
    and le: "tree_le ?old ?t" and acc: "accounted s0 ?t pre a"
    using inv by (auto simp: page_inv_def)
  have rm': "room ?b (HLC (Ver e))" using room_mono [OF rm(1)] by simp
  note clk = after_copies_clock [OF e(1) room rm' rm(2), folded s']
  have t0': "?old p = Some m \<Longrightarrow> HLC (Ver m) < ?now" for p m
    using t0 clk(1) by (blast intro: le_less_trans)
  let ?tc = "put_all (copies_for s e) ?t"
  have tc: "tree_le ?old ?tc" by (rule put_copies_le [OF le t0' clk(4)])
  have new: "put_all (batch nx) ?old = put_all es ?tc"
    by (simp add: nx put_all_append)
  have out: "?old (Path e) = Some m \<Longrightarrow> Ver m < Ver e" for m
    using outdated_tree [OF e(2)] fetchedD(11) [OF fs] by simp
  have es: "es = [e] \<or> es = []" using a' by blast
  have le': "tree_le ?old (put_all (batch nx) ?old)"
    using es tc put_entry_le [OF tc out] by (auto simp: new)
  have cov: "rejects s0 e' \<or> covers_entry (put_all (batch nx) ?old) e'"
    if "e' \<in> set pre" "covers_entry ?t e'" for e'
  proof (cases "rejects s0 e'")
    case False
    then have "HLC (Ver e') < ?now" using pr [OF that(1)] clk(1) by (auto intro: le_less_trans)
    then have "covers_entry ?tc e'" by (rule put_copies_covers [OF that(2) _ clk(4)])
    then show ?thesis using es dist [OF that(1)] put_entry_covers(1) by (auto simp: new)
  qed simp
  have acc': "accounted s0 (put_all (batch nx) ?old) (pre @ [e]) a'"
    using a'
  proof
    assume "a' = advance e nx \<and> es = [e]"
    then show ?thesis
      using accounted_advance [OF acc cov, of e nx] put_entry_covers(2) nx(2,3) by (simp add: new)
  next
    assume "a' = nx \<and> es = [] \<and> deferred nx"
    then show ?thesis using accounted_defer [OF acc cov, of nx e] nx(2) by simp
  qed
  have batch': "batch a' = batch nx" using a' by auto
  have "\<forall>m \<in> set (batch nx). HLC (Ver m) \<le> ?now"
    using bt clk es by (auto simp: nx dest: le_less_trans less_imp_le)
  moreover have "\<forall>x \<in> set (pre @ [e]). rejects s0 x \<or> HLC (Ver x) \<le> ?now"
    using pr clk(1,2) by (fastforce dest: le_less_trans less_imp_le)
  ultimately show ?thesis
    unfolding page_inv_def batch'
    using f clk(3) t0' le' acc' by (auto simp: add.assoc intro: less_imp_le)
qed

lemma page_inv_step:
  assumes "page_inv s0 b pre s a" and "apply_entry flt pc addr e s a = (Inr a', s')"
    and "\<And>e'. e' \<in> set pre \<Longrightarrow> Path e' \<noteq> Path e"
    and "room b (HLC (Ver e))" and "b + 2 * length pre + 1 < 4294967295"
  shows "page_inv s0 b (pre @ [e]) s' a'"
proof -
  let ?b = "b + 2 * length pre"
  have fs: "fetched s0 s" and room: "room ?b (last_ts (clock s))" using assms(1) by (auto simp: page_inv_def)
  have fs': "fetched s0 s'" using fetched_trans [OF fs apply_entry_fetched [OF assms(2)]] .
  have rm: "room ?b (HLC (Ver e))" using room_mono [OF assms(4)] by simp
  have lt: "?b < 4294967295" using assms(5) by simp
  note obs = observed_clock [OF room rm lt]
  have notin: "e \<notin> set pre" using assms(3) by blast
  show ?thesis
    using assms(2)
  proof (cases rule: apply_entry_cases)
    case rejected
    then show ?thesis
      using page_inv_no_batch [OF assms(1) fs', of e] rejects_invalid [OF fs] room_mono [OF room] by auto
  next
    case (drift x)
    then show ?thesis
      using page_inv_no_batch [OF assms(1) fs', of e] rejects_drift [OF fs drift(2)] obs by auto
  next
    case (skip t)
    have "covers_entry (tree (store s0)) e"
      using not_outdated_covers [OF skip(3)] fetchedD(11) [OF fs] by simp
    then have "covers_entry (put_all (batch a) (tree (store s0))) e"
      using assms(1) tree_le_covers by (auto simp: page_inv_def)
    then show ?thesis
      using skip page_inv_no_batch [OF assms(1) fs', of e] obs(1,2) obs(3) [OF skip(2)] by auto
  next
    case (stored t)
    then have clk: "clock s' = clock (after_copies s e)" by (simp add: ensureBlob_fetched)
    show ?thesis
      by (rule page_inv_win [OF assms(1) fs' stored(2,3) notin assms(3-5) clk, where es = "[e]"
            and nx = "a\<lparr>conflict := conflict a + length (copies_for s e), batch := batch a @ copies_for s e @ [e]\<rparr>"])
        (use stored(4) in auto)
  next
    case (postponed t x)
    then have clk: "clock s' = clock (after_copies s e)" by (simp add: ensureBlob_fetched)
    show ?thesis
      by (rule page_inv_win [OF assms(1) fs' postponed(2,3) notin assms(3-5) clk, where es = "[]" and nx = a'])
        (use postponed(4) in auto)
  qed simp
qed

lemma page_inv_new:
  assumes "clock_covers s" and "room b (last_ts (clock s))"
  shows "page_inv s b [] s new_page"
  using assms by (auto simp: page_inv_def new_page_def clock_covers_def accounted_def)

lemma page_inv_entries:
  assumes "apply_entries flt pc addr es s new_page = (Inr a, s')"
    and "clock_covers s" and "room b (last_ts (clock s))" and "\<forall>e \<in> set es. room b (HLC (Ver e))"
    and "b + 2 * length es < 4294967295" and "distinct (map Path es)"
  shows "page_inv s b es s' a"
proof -
  have "case Inr a :: err + page_acc of Inl x \<Rightarrow> True | Inr a' \<Rightarrow> page_inv s b es s' a'"
  proof (rule apply_entries_invariant [OF assms(1), where P = "page_inv s b" and Q = "\<lambda>_. True"])
    show "page_inv s b [] s new_page" using page_inv_new assms(2,3) .
    fix pre e rest s1 a1 a2 s2
    assume es: "es = pre @ e # rest" and pinv: "page_inv s b pre s1 a1"
      and ap: "apply_entry flt pc addr e s1 a1 = (Inr a2, s2)"
    have "\<And>e'. e' \<in> set pre \<Longrightarrow> Path e' \<noteq> Path e" "room b (HLC (Ver e))" "b + 2 * length pre + 1 < 4294967295"
      using assms(4-6) by (auto simp: es) (metis image_eqI)
    then show "page_inv s b (pre @ [e]) s2 a2" by (rule page_inv_step [OF pinv ap])
  qed simp
  then show ?thesis by simp
qed

lemma sorted_split_le:
  assumes "sorted_wrt (<) (map Seq (dn @ rest))" and "x \<in> set (dn @ rest)" and "y \<in> set dn"
    and "Seq x \<le> Seq y"
  shows "x \<in> set dn"
  using assms by (fastforce simp: sorted_wrt_append)

lemma apply_entries_no_fault:
  assumes "\<And>p. \<not> flt (DbGet p)"
  shows "\<exists>a' s'. apply_entries flt pc addr es s a = (Inr a', s')"
proof (induction es arbitrary: s a)
  case (Cons e es)
  obtain r s' where ap: "apply_entry flt pc addr e s a = (r, s')" by (cases "apply_entry flt pc addr e s a")
  then have "\<exists>a'. r = Inr a'" by (cases rule: apply_entry_cases) (use assms in auto)
  then show ?case using ap Cons.IH by auto
qed simp

lemma apply_entries_batch:
  assumes run: "apply_entries flt pc addr es s new_page = (Inr a, s1)"
  shows "length (batch a) \<le> 2 * length es"
proof -
  have "case Inr a :: err + page_acc of Inl x \<Rightarrow> True | Inr a' \<Rightarrow> length (batch a') \<le> 2 * length es"
  proof (rule apply_entries_invariant [OF run, where P = "\<lambda>pre s a. length (batch a) \<le> 2 * length pre" and Q = "\<lambda>_. True"])
    show "length (batch new_page) \<le> 2 * length ([] :: Meta list)" by (simp add: new_page_def)
    fix pre e rest t b b' t'
    assume len: "length (batch b) \<le> 2 * length (pre :: Meta list)" and ap: "apply_entry flt pc addr e t b = (Inr b', t')"
    have one: "length (copies_for t e) \<le> 1" by (simp add: copies_for_def)
    show "length (batch b') \<le> 2 * length (pre @ [e])"
      using ap by (cases rule: apply_entry_cases) (use len one in auto)
  qed simp
  then show ?thesis by simp
qed

text \<open>Without database faults and with room in the feed counter a page is always applied.\<close>

lemma applyRemote_succeeds:
  assumes "store_inv (store s)" and "\<And>p. \<not> flt (DbGet p)" and "\<not> flt DbApply" and "\<not> flt DbHead"
    and "local_seq (store s) + 2 * int (length es) \<le> max_int64"
  shows "\<exists>n s'. applyRemote flt pc s addr es = (Inr n, s')"
proof -
  obtain a s1 where run: "apply_entries flt pc addr es s new_page = (Inr a, s1)"
    using apply_entries_no_fault [of flt] assms(2) by blast
  have len: "length (batch a) \<le> 2 * length es" by (rule apply_entries_batch [OF run])
  have f: "fetched s s1" by (rule apply_entries_fetched [OF run])
  have inv1: "store_inv (store s1)" using fetchedD(9) [OF f assms(1)] .
  obtain h where "fst (Apply flt (store s1) (batch a)) = Inr h"
    using Apply_succeeds [OF inv1 assms(3,4), of "batch a"] len assms(5) fetchedD(3) [OF f] by auto
  then show ?thesis
    by (auto simp: applyRemote_def run commit_def Let_def split: prod.splits sum.splits)
qed

section \<open>Properties\<close>


text \<open>The page the witnesses apply, to the example service with its clock moved past the store.\<close>

definition example_page :: "Meta list" where
  "example_page =
     [zero_Meta\<lparr>Path := ''f'', Kind := KindDir, Mode := 448, Ver := Version (Timestamp 1500 3) ''n2'', Seq := 4\<rparr>,
      zero_Meta\<lparr>Path := ''d'', Kind := KindDir, Mode := 448, Ver := Version (Timestamp 900 0) ''n2'', Seq := 9\<rparr>]"

definition example_started :: Service where
  "example_started = example_service\<lparr>clock := snd (Now (clock example_service))\<rparr>"

lemma example_started_simps [simp]:
  "store example_started = example_store" "cfg example_started = cfg example_service"
  "clock example_started = \<lparr>now_at = \<lambda>k. 1000, reads = 1, last_ts = Timestamp 1000 0\<rparr>"
  by (simp_all add: example_started_def example_Now)

lemma example_started_covers: "clock_covers example_started" "room 5 (last_ts (clock example_started))"
  by (auto simp: clock_covers_def room_def tree_def row_at_def example_store_def rowOf_def meta_def
      Timestamp_le_iff split: if_splits)

lemma example_page_room: "\<forall>e \<in> set example_page. room 5 (HLC (Ver e))"
  by (simp add: example_page_def room_def)

lemma example_page_feed: "distinct (map Path example_page)" "sorted_wrt (<) (0 # map Seq example_page)"
  by (simp_all add: example_page_def)

definition deaf_client :: PeerClient where
  "deaf_client = \<lparr>pc_Digest = \<lambda>_. Inl ErrPeer, pc_Manifest = \<lambda>_ _. Inl ErrPeer, pc_Blob = \<lambda>_ _. Inl ErrPeer\<rparr>"

lemma example_validate: "\<forall>e \<in> set example_page. validate example_started e = None"
  by (simp add: example_page_def validate_def Valid_def)

lemma example_page_run: "fst (applyRemote (\<lambda>_. False) deaf_client example_started ''x'' example_page) = Inr 9"
  by code_simp


text \<open>C10. Applying a page is all or nothing: whatever the peer sends and whichever database call fails, if
  an error is returned then no entry, feed position, bookmark, subscriber or announcement has changed;
  and in every case the table invariants hold and every live file has its content in the blob table,
  given that the client hands out only content that hashes to what was asked for.\<close>

theorem applyRemote_all_or_nothing:
  assumes "store_inv (store s)" and "blobs_ok (store s)"
    and "\<forall>addr h c. pc_Blob pc addr h = Inr c \<longrightarrow> HashContent c = h"
  shows "case applyRemote flt pc s addr es of (r, s') \<Rightarrow>
           store_inv (store s') \<and> blobs_ok (store s')
           \<and> (\<forall>e. r = Inl e \<longrightarrow> entries (store s') = entries (store s)
                \<and> local_seq (store s') = local_seq (store s) \<and> peers (store s') = peers (store s)
                \<and> subs_m s' = subs_m s \<and> announced s' = announced s)"
proof (cases "applyRemote flt pc s addr es")
  case (Pair r s')
  have vc: "verifying_client pc" using assms(3) by unfold_locales blast
  have "fetched s s'" if "r = Inl e" for e
    using Pair that by (cases rule: applyRemote_cases) auto
  then show ?thesis
    using Pair verifying_client.applyRemote_invariants [OF vc Pair assms(1,2)] fetchedD by auto
qed

theorem applyRemote_all_or_nothing_witness:
  "let r = applyRemote (\<lambda>d. d = DbApply) deaf_client example_started ''x'' example_page
   in fst r = Inl ErrDB \<and> entries (store (snd r)) = entries example_store \<and> announced (snd r) = []
      \<and> blobs_ok (store (snd r))"
proof -
  let ?r = "applyRemote (\<lambda>d. d = DbApply) deaf_client example_started ''x'' example_page"
  have run: "fst ?r = Inl ErrDB" by code_simp
  have inv: "store_inv (store example_started)" "blobs_ok (store example_started)"
    using example_service_inv by simp_all
  have "announced example_started = []" by (simp add: example_started_def)
  then show ?thesis
    using applyRemote_all_or_nothing [OF inv, of deaf_client "\<lambda>d. d = DbApply" "''x''" example_page] run
    by (simp add: deaf_client_def Let_def split_beta)
qed

section \<open>Losing content is kept\<close>

abbreviation copy_name :: "Service \<Rightarrow> string \<Rightarrow> string" where
  "copy_name s p \<equiv>
     ConflictName p (Origin (Ver (current s p))) (Wall (HLC (Ver (current s p))))"

definition conflicts_with :: "Service \<Rightarrow> Meta \<Rightarrow> bool" where
  "conflicts_with s e \<longleftrightarrow>
     resolve (current s (Path e)) (row_at (store s) (Path e) \<noteq> None) e = decisionConflict"

definition copy_of :: "Meta \<Rightarrow> Meta \<Rightarrow> bool" where
  "copy_of l c \<longleftrightarrow> Kind c = Kind l \<and> Hash c = Hash l \<and> Size c = Size l \<and> Mode c = Mode l
     \<and> UID c = UID l \<and> GID c = GID l \<and> Deleted c = Deleted l"

lemma copies_for_conflict:
  assumes "fetched s0 s"
  shows "conflicts_with s0 e \<Longrightarrow> \<exists>c. copies_for s e = [c] \<and> Path c = copy_name s0 (Path e) \<and> copy_of (current s0 (Path e)) c"
    and "\<not> conflicts_with s0 e \<Longrightarrow> copies_for s e = []"
proof -
  have cur: "current s = current s0" "row_at (store s) = row_at (store s0)"
    using fetchedD(12,13) [OF assms] by simp_all
  have path: "conflicts_with s0 e \<Longrightarrow> Path (current s0 (Path e)) = Path e"
    using Path_current [of s0 "Path e"] by (auto simp: conflicts_with_def resolve_conflict_iff)
  show "conflicts_with s0 e \<Longrightarrow> \<exists>c. copies_for s e = [c] \<and> Path c = copy_name s0 (Path e) \<and> copy_of (current s0 (Path e)) c"
    using path by (simp add: copies_for_def conflicts_with_def cur conflictCopy_simps copy_of_def)
  show "\<not> conflicts_with s0 e \<Longrightarrow> copies_for s e = []"
    by (simp add: copies_for_def conflicts_with_def cur)
qed

lemma apply_entry_batch:
  assumes "apply_entry flt pc addr e s a = (Inr a', s')"
  shows "\<exists>cs es. batch a' = batch a @ cs @ es \<and> set cs \<subseteq> set (copies_for s e) \<and> set es \<subseteq> {e}"
    and "\<lbrakk>fetched s0 s; \<not> rejects s0 e; outdated s e\<rbrakk> \<Longrightarrow> set (copies_for s e) \<subseteq> set (batch a')"
proof -
  show "\<exists>cs es. batch a' = batch a @ cs @ es \<and> set cs \<subseteq> set (copies_for s e) \<and> set es \<subseteq> {e}"
    using assms
  proof (cases rule: apply_entry_cases)
    case (stored t)
    then show ?thesis by (intro exI [of _ "copies_for s e"] exI [of _ "[e]"]) auto
  next
    case (postponed t x)
    then show ?thesis by (intro exI [of _ "copies_for s e"] exI [of _ "[]"]) auto
  qed auto
  show "set (copies_for s e) \<subseteq> set (batch a')" if f: "fetched s0 s" and "\<not> rejects s0 e" "outdated s e"
    using assms
  proof (cases rule: apply_entry_cases)
    case (drift x)
    then show ?thesis using rejects_drift [OF f drift(2)] that by blast
  next
    case rejected
    then show ?thesis using rejects_invalid [OF f] that by blast
  qed (use that in auto)
qed

text \<open>
  The copies of one entry: once it has been processed its copy is in the batch, and nothing else in the
  batch has the copy's name.
\<close>

definition copy_inv :: "Service \<Rightarrow> Meta \<Rightarrow> Meta list \<Rightarrow> Service \<Rightarrow> page_acc \<Rightarrow> bool" where
  "copy_inv s0 e pre s a \<longleftrightarrow>
     fetched s0 s
     \<and> (e \<in> set pre \<longrightarrow> (\<exists>c \<in> set (batch a). Path c = copy_name s0 (Path e)))
     \<and> (\<forall>m \<in> set (batch a). Path m = copy_name s0 (Path e) \<longrightarrow> copy_of (current s0 (Path e)) m)"

lemma copy_inv_step:
  assumes "copy_inv s0 e pre s a" and "apply_entry flt pc addr x s a = (Inr a', s')"
    and "conflicts_with s0 e" and "\<not> rejects s0 e" and "Path x \<noteq> copy_name s0 (Path e)"
    and "x \<noteq> e \<Longrightarrow> conflicts_with s0 x \<Longrightarrow> copy_name s0 (Path x) \<noteq> copy_name s0 (Path e)"
  shows "copy_inv s0 e (pre @ [x]) s' a'"
proof -
  have f: "fetched s0 s" using assms(1) by (simp add: copy_inv_def)
  obtain cs es where b: "batch a' = batch a @ cs @ es" "set cs \<subseteq> set (copies_for s x)" "set es \<subseteq> {x}"
    using apply_entry_batch(1) [OF assms(2)] by blast
  have copies: "Path m = copy_name s0 (Path e) \<Longrightarrow> copy_of (current s0 (Path e)) m" if "m \<in> set (copies_for s x)" for m
  proof -
    assume p: "Path m = copy_name s0 (Path e)"
    have "conflicts_with s0 x" using that copies_for_conflict(2) [OF f] by fastforce
    then show ?thesis
      using that p copies_for_conflict(1) [OF f, of x] assms(6) by (cases "x = e") auto
  qed
  have "\<exists>c \<in> set (batch a'). Path c = copy_name s0 (Path e)" if "x = e"
  proof -
    have "outdated s e"
      using assms(3) fetchedD(12,13) [OF f] by (auto simp: outdated_def conflicts_with_def resolve_conflict_iff)
    then have "set (copies_for s e) \<subseteq> set (batch a')"
      using apply_entry_batch(2) [OF assms(2) f] that assms(4) by simp
    then show ?thesis using copies_for_conflict(1) [OF f assms(3)] by auto
  qed
  then show ?thesis
    using assms(1,5) b copies fetched_trans [OF f apply_entry_fetched [OF assms(2)]]
    unfolding copy_inv_def by (cases "x = e") auto
qed


text \<open>A node that has just stored a file of its own, and a page with a directory made elsewhere in its place.\<close>

definition example_edited :: Service where
  "example_edited = snd (PutFile (\<lambda>_. False) example_started ''f'' ''abc'' 420 0 0)"

lemma example_edited_facts:
  shows "store_inv (store example_edited)" "blobs_ok (store example_edited)"
    "local_seq (store example_edited) = 3"
    "current example_edited ''f'' = zero_Meta\<lparr>Path := ''f'', Kind := KindFile, Hash := HashContent ''abc'',
       Size := 3, Mode := SanitizeMode 420, Ver := Version (Timestamp 1000 1) ''n1'', Seq := 3\<rparr>"
    "row_at (store example_edited) ''f'' \<noteq> None" "cfg example_edited = cfg example_started"
    "now_at (clock example_edited) = (\<lambda>k. 1000)"
proof -
  let ?x = "LPutFile ''f'' ''abc'' 420 0 0"
  have inv: "store_inv (store example_started)" "blobs_ok (store example_started)"
    using example_service_inv by simp_all
  have "fst (local_step (\<lambda>_. False) example_started ?x) = None"
    using local_step_succeeds [OF inv(1), of "\<lambda>_. False" ?x] by (simp add: example_seq max_int64_def)
  then have run: "local_step (\<lambda>_. False) example_started ?x = (None, example_edited)"
    unfolding example_edited_def by (metis local_step.simps(1) prod.collapse)
  have not_idle: "\<not> op_idle example_started ?x" by (simp add: live_at_def example_rows)
  have w: "wrote example_started example_edited (op_meta example_started ?x)"
    and cur: "current example_edited ''f'' = (op_meta example_started ?x)\<lparr>Seq := local_seq (store example_edited)\<rparr>"
    and row: "row_at (store example_edited) ''f'' \<noteq> None"
    using idle_or_written [OF inv run] not_idle by (simp_all del: op_meta.simps op_idle.simps)
  show "store_inv (store example_edited)" "blobs_ok (store example_edited)"
    using local_step_inv [OF inv, of "\<lambda>_. False" ?x] run by simp_all
  show seq: "local_seq (store example_edited) = 3" using w by (simp add: wrote_def example_seq)
  show "row_at (store example_edited) ''f'' \<noteq> None" by (rule row)
  show "cfg example_edited = cfg example_started" by (rule wrote_cfg [OF w])
  show "now_at (clock example_edited) = (\<lambda>k. 1000)" using w by (simp add: wrote_def frame)
  have "fst (Now (clock example_started)) = Timestamp 1000 1" by (simp add: Now_def Let_def)
  then show "current example_edited ''f'' = zero_Meta\<lparr>Path := ''f'', Kind := KindFile, Hash := HashContent ''abc'',
       Size := 3, Mode := SanitizeMode 420, Ver := Version (Timestamp 1000 1) ''n1'', Seq := 3\<rparr>"
    unfolding cur seq by (simp add: current_def example_rows zero_Meta_def)
qed


section \<open>Pages without conflicts are merges\<close>

definition merge_inv :: "Service \<Rightarrow> Meta list \<Rightarrow> Service \<Rightarrow> page_acc \<Rightarrow> bool" where
  "merge_inv s0 pre s a \<longleftrightarrow>
     fetched s0 s
     \<and> (\<not> deferred a \<longrightarrow> put_all (batch a) (tree (store s0)) = fold merge_entry pre (tree (store s0)))
     \<and> (safe a = 0 \<or> safe a \<in> Seq ` set pre)
     \<and> (deferred a \<longrightarrow> (\<exists>e \<in> set pre. safe a < Seq e))"

lemma fold_merge_fresh: "p \<notin> Path ` set ms \<Longrightarrow> fold merge_entry ms t p = t p"
  by (induction ms arbitrary: t) (auto simp: merge_entry_def)

lemma merge_inv_step:
  assumes "merge_inv s0 pre s a" and "apply_entry flt pc addr e s a = (Inr a', s')"
    and "\<not> rejects s0 e" and "\<not> conflicts_with s0 e" and "Path e \<notin> Path ` set pre"
    and "0 < Seq e" and "\<And>e'. e' \<in> set pre \<Longrightarrow> Seq e' < Seq e"
  shows "merge_inv s0 (pre @ [e]) s' a'"
proof -
  let ?old = "tree (store s0)"
  have f: "fetched s0 s" using assms(1) by (simp add: merge_inv_def)
  have f': "fetched s0 s'" using fetched_trans [OF f apply_entry_fetched [OF assms(2)]] .
  have none: "copies_for s e = []" by (rule copies_for_conflict(2) [OF f assms(4)])
  have old: "fold merge_entry pre ?old (Path e) = ?old (Path e)" by (rule fold_merge_fresh [OF assms(5)])
  have m: "fold merge_entry (pre @ [e]) ?old = (fold merge_entry pre ?old)(Path e := settle (?old (Path e)) (replicated e))"
    using old by (simp add: merge_entry_def)
  have lt: "safe a < Seq e" using assms(1,6,7) by (auto simp: merge_inv_def)
  show ?thesis
    using assms(2)
  proof (cases rule: apply_entry_cases)
    case rejected
    then show ?thesis using rejects_invalid [OF f] assms(3) by blast
  next
    case (drift x)
    then show ?thesis using rejects_drift [OF f drift(2)] assms(3) by blast
  next
    case (skip t)
    then obtain l where l: "?old (Path e) = Some l" "Ver e \<le> Ver l"
      using not_outdated_covers [OF skip(3)] fetchedD(11) [OF f] by (auto simp: covers_entry_def)
    then have "fold merge_entry (pre @ [e]) ?old = fold merge_entry pre ?old"
      unfolding m using old by (auto simp: settle_Some fun_upd_idem)
    then show ?thesis
      using assms(1) skip f' lt by (auto simp: merge_inv_def advance_def max_def)
  next
    case (stored t)
    have "settle (?old (Path e)) (replicated e) = Some (replicated e)"
      using outdated_tree [OF stored(3)] fetchedD(11) [OF f] by (cases "?old (Path e)") (auto simp: settle_Some)
    then have "put_all (batch a @ [e]) ?old = fold merge_entry (pre @ [e]) ?old" if "\<not> deferred a"
      unfolding m using that assms(1) by (simp add: merge_inv_def put_all_append)
    then show ?thesis
      using assms(1) stored(4) none f' lt by (auto simp: merge_inv_def advance_def max_def)
  next
    case (postponed t x)
    then show ?thesis using assms(1) lt f' by (auto simp: merge_inv_def)
  qed simp
qed

lemma applyRemote_merges:
  assumes "store_inv (store s)" and "applyRemote flt pc s addr es = (Inr n, s')"
    and "distinct (map Path es)" and "sorted_wrt (<) (0 # map Seq es)"
    and "\<forall>e \<in> set es. \<not> rejects s e \<and> \<not> conflicts_with s e \<and> Seq e \<le> n"
  shows "tree (store s') = fold merge_entry es (tree (store s))"
  using assms(2)
proof (cases rule: applyRemote_cases)
  case (applied a s1)
  have "case Inr a :: err + page_acc of Inl x \<Rightarrow> True | Inr a' \<Rightarrow> merge_inv s es s1 a'"
  proof (rule apply_entries_invariant [OF applied(1), where P = "merge_inv s" and Q = "\<lambda>_. True"])
    show "merge_inv s [] s new_page" by (simp add: merge_inv_def new_page_def)
    fix pre e rest t b b' t'
    assume es: "es = pre @ e # rest" and inv: "merge_inv s pre t b" and ap: "apply_entry flt pc addr e t b = (Inr b', t')"
    show "merge_inv s (pre @ [e]) t' b'"
      by (rule merge_inv_step [OF inv ap]) (use assms(3-5) in \<open>auto simp: es sorted_wrt_append\<close>)
  qed simp
  then have minv: "merge_inv s es s1 a" by simp
  then have f: "fetched s s1" by (simp add: merge_inv_def)
  have "\<not> deferred a" using minv assms(5) applied(2) by (force simp: merge_inv_def)
  then have t: "put_all (batch a) (tree (store s)) = fold merge_entry es (tree (store s))"
    using minv by (simp add: merge_inv_def)
  have inv1: "store_inv (store s1)" using fetchedD(9) [OF f assms(1)] .
  show ?thesis
    using t applied(3) commit_ok(3) [OF _ inv1, of flt "batch a" s'] fetchedD(11) [OF f] by auto
qed simp



end
