(* ===== verification/AntiEntropy_Sync.thy ===== *)
theory AntiEntropy_Sync
  imports AntiEntropy_Page
begin

text \<open>
  Whole pulls and the life of a service: the loop over pages and its end, the bookmark it leaves, garbage
  collection, the guard against overlapping pulls, and the step relation of a service in which local
  writes, pages of any number of pulls, bookmarks, collections and restarts interleave in any order.
\<close>

section \<open>The steps of a service\<close>

text \<open>
  Every operation that holds the write lock is one step, and so is a bookmark, a single statement of the
  database. \<open>st_wake\<close> is a subscriber taking its wake-up, \<open>st_restart\<close> a new process on the same database.
\<close>

inductive svc_step :: "Service \<Rightarrow> Service \<Rightarrow> bool" where
  st_local: "svc_step s (snd (local_step flt s x))"
| st_page: "verifying_client pc \<Longrightarrow> svc_step s (snd (applyRemote flt pc s addr es))"
| st_bookmark: "svc_step s (s\<lparr>store := snd (SetPeerSeq flt (store s) node addr q t)\<rparr>)"
| st_collect: "svc_step s (collect flt now s)"
| st_subscribe: "svc_step s (snd (Subscribe s))"
| st_unsubscribe: "svc_step s (Unsubscribe i s)"
| st_wake: "subs_m s i = Some True \<Longrightarrow> svc_step s (s\<lparr>subs_m := (subs_m s)(i := Some False)\<rparr>)"
| st_trigger: "svc_step s (snd (triggerSync node addr s))"
| st_finish: "svc_step s ((recordSync now e s)\<lparr>syncing := removeAll node (syncing s)\<rparr>)"
| st_restart: "svc_step s (New (cfg s) (store s) now)"

inductive_cases svc_stepE: "svc_step s s'"

definition svc_inv :: "Service \<Rightarrow> bool" where
  "svc_inv s \<longleftrightarrow>
     store_inv (store s) \<and> blobs_ok (store s)
     \<and> (\<forall>h \<in> set (announced s). h \<le> local_seq (store s))
     \<and> (\<forall>i. subs_m s i \<noteq> None \<longrightarrow> i < subs_next s)
     \<and> distinct (syncing s) \<and> Node (cfg s) \<notin> set (syncing s) \<and> '''' \<notin> set (syncing s)"

text \<open>What an operation on the store does to the rest of the service.\<close>

definition grows :: "Service \<Rightarrow> Service \<Rightarrow> bool" where
  "grows s s' \<longleftrightarrow>
     cfg s' = cfg s \<and> local_seq (store s) \<le> local_seq (store s')
     \<and> (\<forall>h \<in> set (announced s'). h \<in> set (announced s) \<or> h \<le> local_seq (store s'))
     \<and> subs_next s' = subs_next s \<and> (\<forall>i. subs_m s' i = None \<longleftrightarrow> subs_m s i = None)
     \<and> syncing s' = syncing s"

lemma grows_refl [simp]: "grows s s"
  by (auto simp: grows_def)

lemma grows_trans: "grows s s' \<Longrightarrow> grows s' s'' \<Longrightarrow> grows s s''"
  unfolding grows_def by (auto intro: order_trans)

lemma fetched_grows: "fetched s s' \<Longrightarrow> grows s s'"
  by (simp add: fetched_def grows_def)

lemma notify_subs_next [simp]: "subs_next (notify s) = subs_next s"
  by (simp add: notify_def)

lemma Apply_head: "fst (Apply flt st ms) = Inr h \<Longrightarrow> local_seq (snd (Apply flt st ms)) = h \<and> local_seq st \<le> h"
  by (auto simp: Apply_def Head_def Let_def split: if_splits option.splits)

lemma commit_grows: "grows s (snd (commit flt s ms))"
proof (cases "Apply flt (store s) ms")
  case (Pair r st)
  then show ?thesis
    using Apply_error [of flt "store s" ms] Apply_head [of flt "store s" ms]
    by (cases r) (auto simp: commit_def grows_def Let_def)
qed

lemma local_step_grows: "grows s (snd (local_step flt s x))"
proof -
  obtain e1 st where prep: "prepared flt s x = (e1, st)" by (cases "prepared flt s x")
  then obtain c where st: "st = store s \<or> st = snd (PutBlob flt (store s) c)"
    using prepared_store by blast
  have g: "grows s (s\<lparr>store := st, clock := c'\<rparr>)" "grows s (s\<lparr>store := st\<rparr>)" for c'
    using st by (auto simp: grows_def frame)
  show ?thesis
    using prep g grows_trans [OF g(1) commit_grows]
    by (auto simp: local_step_eq split: option.splits)
qed

lemma applyRemote_grows: "grows s (snd (applyRemote flt pc s addr es))"
proof (cases "applyRemote flt pc s addr es")
  case (Pair r s')
  then show ?thesis
  proof (cases rule: applyRemote_cases)
    case (failed e)
    then show ?thesis using Pair fetched_grows by simp
  next
    case (applied a s1)
    have g: "grows s s1" using fetched_grows apply_entries_fetched [OF applied(1)] by blast
    then show ?thesis
      using applied(3) grows_trans [OF g commit_grows [of s1 flt "batch a"]] Pair by auto
  qed
qed

lemma collect_eq:
  obtains st where "collect flt now s = s\<lparr>store := st\<rparr>"
    "st = snd (GCTombstones flt (store s) (wrap64 (now - TombstoneTTL (cfg s))))
     \<or> st = snd (GCBlobs flt (snd (GCTombstones flt (store s) (wrap64 (now - TombstoneTTL (cfg s))))))"
proof (cases "GCTombstones flt (store s) (wrap64 (now - TombstoneTTL (cfg s)))")
  case (Pair r st)
  then show thesis
    using that [of st] that [of "snd (GCBlobs flt st)"] by (cases r) (simp_all add: collect_def)
qed

lemma collect_grows: "grows s (collect flt now s)"
  by (rule collect_eq [of flt now s]) (auto simp: grows_def frame)

lemma collect_inv [inv_intros]:
  "store_inv (store s) \<Longrightarrow> store_inv (store (collect flt now s))"
  "blobs_ok (store s) \<Longrightarrow> blobs_ok (store (collect flt now s))"
  by (rule collect_eq [of flt now s], auto simp: inv_intros)+

lemma grows_inv:
  assumes "grows s s'" and "svc_inv s" and "store_inv (store s')" and "blobs_ok (store s')"
  shows "svc_inv s'"
  using assms unfolding svc_inv_def grows_def by (auto intro: order_trans)

lemma svc_inv_step:
  assumes "svc_step s s'" and "svc_inv s"
  shows "svc_inv s'"
proof -
  have inv: "store_inv (store s)" "blobs_ok (store s)" using assms(2) by (simp_all add: svc_inv_def)
  show ?thesis
    using assms(1)
  proof cases
    case (st_local flt x)
    then show ?thesis using grows_inv [OF local_step_grows assms(2)] local_step_inv [OF inv] by simp
  next
    case (st_page pc flt addr es)
    obtain r t where run: "applyRemote flt pc s addr es = (r, t)" by (cases "applyRemote flt pc s addr es")
    then show ?thesis
      using st_page grows_inv [OF applyRemote_grows assms(2), of flt pc addr es]
        verifying_client.applyRemote_invariants [OF st_page(2) run inv] by simp
  next
    case (st_bookmark flt node addr q t)
    have "grows s s'" using st_bookmark by (simp add: grows_def frame)
    then show ?thesis using grows_inv assms(2) st_bookmark inv by (simp add: inv_intros)
  next
    case (st_collect flt now)
    then show ?thesis using grows_inv [OF collect_grows assms(2)] inv by (simp add: inv_intros)
  qed (use assms(2) in \<open>auto simp: svc_inv_def Subscribe_def Unsubscribe_def triggerSync_def recordSync_def
        New_def less_Suc_eq distinct_removeAll split: option.splits if_splits\<close>)
qed

definition svc_reachable :: "Config \<Rightarrow> (nat \<Rightarrow> int) \<Rightarrow> Service \<Rightarrow> bool" where
  "svc_reachable c now s \<longleftrightarrow> svc_step\<^sup>*\<^sup>* (New c empty_store now) s"

lemma svc_inv_New: "svc_inv (New c empty_store now)"
  by (simp add: svc_inv_def New_def empty_store_inv)

lemma svc_steps_inv: "svc_step\<^sup>*\<^sup>* s s' \<Longrightarrow> svc_inv s \<Longrightarrow> svc_inv s'"
  by (induction rule: rtranclp_induct) (auto intro: svc_inv_step)

lemma svc_step_seq: "svc_step s s' \<Longrightarrow> local_seq (store s) \<le> local_seq (store s')"
  by (erule svc_stepE)
    (use local_step_grows applyRemote_grows collect_grows in \<open>auto simp: grows_def Subscribe_def Unsubscribe_def
      triggerSync_def recordSync_def frame split: option.splits\<close>)

section \<open>Pulls are sequences of steps\<close>

lemma sync_pages_steps:
  assumes "\<And>k. verifying_client (pcs k)"
    and "sync_pages pcs flts nows node addr fuel k cursor bookmark s = Some (e, s')"
  shows "svc_step\<^sup>*\<^sup>* s s'"
  using assms(2)
proof (induction fuel arbitrary: k cursor bookmark s)
  case (Suc fuel)
  show ?case
  proof (cases "pc_Manifest (pcs k) addr cursor")
    case (Inl x)
    then show ?thesis using Suc.prems by simp
  next
    case (Inr page)
    obtain r s1 where run: "applyRemote (flts k) (pcs k) s addr (mr_Entries page) = (r, s1)"
      by (cases "applyRemote (flts k) (pcs k) s addr (mr_Entries page)")
    have one: "svc_step s s1" using st_page [OF assms(1) [of k], of s "flts k" addr "mr_Entries page"] run by simp
    show ?thesis
    proof (cases r)
      case (Inl x)
      then show ?thesis using Suc.prems Inr run one by (auto split: if_splits)
    next
      case (Inr sf)
      obtain e2 st where set: "SetPeerSeq (flts k) (store s1) node addr (max bookmark sf) (nows k) = (e2, st)"
        by (cases "SetPeerSeq (flts k) (store s1) node addr (max bookmark sf) (nows k)")
      have two: "svc_step s1 (s1\<lparr>store := st\<rparr>)"
        using st_bookmark [of s1 "flts k" node addr "max bookmark sf" "nows k"] set by simp
      have both: "svc_step\<^sup>*\<^sup>* s (s1\<lparr>store := st\<rparr>)" using one two by (meson rtranclp.simps)
      show ?thesis
        using Suc.prems \<open>pc_Manifest (pcs k) addr cursor = Inr page\<close> run Inr set both
          rtranclp_trans [OF both Suc.IH]
        by (auto simp: Let_def split: if_splits option.splits)
    qed
  qed
qed simp

lemma syncPeer_steps:
  assumes "\<And>k. verifying_client (pcs k)"
    and "syncPeer pcs flts nows fuel s node addr = Some (e, s')"
  shows "svc_step\<^sup>*\<^sup>* s s'"
  using assms(2) sync_pages_steps [of pcs flts nows node addr fuel, OF assms(1)]
    st_bookmark [of s "flts 0" node addr _ "nows 0"]
  by (auto simp: syncPeer_def Let_def split: sum.splits if_splits prod.splits)
    (metis r_into_rtranclp snd_conv)+

section \<open>How a pull ends\<close>

lemma sync_pages_more_fuel:
  "sync_pages pcs flts nows node addr fuel k cursor bookmark s = Some r \<Longrightarrow>
   sync_pages pcs flts nows node addr (fuel + d) k cursor bookmark s = Some r"
  by (induction fuel arbitrary: k cursor bookmark s)
    (auto simp: Let_def split: sum.splits if_splits prod.splits option.splits)

lemma sync_pages_ends:
  assumes "\<And>k c page. I c \<Longrightarrow> pc_Manifest (pcs k) addr c = Inr page \<Longrightarrow> mr_Entries page \<noteq> [] \<Longrightarrow> mr_More page \<Longrightarrow>
             I (mr_Head page) \<and> c < mr_Head page \<and> mr_Head page \<le> top_seq"
    and "nat (top_seq - cursor) < fuel" and "I cursor"
  shows "\<exists>r. sync_pages pcs flts nows node addr fuel k cursor bookmark s = Some r"
  using assms(2,3)
proof (induction fuel arbitrary: k cursor bookmark s)
  case (Suc fuel)
  show ?case
  proof (cases "pc_Manifest (pcs k) addr cursor")
    case (Inr page)
    have "\<exists>r. sync_pages pcs flts nows node addr fuel (Suc k) (mr_Head page) bm s' = Some r"
      if "mr_Entries page \<noteq> []" "mr_More page" for bm s'
    proof (rule Suc.IH)
      show "nat (top_seq - mr_Head page) < fuel" "I (mr_Head page)"
        using assms(1) [OF Suc.prems(2) Inr that] Suc.prems by linarith+
    qed
    then show ?thesis using Inr by (auto simp: Let_def split: sum.splits prod.splits option.splits)
  qed simp
qed simp

section \<open>Properties\<close>

text \<open>C6. The invariants of a node hold in every state it can reach from an empty database, under every
  interleaving of local writes, pages of any peers, bookmarks, garbage collections, subscriptions,
  pulls and restarts and whichever database calls fail: one row per path, feed positions distinct and up to the
  counter, blobs stored under their hash, the content of every live file present, no head announced that
  the feed has not reached, and at most one pull per peer in flight, none of the node itself. Peers may
  answer anything, as long as the client checks content against its hash.\<close>

theorem reachable_states_are_sound:
  assumes "svc_reachable c now s"
  shows "svc_inv s"
  using assms svc_steps_inv [OF _ svc_inv_New] by (simp add: svc_reachable_def)

theorem reachable_states_are_sound_witness:
  "let s = snd (PutDir (\<lambda>_. False) (New (cfg example_service) empty_store (\<lambda>_. 5)) ''d'' 448 0 0)
   in svc_reachable (cfg example_service) (\<lambda>_. 5) s \<and> svc_inv s \<and> announced s = [1]"
proof -
  let ?s = "snd (PutDir (\<lambda>_. False) (New (cfg example_service) empty_store (\<lambda>_. 5)) ''d'' 448 0 0)"
  have "svc_step (New (cfg example_service) empty_store (\<lambda>_. 5)) ?s"
    using st_local [of _ "\<lambda>_. False" "LPutDir ''d'' 448 0 0"] by simp
  then have "svc_reachable (cfg example_service) (\<lambda>_. 5) ?s" unfolding svc_reachable_def by blast
  moreover have "announced ?s = [1]" by code_simp
  ultimately show ?thesis using reachable_states_are_sound by (simp add: Let_def)
qed

text \<open>A pull ends: against a peer whose pages, while they promise more, move the cursor forward and not
  beyond some position, the loop over pages returns after at most as many rounds as there are positions
  left, with a result that does not depend on the fuel; whatever the peer's answers were, it has taken
  the service only through steps that other operations may interleave with.\<close>

theorem sync_pages_returns:
  assumes "\<forall>k c page. pc_Manifest (pcs k) addr c = Inr page \<and> mr_Entries page \<noteq> [] \<and> mr_More page \<longrightarrow>
             c < mr_Head page \<and> mr_Head page \<le> top_seq"
    and "\<forall>k. verifying_client (pcs k)"
  shows "\<exists>e s'. (\<forall>fuel > nat (top_seq - cursor).
             sync_pages pcs flts nows node addr fuel k cursor bookmark s = Some (e, s'))
           \<and> svc_step\<^sup>*\<^sup>* s s'"
proof -
  let ?n = "Suc (nat (top_seq - cursor))"
  have "\<exists>r. sync_pages pcs flts nows node addr ?n k cursor bookmark s = Some r"
    by (rule sync_pages_ends [where I = "\<lambda>_. True"]) (use assms(1) in auto)
  then obtain e s' where r: "sync_pages pcs flts nows node addr ?n k cursor bookmark s = Some (e, s')"
    by auto
  have "sync_pages pcs flts nows node addr fuel k cursor bookmark s = Some (e, s')"
    if "nat (top_seq - cursor) < fuel" for fuel
  proof -
    have "fuel = ?n + (fuel - ?n)" using that by simp
    then show ?thesis using sync_pages_more_fuel [OF r, of "fuel - ?n"] by metis
  qed
  moreover have "svc_step\<^sup>*\<^sup>* s s'" using sync_pages_steps [OF _ r] assms(2) by blast
  ultimately show ?thesis by blast
qed

text \<open>C11. Nothing in the loop checks that the cursor moves. A peer that keeps answering with a page of one
  malformed entry and the promise of more is asked again for ever: the entry is rejected, which does not
  stop the loop, and however much fuel it is given the loop does not return. The pull holds the slot of
  that peer, so no other pull from it is started.\<close>

theorem sync_pages_can_run_forever:
  assumes "\<forall>k c. pc_Manifest (pcs k) addr c = Inr \<lparr>mr_Entries = [m], mr_Head = h, mr_More = True\<rparr>"
    and "\<not> good_path (Path m)" and "\<forall>k. \<not> flts k (DbSetPeerSeq node)"
  shows "sync_pages pcs flts nows node addr fuel k cursor bookmark s = None"
proof (induction fuel arbitrary: k cursor bookmark s)
  case (Suc fuel)
  have "validate s m = Some ErrBadPath" using assms(2) by (simp add: validate_def SanitizePath_bad)
  then have page: "applyRemote (flts k) (pcs k) s addr [m] = (Inr (max 0 (Seq m)), s)"
    by (simp add: applyRemote_def apply_entry_def new_page_def advance_def)
  obtain st where "SetPeerSeq (flts k) (store s) node addr (max bookmark (max 0 (Seq m))) (nows k) = (None, st)"
    using assms(3) by (cases "fst (SetPeerSeq (flts k) (store s) node addr (max bookmark (max 0 (Seq m))) (nows k))")
      (auto simp: SetPeerSeq_def Let_def split: if_splits)
  then show ?case using assms(1) Suc.IH page by (simp add: Let_def)
qed simp

text \<open>A peer that serves the example page one entry at a time and has no content.\<close>

definition example_peer :: PeerClient where
  "example_peer =
     \<lparr>pc_Digest = \<lambda>_. Inr \<lparr>dr_Digest = ''other'', dr_Entries = 2, dr_Head = 9\<rparr>,
      pc_Manifest = \<lambda>_ c.
        (let es = filter (\<lambda>e. c < Seq e) example_page
         in Inr \<lparr>mr_Entries = take 1 es, mr_Head = (case es of [] \<Rightarrow> c | e # _ \<Rightarrow> Seq e), mr_More = 1 < length es\<rparr>),
      pc_Blob = \<lambda>_ _. Inl ErrPeer\<rparr>"

lemma example_peer_verifies: "verifying_client example_peer"
  by unfold_locales (simp add: example_peer_def)

theorem sync_pages_returns_witness:
  "\<exists>e s'. sync_pages (\<lambda>_. example_peer) (\<lambda>_ _. False) (\<lambda>_. 0) ''n2'' ''x'' 20 1 0 0 example_started = Some (e, s')
     \<and> e = None \<and> PeerSeq (\<lambda>_. False) (store s') ''n2'' = Inr 9 \<and> svc_step\<^sup>*\<^sup>* example_started s'"
proof -
  let ?run = "sync_pages (\<lambda>_. example_peer) (\<lambda>_ _. False) (\<lambda>_. 0) ''n2'' ''x'' 20 1 0 0 example_started"
  have "\<forall>k c page. pc_Manifest ((\<lambda>_. example_peer) k) ''x'' c = Inr page \<and> mr_Entries page \<noteq> [] \<and> mr_More page \<longrightarrow>
      c < mr_Head page \<and> mr_Head page \<le> 9"
    by (auto simp: example_peer_def example_page_def Let_def split: if_splits)
  from sync_pages_returns [OF this, of 0 "\<lambda>_ _. False" "\<lambda>_. 0" "''n2''" 1 0 example_started] example_peer_verifies
  obtain e s' where run: "?run = Some (e, s')" and steps: "svc_step\<^sup>*\<^sup>* example_started s'" by auto
  have "case ?run of None \<Rightarrow> False | Some (e, s') \<Rightarrow> e = None \<and> PeerSeq (\<lambda>_. False) (store s') ''n2'' = Inr 9"
    by code_simp
  then show ?thesis using run steps by simp
qed

theorem sync_pages_can_run_forever_witness:
  "let m = zero_Meta\<lparr>Path := ''/etc'', Seq := 3\<rparr>;
       peer = example_peer\<lparr>pc_Manifest := \<lambda>_ _. Inr \<lparr>mr_Entries = [m], mr_Head = 0, mr_More = True\<rparr>\<rparr>
   in sync_pages (\<lambda>_. peer) (\<lambda>_ _. False) (\<lambda>_. 0) ''n2'' ''x'' 1000000 1 0 0 example_started = None"
proof -
  let ?m = "zero_Meta\<lparr>Path := ''/etc'', Seq := 3\<rparr>"
  let ?peer = "example_peer\<lparr>pc_Manifest := \<lambda>_ _. Inr \<lparr>mr_Entries = [?m], mr_Head = 0, mr_More = True\<rparr>\<rparr>"
  have "\<not> good_path (Path ?m)"
    by (simp add: good_path_def good_element_def plain_element_def)
  from sync_pages_can_run_forever [of "\<lambda>_. ?peer" "''x''" ?m 0, OF _ this, of "\<lambda>_ _. False"]
  show ?thesis by (simp add: Let_def)
qed


definition deferring_peer :: PeerClient where
  "deferring_peer = example_peer\<lparr>pc_Manifest := \<lambda>_ c.
     (if c < 4
      then Inr \<lparr>mr_Entries = [zero_Meta\<lparr>Path := ''g'', Kind := KindFile, Hash := replicate 64 CHR ''a'', Size := 3,
                               Ver := Version (Timestamp 1500 0) ''n2'', Seq := 4\<rparr>],
                mr_Head = 4, mr_More = True\<rparr>
      else Inr \<lparr>mr_Entries = [zero_Meta\<lparr>Path := ''f'', Kind := KindDir,
                               Ver := Version (Timestamp 1500 1) ''n2'', Seq := 9\<rparr>],
                mr_Head = 9, mr_More = False\<rparr>)\<rparr>"


lemma find_filter_key: "P h \<Longrightarrow> find (\<lambda>b. f b = h) (filter (\<lambda>b. P (f b)) bs) = find (\<lambda>b. f b = h) bs"
  by (induction bs) auto

lemma GCBlobs_Blob: "referenced st h \<Longrightarrow> Blob flt' (snd (GCBlobs flt st)) h = Blob flt' st h"
  using find_filter_key [of "referenced st" h b_hash "blobs st"] by (simp add: Blob_def GCBlobs_def)

lemma tree_referenced:
  "store_inv st \<Longrightarrow> tree st p = Some m \<Longrightarrow> Hash m \<noteq> '''' \<Longrightarrow> referenced st (Hash m)"
  by (auto simp: tree_iff_rows referenced_def)

text \<open>The janitor collects garbage only: the tree afterwards is the tree before without tombstones older
  than the retention time, every entry that stays still finds exactly the same content under its hash, and
  the invariants hold, whichever of its two statements fails. If none fails, no expired tombstone and no
  unreferenced blob is left.\<close>

theorem collect_only_garbage:
  assumes "store_inv (store s)" and "blobs_ok (store s)"
  shows "let s' = collect flt now s; horizon = wrap64 (now - TombstoneTTL (cfg s))
         in store_inv (store s') \<and> blobs_ok (store s')
            \<and> (\<forall>p. tree (store s') p = tree (store s) p
                 \<or> tree (store s') p = None
                   \<and> (\<exists>m. tree (store s) p = Some m \<and> Deleted m \<and> 0 < DeletedAt m \<and> DeletedAt m < horizon))
            \<and> (\<forall>p m flt'. tree (store s') p = Some m \<and> Hash m \<noteq> '''' \<longrightarrow>
                 Blob flt' (store s') (Hash m) = Blob flt' (store s) (Hash m))
            \<and> (\<not> flt DbGCTombstones \<and> \<not> flt DbGCBlobs \<longrightarrow>
                 (\<forall>r \<in> set (entries (store s')). \<not> expired horizon r)
                 \<and> (\<forall>b \<in> set (blobs (store s')). referenced (store s') (b_hash b)))"
proof -
  let ?h = "wrap64 (now - TombstoneTTL (cfg s))"
  let ?t = "snd (GCTombstones flt (store s) ?h)"
  let ?s' = "collect flt now s"
  obtain st where st: "?s' = s\<lparr>store := st\<rparr>" "st = ?t \<or> st = snd (GCBlobs flt ?t)"
    using collect_eq [of flt now s] by blast
  have inv: "store_inv st" "blobs_ok st"
    using collect_inv [of s flt now] assms st(1) by simp_all
  have tr: "tree st = tree ?t" using st(2) by (auto simp: frame)
  have 1: "tree st p = tree (store s) p \<or> tree st p = None
      \<and> (\<exists>m. tree (store s) p = Some m \<and> Deleted m \<and> 0 < DeletedAt m \<and> DeletedAt m < ?h)" for p
    unfolding tr GCTombstones_tree [OF assms(1)]
    by (auto simp: tree_def expired_def split: option.splits)
  have 2: "Blob flt' st (Hash m) = Blob flt' (store s) (Hash m)" if "tree st p = Some m" "Hash m \<noteq> ''''" for p m flt'
  proof -
    have t: "Blob flt' ?t h = Blob flt' (store s) h" for h by (simp add: Blob_def frame)
    have "referenced ?t (Hash m)"
      using tree_referenced [OF GCTombstones_inv [OF assms(1)]] that tr by metis
    then show ?thesis using st(2) t GCBlobs_Blob by auto
  qed
  have 3: "(\<forall>r \<in> set (entries st). \<not> expired ?h r) \<and> (\<forall>b \<in> set (blobs st). referenced st (b_hash b))"
    if ok: "\<not> flt DbGCTombstones" "\<not> flt DbGCBlobs"
  proof -
    have "st = snd (GCBlobs flt ?t)"
      using st(1) ok by (simp add: collect_def Let_def GCTombstones_def)
        (metis Service.select_convs(2) Service.surjective Service.update_convs(2))
    then show ?thesis using ok by (auto simp: GCBlobs_def GCTombstones_def referenced_def)
  qed
  show ?thesis unfolding Let_def using st(1) inv 1 2 3 by auto
qed

theorem collect_only_garbage_witness:
  "let s' = collect (\<lambda>_. False) 100 example_started
   in tree (store s') ''a'' = None \<and> tree (store s') ''d'' = tree example_store ''d''
      \<and> (\<forall>r \<in> set (entries (store s')). \<not> expired 50 r)"
proof -
  have inv: "store_inv (store example_started)" "blobs_ok (store example_started)"
    using example_service_inv by simp_all
  have horizon: "wrap64 (100 - TombstoneTTL (cfg example_started)) = 50" by (simp add: int64_defs)
  have "tree (store (collect (\<lambda>_. False) 100 example_started)) ''a'' = None"
    "tree (store (collect (\<lambda>_. False) 100 example_started)) ''d'' \<noteq> None"
    by code_simp+
  then show ?thesis
    using collect_only_garbage [OF inv, of "\<lambda>_. False" 100] unfolding Let_def horizon by auto
qed

section \<open>One pull per peer\<close>

lemma triggerSync_frame [simp]: "cfg (snd (triggerSync n a s)) = cfg s" "store (snd (triggerSync n a s)) = store s"
  by (simp_all add: triggerSync_def)

lemma triggerSync_slot:
  "triggerSync n a s = (b, s') \<Longrightarrow>
     syncing s' = (if b then n # syncing s else syncing s)
     \<and> (b \<longrightarrow> n \<notin> set (syncing s) \<and> n \<noteq> '''' \<and> a \<noteq> '''' \<and> n \<noteq> Node (cfg s))"
  by (auto simp: triggerSync_def split: if_splits)

lemma syncAll_slots:
  assumes "syncAll ms s = (started, s')"
  shows "cfg s' = cfg s \<and> store s' = store s \<and> syncing s' = rev (map fst started) @ syncing s
       \<and> (distinct (syncing s) \<longrightarrow> distinct (map fst started) \<and> fst ` set started \<inter> set (syncing s) = {})
       \<and> (\<forall>(n, a) \<in> set started. n \<noteq> '''' \<and> a \<noteq> '''' \<and> n \<noteq> Node (cfg s))"
  using assms
proof (induction ms arbitrary: s s' started)
  case (Cons m ms)
  show ?case
  proof (cases "mem_Self m \<or> mem_Addr m = ''''")
    case True
    then have r: "syncAll ms s = (started, s')" using Cons.prems by auto
    show ?thesis by (rule Cons.IH [OF r])
  next
    case False
    obtain b s1 where t: "triggerSync (mem_Node m) (mem_Addr m) s = (b, s1)"
      by (cases "triggerSync (mem_Node m) (mem_Addr m) s")
    obtain rest s2 where r: "syncAll ms s1 = (rest, s2)" by (cases "syncAll ms s1")
    have eq: "started = (if b then (mem_Node m, mem_Addr m) # rest else rest)" "s' = s2"
      using Cons.prems False t r by auto
    have "cfg s1 = cfg s" "store s1 = store s" using t triggerSync_frame by (metis snd_conv)+
    then show ?thesis
      using Cons.IH [OF r] triggerSync_slot [OF t] unfolding eq by (cases b; force)
  qed
qed simp

text \<open>At most one pull per peer is in flight: a turn of \<^verbatim>\<open>Run\<close>, on a join or a hint from gossip or on the
  anti-entropy timer, starts pulls only for peers that have none, at most one for each however often a
  peer is listed, never for the node itself and never without a name and an address; each pull it starts
  is marked, and no mark is removed or set otherwise. A leave starts nothing, and the janitor's turn
  leaves the marks alone.\<close>

theorem run_turn_starts_one_pull_per_peer:
  assumes "distinct (syncing s)" and "run_turn flt ev (op, s) = (started, (op', s'))"
  shows "distinct (map fst started) \<and> set (map fst started) \<inter> set (syncing s) = {}
       \<and> syncing s' = rev (map fst started) @ syncing s
       \<and> (\<forall>(n, a) \<in> set started. n \<noteq> '''' \<and> a \<noteq> '''' \<and> n \<noteq> Node (cfg s))"
proof (cases ev)
  case (RunEvent e)
  obtain b s1 where t: "triggerSync (ev_Node e) (ev_Addr e) s = (b, s1)"
    by (cases "triggerSync (ev_Node e) (ev_Addr e) s")
  then show ?thesis
    using RunEvent assms(2) triggerSync_slot [OF t] by (auto simp: run_turn_def split: if_splits)
next
  case (RunSyncTick ms)
  obtain st s1 where r: "syncAll ms s = (st, s1)" by (cases "syncAll ms s")
  show ?thesis
  proof (cases "HasPeers (cfg s)")
    case True
    then have "started = st" "s' = s1" using RunSyncTick assms(2) r by (auto simp: run_turn_def)
    then show ?thesis using syncAll_slots [OF r] assms(1) by simp
  qed (use RunSyncTick assms(2) in \<open>auto simp: run_turn_def\<close>)
next
  case (RunJanitorTick now)
  then show ?thesis using assms(2) collect_grows [of s flt now] by (auto simp: run_turn_def grows_def)
qed (use assms(2) in \<open>auto simp: run_turn_def\<close>)

theorem run_turn_starts_one_pull_per_peer_witness:
  "let m = \<lparr>mem_Node = ''n2'', mem_Addr = ''h:1'', mem_Self = False\<rparr>
   in run_turn (\<lambda>_. False) (RunSyncTick [m, m]) (True, example_service)
        = ([(''n2'', ''h:1'')], (True, example_service\<lparr>syncing := [''n2'']\<rparr>))
      \<and> distinct (map fst [(''n2'', ''h:1'')])"
proof -
  let ?m = "\<lparr>mem_Node = ''n2'', mem_Addr = ''h:1'', mem_Self = False\<rparr>"
  have sy: "syncing example_service = []" by (simp add: example_service_def Subscribe_def)
  have run: "run_turn (\<lambda>_. False) (RunSyncTick [?m, ?m]) (True, example_service)
      = ([(''n2'', ''h:1'')], (True, example_service\<lparr>syncing := [''n2'']\<rparr>))"
    by (simp add: run_turn_def triggerSync_def sy)
  have "distinct (syncing example_service)" by (simp add: sy)
  from run_turn_starts_one_pull_per_peer [OF this run] run show ?thesis by (simp add: Let_def)
qed

end
