(* ===== verification/Transport_Props.thy ===== *)
theory Transport_Props
  imports Transport Store_Digest AntiEntropy_Sync
begin

text \<open>
  What the peer API promises: a signed request is accepted by the peer and by no one else's path, an
  unsigned one learns nothing of the store, what the client returns is what the server's store holds, and
  reading a feed page by page yields the feed.
\<close>

section \<open>The Authorization header\<close>

lemma hex_chars: "c \<in> set (hex_encode bs) \<Longrightarrow> is_lower_hex c"
  using hex_encode_lower [of bs] by (auto simp: list_all_iff)

lemma no_colon [simp]: "CHR '':'' \<notin> set (hex_encode bs)" "CHR '':'' \<notin> set (dec_int i)" "CHR '':'' \<notin> set (sign k m p n t x)"
proof -
  show "CHR '':'' \<notin> set (hex_encode bs)"
    by (auto dest!: hex_chars simp: is_lower_hex_def)
  have "d < 10 \<Longrightarrow> digit d \<noteq> CHR '':''" for d
    by (drule digit_cases) (auto simp: digit_def)
  then show "CHR '':'' \<notin> set (dec_int i)"
    by (auto simp: dec_int_def dest!: dec_nat_chars) (metis)+
  show "CHR '':'' \<notin> set (sign k m p n t x)"
    by (simp add: sign_def b64_encode_no_colon)
qed

lemma time_Since_within: "\<bar>now - t\<bar> \<le> MaxSkew \<Longrightarrow> time_Since now t \<le> MaxSkew \<and> - MaxSkew \<le> time_Since now t"
  by (auto simp: time_Since_def MaxSkew_def int64_defs)

lemma time_Since_outside: "\<bar>now - t\<bar> > MaxSkew \<Longrightarrow> time_Since now t > MaxSkew \<or> time_Since now t < - MaxSkew"
  by (auto simp: time_Since_def MaxSkew_def int64_defs abs_if split: if_splits)

lemma Cut_scheme: "Cut CHR '' '' (AuthScheme @ '' '' @ rest) = Some (AuthScheme, rest)"
  by (simp add: AuthScheme_def)

lemma verify_iff:
  "verify key now r = Inr node \<longleftrightarrow>
     (\<exists>tsRaw ts nonce. rq_Authorization r = AuthScheme @ '' '' @ join_on CHR '':'' [node, tsRaw, nonce,
          sign key (rq_Method r) (RequestURI r) node ts nonce]
        \<and> CHR '':'' \<notin> set node \<and> CHR '':'' \<notin> set tsRaw \<and> CHR '':'' \<notin> set nonce
        \<and> node \<noteq> '''' \<and> nonce \<noteq> '''' \<and> ParseInt tsRaw = Some ts \<and> \<bar>now - ts\<bar> \<le> MaxSkew)"
    (is "?lhs \<longleftrightarrow> ?rhs")
proof
  assume ?lhs
  then obtain rest tsRaw nonce ts sig where
    cut: "Cut CHR '' '' (rq_Authorization r) = Some (AuthScheme, rest)"
    and parts: "split_on CHR '':'' rest = [node, tsRaw, nonce, sig]"
    and ne: "node \<noteq> ''''" "nonce \<noteq> ''''" and ts: "ParseInt tsRaw = Some ts"
    and skew: "\<not> (time_Since now ts > MaxSkew \<or> time_Since now ts < - MaxSkew)"
    and sig: "sign key (rq_Method r) (RequestURI r) node ts nonce = sig"
    by (auto simp: verify_def Let_def split: option.splits if_splits list.splits)
  have "rest = join_on CHR '':'' [node, tsRaw, nonce, sig]" using join_split [of "CHR '':''" rest] parts by simp
  moreover have "rq_Authorization r = AuthScheme @ '' '' @ rest"
    using cut by (simp add: Cut_Some_iff)
  moreover have "\<And>w. w \<in> set [node, tsRaw, nonce, sig] \<Longrightarrow> CHR '':'' \<notin> set w"
    using split_on_no_sep [of _ "CHR '':''" rest] parts by simp
  moreover have "\<bar>now - ts\<bar> \<le> MaxSkew" using time_Since_outside skew by (meson not_le)
  ultimately show ?rhs using ne ts sig by auto
next
  assume ?rhs
  then obtain tsRaw ts nonce where
    auth: "rq_Authorization r = AuthScheme @ '' '' @ join_on CHR '':'' [node, tsRaw, nonce,
          sign key (rq_Method r) (RequestURI r) node ts nonce]"
    and nc: "CHR '':'' \<notin> set node" "CHR '':'' \<notin> set tsRaw" "CHR '':'' \<notin> set nonce"
    and ne: "node \<noteq> ''''" "nonce \<noteq> ''''" and ts: "ParseInt tsRaw = Some ts" "\<bar>now - ts\<bar> \<le> MaxSkew"
    by auto
  have "split_on CHR '':'' (join_on CHR '':'' [node, tsRaw, nonce, sign key (rq_Method r) (RequestURI r) node ts nonce])
      = [node, tsRaw, nonce, sign key (rq_Method r) (RequestURI r) node ts nonce]"
    by (rule split_join) (use nc in auto)
  then show ?lhs
    unfolding verify_def auth Cut_scheme using ne ts time_Since_within [OF ts(2)] by (auto simp: Let_def)
qed

lemma verify_error: "verify key now r = Inl e \<Longrightarrow> e = ErrUnauthorized"
  by (auto simp: verify_def Let_def split: option.splits if_splits list.splits)

lemma hex_encode_nonempty: "bs \<noteq> [] \<Longrightarrow> hex_encode bs \<noteq> []"
  by (cases bs) (auto simp: hex_encode_def hex_byte_def Let_def)

lemma verify_authorize:
  assumes "authorize key (rq_Method r) (RequestURI r) node t (Some bs) = Inr (rq_Authorization r)"
    and "node \<noteq> ''''" and "CHR '':'' \<notin> set node" and "bs \<noteq> []" and "is_int64 t" and "\<bar>now - t\<bar> \<le> MaxSkew"
  shows "verify key now r = Inr node"
proof -
  have "rq_Authorization r = AuthScheme @ '' '' @ join_on CHR '':'' [node, dec_int t, hex_encode bs,
      sign key (rq_Method r) (RequestURI r) node t (hex_encode bs)]"
    using assms(1) by (simp add: authorize_def Let_def)
  moreover have "ParseInt (dec_int t) = Some t" using assms(5) by simp
  moreover have "hex_encode bs \<noteq> ''''" using assms(4) by (rule hex_encode_nonempty)
  ultimately show ?thesis
    unfolding verify_iff using assms(2,3,6) no_colon(1,2) by blast
qed

section \<open>Properties\<close>

text \<open>C14. A request is accepted exactly when its header carries the scheme and four fields without colons:
  a node name, a timestamp within five minutes of the server's clock either way, a nonce, and the HMAC
  signature of method, path with query, node, timestamp and nonce. Hence what \<^verbatim>\<open>authorize\<close> produces is
  accepted by \<^verbatim>\<open>verify\<close> under the same key, method and path while the clocks agree to five minutes. A
  node whose name contains a colon is never accepted, although the comment in \<^verbatim>\<open>verify\<close> says such a name
  cannot shift the other fields.\<close>

theorem verify_accepts_authorized_requests:
  assumes "authorize key (rq_Method r) (RequestURI r) node t (Some bs) = Inr (rq_Authorization r)"
    and "bs \<noteq> []" and "is_int64 t"
  shows "verify key now r =
           (if node \<noteq> '''' \<and> CHR '':'' \<notin> set node \<and> \<bar>now - t\<bar> \<le> 300000000000 then Inr node
            else Inl ErrUnauthorized)"
proof (cases "node \<noteq> '''' \<and> CHR '':'' \<notin> set node \<and> \<bar>now - t\<bar> \<le> 300000000000")
  case True
  then show ?thesis using verify_authorize [OF assms(1) _ _ assms(2,3)] by (simp add: MaxSkew_def)
next
  case False
  have auth: "rq_Authorization r = AuthScheme @ '' '' @ join_on CHR '':'' [node, dec_int t, hex_encode bs,
      sign key (rq_Method r) (RequestURI r) node t (hex_encode bs)]"
    using assms(1) by (simp add: authorize_def Let_def)
  have "verify key now r \<noteq> Inr node'" for node'
  proof
    assume "verify key now r = Inr node'"
    then obtain tsRaw ts nonce sg where
      eq: "join_on CHR '':'' [node, dec_int t, hex_encode bs, sign key (rq_Method r) (RequestURI r) node t (hex_encode bs)]
         = join_on CHR '':'' [node', tsRaw, nonce, sg]"
      and nc: "CHR '':'' \<notin> set node'" "CHR '':'' \<notin> set tsRaw" "CHR '':'' \<notin> set nonce" "CHR '':'' \<notin> set sg"
      and ok: "node' \<noteq> ''''" "ParseInt tsRaw = Some ts" "\<bar>now - ts\<bar> \<le> MaxSkew"
      unfolding verify_iff auth by (auto simp: no_colon)
    have "split_on CHR '':'' (join_on CHR '':'' [node', tsRaw, nonce, sg]) = [node', tsRaw, nonce, sg]"
      by (rule split_join) (use nc in auto)
    moreover have "split_on CHR '':'' (join_on CHR '':'' [node, dec_int t, hex_encode bs, sign key (rq_Method r) (RequestURI r) node t (hex_encode bs)])
        = split_on CHR '':'' node @ [dec_int t, hex_encode bs, sign key (rq_Method r) (RequestURI r) node t (hex_encode bs)]"
      by (simp add: split_on_append_both split_on_plain)
    ultimately have "split_on CHR '':'' node @ [dec_int t, hex_encode bs, sign key (rq_Method r) (RequestURI r) node t (hex_encode bs)]
        = [node', tsRaw, nonce, sg]"
      using eq by simp
    then have parts: "split_on CHR '':'' node = [node']" "tsRaw = dec_int t"
      using split_on_nonempty [of "CHR '':''" node] by (auto simp: append_eq_Cons_conv)
    then have "node = node'" using join_split [of "CHR '':''" node] by simp
    then show False using parts(2) nc(1) ok assms(3) False by (simp add: MaxSkew_def)
  qed
  then show ?thesis using False verify_error by (cases "verify key now r") auto
qed

definition example_signed :: Request where
  "example_signed =
     (let r = \<lparr>rq_Method = ''GET'', rq_Path = ''/v1/manifest'', rq_Since = Some ''17'', rq_Authorization = ''''\<rparr>
      in case authorize ''key'' ''GET'' (RequestURI r) ''n1'' 7000 (Some ''abc'') of
           Inl _ \<Rightarrow> r
         | Inr a \<Rightarrow> r\<lparr>rq_Authorization := a\<rparr>)"

theorem verify_accepts_authorized_requests_witness:
  "verify ''key'' 300000007000 example_signed = Inr ''n1''
     \<and> verify ''key'' 300000007001 example_signed = Inl ErrUnauthorized"
proof -
  have a: "authorize ''key'' (rq_Method example_signed) (RequestURI example_signed) ''n1'' 7000 (Some ''abc'')
      = Inr (rq_Authorization example_signed)"
    by (simp add: example_signed_def authorize_def Let_def RequestURI_def)
  show ?thesis
    using verify_accepts_authorized_requests [OF a, of 300000007000]
      verify_accepts_authorized_requests [OF a, of 300000007001]
    by (simp add: int64_defs)
qed

section \<open>Who learns what\<close>

lemma route_status: "route_of p = Some rt \<Longrightarrow> rt = RHealth \<longleftrightarrow> p = ''/healthz''"
  by (auto simp: route_of_def split: if_splits)

text \<open>C31. A request without a valid signature learns nothing of the node: its answer is the same whatever the
  store holds, whatever the status document says, whatever fails and whichever nonce is drawn, and unless the path is the
  health check it is an error.\<close>

theorem unauthenticated_requests_learn_nothing:
  assumes "verify (API (sv_keys sv)) now r = Inl e" and "API (sv_keys sv') = API (sv_keys sv)"
  shows "Handler sv now flt st status r = Handler sv' now flt' st' status' r
       \<and> (rq_Path r \<noteq> ''/healthz'' \<longrightarrow> rs_Status (Handler sv now flt st status r) \<in> {401, 404, 405})"
proof (cases "route_of (rq_Path r)")
  case None
  then show ?thesis by (simp add: Handler_def http_Error_def)
next
  case (Some rt)
  then show ?thesis using assms route_status [OF Some] by (auto simp: Handler_def http_Error_def)
qed

definition example_keys :: Keys where
  "example_keys = \<lparr>Gossip = replicate 32 CHR ''g'', API = replicate 32 CHR ''a'', Blob_key = replicate 32 CHR ''b''\<rparr>"

definition example_server :: Server where
  "example_server = \<lparr>sv_keys = example_keys, sv_nonce = Some ''abcdefghijkl''\<rparr>"

theorem unauthenticated_requests_learn_nothing_witness:
  "let r = \<lparr>rq_Method = ''GET'', rq_Path = ''/v1/digest'', rq_Since = None, rq_Authorization = ''DCFS1 n1:5''\<rparr>
   in Handler example_server 7 (\<lambda>_. False) example_store (Inl ErrDB) r
        = Handler example_server 7 (\<lambda>_. False) empty_store (Inl ErrDB) r"
proof -
  let ?r = "\<lparr>rq_Method = ''GET'', rq_Path = ''/v1/digest'', rq_Since = None, rq_Authorization = ''DCFS1 n1:5''\<rparr>"
  have "verify (API (sv_keys example_server)) 7 ?r = Inl ErrUnauthorized"
    by (simp add: verify_def AuthScheme_def)
  then show ?thesis
    using unauthenticated_requests_learn_nothing [of example_server 7 ?r ErrUnauthorized example_server] by auto
qed

text \<open>A signature is good for one request only: a header that two requests are accepted with, at whatever
  times, was made for the same method and the same path with query, provided the MAC does not collide on
  the two signed texts. So a header captured for one blob does not open another.\<close>

theorem signature_binds_request:
  assumes "verify key now r = Inr node" and "verify key now' r' = Inr node'"
    and "rq_Authorization r = rq_Authorization r'"
    and "\<forall>t x. sign key (rq_Method r) (RequestURI r) node t x = sign key (rq_Method r') (RequestURI r') node t x \<longrightarrow>
           signed_text (rq_Method r) (RequestURI r) node t x = signed_text (rq_Method r') (RequestURI r') node t x"
    and "CHR 0x0A \<notin> set (rq_Method r)" and "CHR 0x0A \<notin> set (rq_Method r')"
  shows "node = node' \<and> rq_Method r = rq_Method r' \<and> RequestURI r = RequestURI r'"
proof -
  obtain tsRaw ts nonce where
    h: "rq_Authorization r = AuthScheme @ '' '' @ join_on CHR '':'' [node, tsRaw, nonce, sign key (rq_Method r) (RequestURI r) node ts nonce]"
    "CHR '':'' \<notin> set node" "CHR '':'' \<notin> set tsRaw" "CHR '':'' \<notin> set nonce" "ParseInt tsRaw = Some ts"
    using assms(1) unfolding verify_iff by blast
  obtain tsRaw' ts' nonce' where
    h': "rq_Authorization r' = AuthScheme @ '' '' @ join_on CHR '':'' [node', tsRaw', nonce', sign key (rq_Method r') (RequestURI r') node' ts' nonce']"
    "CHR '':'' \<notin> set node'" "CHR '':'' \<notin> set tsRaw'" "CHR '':'' \<notin> set nonce'" "ParseInt tsRaw' = Some ts'"
    using assms(2) unfolding verify_iff by blast
  have sp: "split_on CHR '':'' (join_on CHR '':'' [a, b, c, sign key m p n t x]) = [a, b, c, sign key m p n t x]"
    if "CHR '':'' \<notin> set a" "CHR '':'' \<notin> set b" "CHR '':'' \<notin> set c" for a b c m p n t x
    by (rule split_join) (use that in auto)
  have "join_on CHR '':'' [node, tsRaw, nonce, sign key (rq_Method r) (RequestURI r) node ts nonce]
      = join_on CHR '':'' [node', tsRaw', nonce', sign key (rq_Method r') (RequestURI r') node' ts' nonce']"
    using h(1) h'(1) assms(3) by simp
  then have "[node, tsRaw, nonce, sign key (rq_Method r) (RequestURI r) node ts nonce]
      = [node', tsRaw', nonce', sign key (rq_Method r') (RequestURI r') node' ts' nonce']"
    using sp [OF h(2-4)] sp [OF h'(2-4)] by metis
  then have eq: "node = node'" "ts = ts'" "nonce = nonce'"
    "sign key (rq_Method r) (RequestURI r) node ts nonce = sign key (rq_Method r') (RequestURI r') node ts nonce"
    using h(5) h'(5) by auto
  then have "signed_text (rq_Method r) (RequestURI r) node ts nonce = signed_text (rq_Method r') (RequestURI r') node ts nonce"
    using assms(4) by blast
  then have "rq_Method r @ CHR 0x0A # RequestURI r @ CHR 0x0A # node @ CHR 0x0A # dec_int ts @ CHR 0x0A # nonce
      = rq_Method r' @ CHR 0x0A # RequestURI r' @ CHR 0x0A # node @ CHR 0x0A # dec_int ts @ CHR 0x0A # nonce"
    by (simp add: signed_text_def)
  then show ?thesis using eq(1) append_sep_eq [OF assms(5,6)] by auto
qed

theorem signature_binds_request_witness:
  "verify ''key'' 7001 example_signed = Inr ''n1'' \<and> verify ''key'' 7002 example_signed = Inr ''n1''"
proof -
  have a: "authorize ''key'' (rq_Method example_signed) (RequestURI example_signed) ''n1'' 7000 (Some ''abc'')
      = Inr (rq_Authorization example_signed)"
    by (simp add: example_signed_def authorize_def Let_def RequestURI_def)
  have v: "verify ''key'' 7001 example_signed = Inr ''n1''" "verify ''key'' 7002 example_signed = Inr ''n1''"
    by (rule verify_authorize [OF a]; simp add: MaxSkew_def int64_defs)+
  have "CHR 0x0A \<notin> set (rq_Method example_signed)" by (simp add: example_signed_def authorize_def Let_def)
  then have "rq_Method example_signed = rq_Method example_signed"
    using signature_binds_request [OF v] by blast
  then show ?thesis using v by simp
qed

section \<open>Client and server\<close>

lemma RequestURI_auth [simp]: "RequestURI (r\<lparr>rq_Authorization := a\<rparr>) = RequestURI r"
  by (simp add: RequestURI_def)

text \<open>What the client needs to be served: the same keys, clocks that agree, a name and a nonce that can be verified.\<close>

definition can_ask :: "Client \<Rightarrow> Server \<Rightarrow> int \<Rightarrow> int \<Rightarrow> bytes option \<Rightarrow> bool" where
  "can_ask c sv nowc nows nb \<longleftrightarrow>
     cl_keys c = sv_keys sv \<and> cl_node c \<noteq> '''' \<and> CHR '':'' \<notin> set (cl_node c) \<and> is_int64 nowc
     \<and> \<bar>nows - nowc\<bar> \<le> MaxSkew \<and> (\<exists>bs. nb = Some bs \<and> bs \<noteq> [])"

lemma seal_open: "seal key (Some n) p = Inr payload \<Longrightarrow> length n = NonceSize \<Longrightarrow> open_sealed key payload = Inr p"
  by (auto simp: seal_def open_sealed_def aes.gcm_Open_Seal split: if_splits)

text \<open>C37. The client opens exactly the bodies that are sealed under its key: a body is accepted, and read as a text, if and only if
  it is the twelve bytes of a nonce followed by what AES-GCM makes of that text under the key and that nonce.
  Everything else is refused, and no sealed body reads as two texts. What \<^verbatim>\<open>seal\<close> produces is such a body, 28 bytes longer than the text.\<close>

theorem open_accepts_exactly_sealed_bodies:
  "(open_sealed key payload = Inr plain \<longleftrightarrow> (\<exists>n. length n = 12 \<and> seal key (Some n) plain = Inr payload))
   \<and> (case open_sealed key payload of
        Inr plain \<Rightarrow> length payload = length plain + 28
      | Inl e \<Rightarrow> e = (if length key \<in> {16, 24, 32} then ErrSeal else ErrInvalid))"
proof -
  have iff: "open_sealed key payload = Inr plain \<longleftrightarrow> newGCM key \<and> (\<exists>n. length n = 12 \<and> payload = n @ gcm_Seal (aes_encrypt key) n plain)" for plain
  proof
    assume o: "open_sealed key payload = Inr plain"
    then have "newGCM key" "12 \<le> length payload"
      "gcm_Open (aes_encrypt key) (take 12 payload) (drop 12 payload) = Some plain"
      by (auto simp: open_sealed_def NonceSize_def split: if_splits option.splits)
    then show "newGCM key \<and> (\<exists>n. length n = 12 \<and> payload = n @ gcm_Seal (aes_encrypt key) n plain)"
      unfolding aes.gcm_Open_Some using append_take_drop_id [of 12 payload]
      by (intro conjI exI [of _ "take 12 payload"]) simp_all
  qed (auto simp: open_sealed_def NonceSize_def aes.gcm_Open_Seal)
  show ?thesis
  proof (cases "open_sealed key payload")
    case (Inl e)
    then have "e = (if length key \<in> {16, 24, 32} then ErrSeal else ErrInvalid)"
      by (auto simp: open_sealed_def newGCM_def split: if_splits option.splits)
    then show ?thesis using Inl iff [of plain] by (auto simp: seal_def)
  next
    case (Inr m)
    then have "length payload = length m + 28" using iff [of m] by (auto simp: aes.length_gcm_Seal)
    then show ?thesis using Inr iff [of plain] by (auto simp: seal_def)
  qed
qed

lemma get_authenticated:
  assumes "can_ask c sv nowc nows nb" and "net = (\<lambda>a r. Inr (Handler sv nows flt st status r))"
    and "route_of path = Some rt" and "rt \<noteq> RHealth"
  shows "get c net nowc nb addr path since =
    (let resp = (case rt of RDigest \<Rightarrow> getDigest sv flt st
                 | RManifest \<Rightarrow> getManifest sv flt st \<lparr>rq_Method = ''GET'', rq_Path = path, rq_Since = since, rq_Authorization = ''''\<rparr>
                 | RBlob hash \<Rightarrow> getBlob sv flt st hash
                 | RStatus \<Rightarrow> getStatus sv status
                 | RHealth \<Rightarrow> fail)
     in if rs_Status resp = 404 then Inl ErrPeerNotFound
        else if rs_Status resp \<noteq> 200 then Inl ErrPeer
        else if int (length (rs_Body resp)) > cl_maxBody c then Inl ErrPeer
        else open_sealed (Blob_key (cl_keys c)) (rs_Body resp))"
proof -
  obtain bs where nb: "nb = Some bs" "bs \<noteq> []" using assms(1) by (auto simp: can_ask_def)
  let ?req = "\<lparr>rq_Method = ''GET'', rq_Path = path, rq_Since = since, rq_Authorization = ''''\<rparr>"
  obtain a where a: "authorize (API (cl_keys c)) ''GET'' (RequestURI ?req) (cl_node c) nowc (Some bs) = Inr a"
    by (simp add: authorize_def Let_def)
  have "verify (API (sv_keys sv)) nows (?req\<lparr>rq_Authorization := a\<rparr>) = Inr (cl_node c)"
    by (rule verify_authorize [where bs = bs and t = nowc])
      (use a nb assms(1) in \<open>auto simp: can_ask_def RequestURI_def\<close>)
  then have "Handler sv nows flt st status (?req\<lparr>rq_Authorization := a\<rparr>) =
    (case rt of RDigest \<Rightarrow> getDigest sv flt st
                 | RManifest \<Rightarrow> getManifest sv flt st ?req
                 | RBlob hash \<Rightarrow> getBlob sv flt st hash
                 | RStatus \<Rightarrow> getStatus sv status
                 | RHealth \<Rightarrow> fail)"
    using assms(3,4) by (cases rt) (simp_all add: Handler_def getManifest_def)
  then show ?thesis using a nb assms(2) by (simp add: get_def Let_def)
qed

text \<open>Sealing adds the nonce and the tag, 28 bytes, to the body the client's limit is compared with.\<close>

lemma get_sealed:
  assumes "get c net nowc nb addr path since = (let resp = sealedBytes sv body in
        if rs_Status resp = 404 then Inl ErrPeerNotFound
        else if rs_Status resp \<noteq> 200 then Inl ErrPeer
        else if int (length (rs_Body resp)) > cl_maxBody c then Inl ErrPeer
        else open_sealed (Blob_key (cl_keys c)) (rs_Body resp))"
    and "cl_keys c = sv_keys sv" and "sv_nonce sv = Some n" and "length n = NonceSize" and "newGCM (Blob_key (sv_keys sv))"
  shows "get c net nowc nb addr path since = (if int (length body) + 28 > cl_maxBody c then Inl ErrPeer else Inr body)"
proof -
  let ?payload = "n @ gcm_Seal (aes_encrypt (Blob_key (sv_keys sv))) n body"
  have s: "seal (Blob_key (sv_keys sv)) (sv_nonce sv) body = Inr ?payload"
    using assms(3,5) by (simp add: seal_def)
  moreover have "length ?payload = length body + 28"
    using assms(4) by (simp add: aes.length_gcm_Seal NonceSize_def)
  ultimately show ?thesis
    using assms(1,2) seal_open [of "Blob_key (sv_keys sv)" n body] assms(3,4) by (simp add: sealedBytes_def Let_def)
qed

lemma parseSeq_dec_int: "0 \<le> i \<Longrightarrow> is_int64 i \<Longrightarrow> parseSeq (dec_int i) = i"
  by (simp add: parseSeq_def)

text \<open>
  The numbers of a page are 64 bit numbers, as the fields of the Go structs are. What the client makes of the page is the page with
  every string in it made UTF-8.
\<close>

definition page64 :: "ManifestResponse \<Rightarrow> bool" where
  "page64 p \<longleftrightarrow> list_all numbers64 (mr_Entries p) \<and> is_int64 (mr_Head p)"

lemma Client_Manifest_served:
  assumes "can_ask c sv nowc nows nb" and "net = (\<lambda>a r. Inr (Handler sv nows flt st status r))"
    and "sv_nonce sv = Some n" and "length n = NonceSize" and "newGCM (Blob_key (sv_keys sv))"
    and "\<And>page. manifest_page flt st since = Inr page \<Longrightarrow> page64 page" and "0 \<le> since" and "is_int64 since"
  shows "Client_Manifest c net nowc nb addr since =
     (case manifest_page flt st since of
        Inl e \<Rightarrow> Inl ErrPeer
      | Inr page \<Rightarrow>
          if int (length (print_json (Manifest_json page))) + 28 > cl_maxBody c then Inl ErrPeer else Inr (valid_page page))"
proof -
  have rt: "route_of ''/v1/manifest'' = Some RManifest" by (simp add: route_of_def)
  note g = get_authenticated [OF assms(1,2) rt, of addr "Some (dec_int since)"]
  have k: "cl_keys c = sv_keys sv" using assms(1) by (simp add: can_ask_def)
  show ?thesis
  proof (cases "manifest_page flt st since")
    case (Inl e)
    then show ?thesis using g parseSeq_dec_int [OF assms(7,8)]
      by (simp add: Client_Manifest_def getJSON_def getManifest_def fail_def http_Error_def)
  next
    case (Inr page)
    let ?body = "print_json (Manifest_json page)"
    have "get c net nowc nb addr ''/v1/manifest'' (Some (dec_int since)) = (let resp = sealedBytes sv ?body in
        if rs_Status resp = 404 then Inl ErrPeerNotFound
        else if rs_Status resp \<noteq> 200 then Inl ErrPeer
        else if int (length (rs_Body resp)) > cl_maxBody c then Inl ErrPeer
        else open_sealed (Blob_key (cl_keys c)) (rs_Body resp))"
      using g parseSeq_dec_int [OF assms(7,8)] Inr by (simp add: getManifest_def sealed_def)
    note s = get_sealed [OF this k assms(3-5)]
    obtain v where "Unmarshal dec_page ?body zero_page = Some v" "page_of v = valid_page page"
      using page_round_trip [of page] assms(6) [OF Inr] by (auto simp: page64_def)
    then show ?thesis using Inr by (simp add: Client_Manifest_def getJSON_def s)
  qed
qed

section \<open>Pages of a feed\<close>

lemma feed_from:
  assumes "since \<le> since'"
  shows "feed st since' = filter (\<lambda>m. since' < Seq m) (feed st since)"
proof -
  have "filter (\<lambda>r. r_seq r > since') (entries st) = filter (\<lambda>r. since' < r_seq r) (filter (\<lambda>r. r_seq r > since) (entries st))"
    using assms by (simp add: filter_filter) (metis (mono_tags, lifting) less_le_trans not_le)
  then show ?thesis by (simp add: feed_def filter_map comp_def filter_sort)
qed

lemma filter_after:
  "sorted_wrt (<) (map f xs) \<Longrightarrow> n < length xs \<Longrightarrow> filter (\<lambda>x. f (xs ! n) < f x) xs = drop (Suc n) xs" for f :: "'a \<Rightarrow> int"
proof (induction xs arbitrary: n)
  case (Cons x xs)
  show ?case
  proof (cases n)
    case 0
    have "filter (\<lambda>y. f x < f y) xs = xs" using Cons.prems(1) by (intro filter_True) auto
    then show ?thesis using 0 by simp
  next
    case (Suc k)
    then have "f x < f (xs ! k)" using Cons.prems by simp
    then have "\<not> f (xs ! k) < f x" by simp
    then show ?thesis using Suc Cons.IH [of k] Cons.prems by (simp add: not_less_iff_gr_or_eq)
  qed
qed simp

lemma feed_bounds: "store_inv st \<Longrightarrow> m \<in> set (feed st since) \<Longrightarrow> since < Seq m \<and> 0 < Seq m \<and> Seq m \<le> local_seq st"
  by (auto simp: feed_set store_inv_def)

lemma manifest_page_eq:
  assumes "\<not> flt DbManifest"
  shows "manifest_page flt st since = Inr
    \<lparr>mr_Entries = take MaxManifestPage (feed st since),
     mr_Head = (if feed st since = [] then since else Seq (last (take MaxManifestPage (feed st since)))),
     mr_More = (MaxManifestPage < length (feed st since))\<rparr>"
proof -
  let ?xs = "feed st since"
  have nz: "MaxManifestPage > 0" by (simp add: MaxManifestPage_def)
  have since: "ManifestSince flt st since (MaxManifestPage + 1) = Inr (take (MaxManifestPage + 1) ?xs)"
    using assms by (simp add: ManifestSince_feed)
  have end_of: "ys \<noteq> [] \<Longrightarrow> ys ! (length ys - 1) = last ys" for ys :: "Meta list" by (simp add: last_conv_nth)
  show ?thesis
  proof (cases "length ?xs \<le> MaxManifestPage")
    case True
    then show ?thesis using since end_of [of ?xs] by (simp add: manifest_page_def Let_def)
  next
    case False
    then have "take MaxManifestPage (take (MaxManifestPage + 1) ?xs) = take MaxManifestPage ?xs"
      "take MaxManifestPage ?xs \<noteq> []" "length (take (MaxManifestPage + 1) ?xs) > MaxManifestPage" "?xs \<noteq> []"
      using nz by (auto simp: min_def)
    then show ?thesis using since end_of [of "take MaxManifestPage ?xs"] False
      by (simp add: manifest_page_def Let_def)
  qed
qed

lemma next_page:
  assumes "store_inv st" and "MaxManifestPage < length (feed st since)"
  shows "feed st (Seq (last (take MaxManifestPage (feed st since)))) = drop MaxManifestPage (feed st since)"
    and "since < Seq (last (take MaxManifestPage (feed st since)))"
    and "Seq (last (take MaxManifestPage (feed st since))) \<le> local_seq st"
proof -
  let ?xs = "feed st since"
  have "?xs \<noteq> []" using assms(2) by auto
  then have eq: "last (take MaxManifestPage ?xs) = ?xs ! (MaxManifestPage - 1)" "MaxManifestPage - 1 < length ?xs"
    using assms(2) by (auto simp: last_conv_nth min_def MaxManifestPage_def)
  then have b: "since < Seq (?xs ! (MaxManifestPage - 1))" "Seq (?xs ! (MaxManifestPage - 1)) \<le> local_seq st"
    using feed_bounds [OF assms(1) nth_mem] by auto
  then show "since < Seq (last (take MaxManifestPage ?xs))" "Seq (last (take MaxManifestPage ?xs)) \<le> local_seq st"
    using eq(1) by simp_all
  show "feed st (Seq (last (take MaxManifestPage ?xs))) = drop MaxManifestPage ?xs"
  proof -
    have "feed st (Seq (?xs ! (MaxManifestPage - 1))) = drop (Suc (MaxManifestPage - 1)) ?xs"
      using feed_from [OF less_imp_le [OF b(1)], of st] filter_after [OF feed_sorted [OF assms(1)] eq(2)] by simp
    then show ?thesis unfolding eq(1) by (simp add: MaxManifestPage_def)
  qed
qed

text \<open>The numbers of a store are 64 bit numbers, as the columns of the tables are.\<close>

definition store64 :: "Store \<Rightarrow> bool" where
  "store64 st \<longleftrightarrow> (\<forall>r \<in> set (entries st). numbers64 (meta r))"

lemma store64_page:
  assumes "store64 st" and "is_int64 since" and "manifest_page flt st since = Inr page"
  shows "page64 page"
proof -
  have "\<not> flt DbManifest" using assms(3) by (auto simp: manifest_page_def ManifestSince_def)
  note page = manifest_page_eq [of flt st since, OF this]
  have all: "numbers64 m" if "m \<in> set (feed st since)" for m using that assms(1) by (auto simp: feed_set store64_def)
  have "is_int64 (Seq (last (take MaxManifestPage (feed st since))))" if "feed st since \<noteq> []"
  proof -
    have "last (take MaxManifestPage (feed st since)) \<in> set (feed st since)"
      using that by (intro in_set_takeD [OF last_in_set]) (simp add: MaxManifestPage_def)
    then show ?thesis using all by (auto simp: numbers64_def)
  qed
  moreover have "list_all numbers64 (take MaxManifestPage (feed st since))" using all in_set_takeD by (fastforce simp: list_all_iff)
  ultimately show ?thesis using assms(2,3) page by (auto simp: page64_def)
qed

text \<open>Asking for page after page until the server says there are no more.\<close>

fun read_feed :: "nat \<Rightarrow> dbfault \<Rightarrow> Store \<Rightarrow> int \<Rightarrow> Meta list option" where
  "read_feed 0 flt st since = None"
| "read_feed (Suc k) flt st since =
     (case manifest_page flt st since of
        Inl e \<Rightarrow> None
      | Inr page \<Rightarrow>
          if \<not> mr_More page then Some (mr_Entries page)
          else map_option ((@) (mr_Entries page)) (read_feed k flt st (mr_Head page)))"

text \<open>C32. Reading a feed page by page gives the feed: the pages of at most 2000 entries that a server hands out from any
  position, one request for each begun page, put together are exactly the entries after that position, none twice and none missed.\<close>

theorem paging_reads_the_feed:
  assumes "store_inv st" and "\<not> flt DbManifest" and "length (feed st since) \<le> k * 2000 + 2000"
  shows "read_feed (Suc k) flt st since = Some (feed st since)"
  using assms(3)
proof (induction k arbitrary: since)
  case (Suc k)
  show ?case
  proof (cases "MaxManifestPage < length (feed st since)")
    case True
    note page = next_page [OF assms(1) True]
    have "read_feed (Suc k) flt st (Seq (last (take MaxManifestPage (feed st since)))) = Some (drop MaxManifestPage (feed st since))"
      using Suc.IH [of "Seq (last (take MaxManifestPage (feed st since)))"] Suc.prems page(1) by (simp add: MaxManifestPage_def)
    then show ?thesis using manifest_page_eq [of flt st since] assms(2) True by auto
  next
    case False
    then show ?thesis using manifest_page_eq [of flt st since] assms(2) by simp
  qed
next
  case 0
  then show ?case using manifest_page_eq [of flt st since] assms(2) by (simp add: MaxManifestPage_def)
qed

theorem paging_reads_the_feed_witness:
  "read_feed 1 (\<lambda>_. False) example_store 0 = Some (feed example_store 0) \<and> length (feed example_store 0) = 2"
proof -
  have "length (feed example_store 0) = 2" by (simp add: feed_def example_store_def)
  then show ?thesis using paging_reads_the_feed [OF example_store_inv, of "\<lambda>_. False" 0 0] by simp
qed


definition example_pull :: "nat \<Rightarrow> PeerClient" where
  "example_pull = (\<lambda>k. http_client \<lparr>cl_keys = example_keys, cl_node = ''n2'', cl_maxBody = 1000\<rparr>
     (\<lambda>a r. Inr (Handler example_server 7000 (\<lambda>_. False) empty_store (Inl ErrDB) r)) 7000 (Some ''abc''))"


end
