(* ===== verification/Convergence.thy ===== *)
theory Convergence
  imports Transport_Props "HOL-Library.Multiset"
begin

text \<open>
  Whole pulls between two nodes: what a pull from a peer that answers from its store does to the tree, and that two
  nodes that pull from each other agree. The syncer relies on the peer through the interface \<open>peer_service\<close>; client
  and server of \<^verbatim>\<open>internal/transport\<close> together provide it.
\<close>

section \<open>Pages in which nothing is lost\<close>

lemma ensureBlob_fetches:
  assumes "pc_Blob pc addr h = Inr c" and "int (length c) \<le> MaxFileSize (cfg s)"
  shows "fst (ensureBlob (\<lambda>_. False) pc s addr h) = None"
  using assms by (auto simp: ensureBlob_def HasBlob_def PutBlob_def Let_def)

lemma page_nothing_deferred:
  assumes "apply_entries (\<lambda>_. False) pc addr es s new_page = (Inr a, s1)"
    and "\<forall>e \<in> set es. needs_blob e \<longrightarrow> (\<exists>c. pc_Blob pc addr (Hash e) = Inr c \<and> int (length c) \<le> MaxFileSize (cfg s))"
  shows "\<forall>e \<in> set es. Seq e \<le> safe a"
proof -
  have "case Inr a :: err + page_acc of Inl x \<Rightarrow> True | Inr a' \<Rightarrow> fetched s s1 \<and> \<not> deferred a' \<and> (\<forall>e \<in> set es. Seq e \<le> safe a')"
  proof (rule apply_entries_invariant [OF assms(1), where Q = "\<lambda>_. True"
        and P = "\<lambda>pre t a. fetched s t \<and> \<not> deferred a \<and> (\<forall>e \<in> set pre. Seq e \<le> safe a)"])
    fix pre e rest t b b' t'
    assume es: "es = pre @ e # rest" and inv: "fetched s t \<and> \<not> deferred b \<and> (\<forall>e \<in> set pre. Seq e \<le> safe b)"
      and ap: "apply_entry (\<lambda>_. False) pc addr e t b = (Inr b', t')"
    have f: "fetched s t'" using inv fetched_trans apply_entry_fetched [OF ap] by blast
    have "\<not> deferred b' \<and> (\<forall>e \<in> set (pre @ [e]). Seq e \<le> safe b')"
      using ap
    proof (cases rule: apply_entry_cases)
      case (postponed u x)
      have "cfg (after_copies t e) = cfg s"
        using fetchedD(1) after_copies_fetched inv by metis
      moreover obtain c where "pc_Blob pc addr (Hash e) = Inr c" "int (length c) \<le> MaxFileSize (cfg s)"
        using assms(2) es postponed by auto
      ultimately show ?thesis
        using ensureBlob_fetches [of pc addr "Hash e" c "after_copies t e"] postponed by simp
    qed (use inv in \<open>auto simp: advance_def\<close>)
    then show "fetched s t' \<and> \<not> deferred b' \<and> (\<forall>e \<in> set (pre @ [e]). Seq e \<le> safe b')" using f by simp
  qed (simp_all add: new_page_def)
  then show ?thesis by simp
qed

lemma conflicts_with_tree:
  "conflicts_with s e \<longleftrightarrow> (\<exists>l. tree (store s) (Path e) = Some l \<and> resolve l True e = decisionConflict)"
  by (cases "row_at (store s) (Path e)") (auto simp: conflicts_with_def current_def tree_def resolve_conflict_iff)

section \<open>What a pull leaves\<close>

text \<open>Content that an entry of the store refers to, and that the store has.\<close>

definition offered :: "Store \<Rightarrow> string \<Rightarrow> bool" where
  "offered st h \<longleftrightarrow> has_blob st h \<and> (\<exists>r \<in> set (entries st). needs_blob (meta r) \<and> r_hash r = h)"

text \<open>An entry of the peer's store that will be taken in: neither malformed nor ahead of the clock, not concurrent with local content, and its own content there.\<close>

definition acceptable :: "Service \<Rightarrow> Store \<Rightarrow> Meta \<Rightarrow> bool" where
  "acceptable s st e \<longleftrightarrow> \<not> rejects s e \<and> \<not> conflicts_with s e \<and> (needs_blob e \<longrightarrow> offered st (Hash e))"

definition pulled :: "Service \<Rightarrow> Service \<Rightarrow> Meta list \<Rightarrow> bool" where
  "pulled s s' es \<longleftrightarrow>
     tree (store s') = fold merge_entry es (tree (store s)) \<and> store_inv (store s') \<and> blobs_ok (store s')
     \<and> cfg s' = cfg s \<and> now_at (clock s') = now_at (clock s)
     \<and> local_seq (store s') \<le> local_seq (store s) + 2 * int (length es) \<and> small_blobs (MaxFileSize (cfg s)) (store s) (store s')"

lemma pulled_trans: "pulled s s1 es \<Longrightarrow> pulled s1 s2 es' \<Longrightarrow> pulled s s2 (es @ es')"
  by (auto simp: pulled_def intro: small_blobs_trans)

lemma rejects_cong:
  assumes "cfg s' = cfg s" and "now_at (clock s') = now_at (clock s)"
  shows "rejects s' e = rejects s e"
proof -
  have "validate s' e = validate s e" unfolding validate_def assms(1) ..
  then show ?thesis by (simp add: rejects_def assms(2))
qed

lemma acceptable_later:
  assumes "pulled s s1 es" and "acceptable s st e" and "Path e \<notin> Path ` set es"
  shows "acceptable s1 st e"
proof -
  have "rejects s1 e = rejects s e" by (rule rejects_cong) (use assms(1) in \<open>simp_all add: pulled_def\<close>)
  then show ?thesis
    using assms fold_merge_fresh [OF assms(3), of "tree (store s)"]
    by (simp add: acceptable_def pulled_def conflicts_with_tree)
qed

lemma bookmark_pulled:
  assumes "pulled s s1 es"
  shows "pulled s (s1\<lparr>store := snd (SetPeerSeq flt (store s1) node addr q t)\<rparr>) es"
  using assms by (simp add: pulled_def frame inv_intros small_blobs_def)

lemma SetPeerSeq_no_fault: "\<exists>st'. SetPeerSeq (\<lambda>_. False) st node addr q t = (None, st')"
  by (simp add: SetPeerSeq_def Let_def)

lemma merge_covered: "covers_entry t e \<Longrightarrow> merge_entry e t = t"
  by (auto simp: covers_entry_def merge_entry_def settle_Some)

lemma merge_skips:
  assumes "distinct (map Path es)" and "\<forall>e \<in> set es. P e \<or> covers_entry t e"
  shows "fold merge_entry es t = fold merge_entry (filter P es) t"
  using assms
proof (induction es arbitrary: t)
  case (Cons e es)
  show ?case
  proof (cases "P e")
    case True
    have "\<forall>x \<in> set es. P x \<or> covers_entry (merge_entry e t) x"
      using Cons.prems by (auto simp: covers_entry_def merge_entry_def image_iff)
    then show ?thesis using Cons True by simp
  next
    case False
    then show ?thesis using Cons by (simp add: merge_covered)
  qed
qed simp

section \<open>The join of two trees\<close>

text \<open>At every path the entry with the greater version, as \<^verbatim>\<open>resolve\<close> decides.\<close>

definition join_trees :: "(string \<Rightarrow> Meta option) \<Rightarrow> (string \<Rightarrow> Meta option) \<Rightarrow> string \<Rightarrow> Meta option" where
  "join_trees t u p = (case u p of None \<Rightarrow> t p | Some r \<Rightarrow> settle (t p) r)"

lemma fold_merge_distinct:
  assumes "distinct (map Path es)" and "e \<in> set es"
  shows "fold merge_entry es t (Path e) = settle (t (Path e)) (replicated e)"
  using assms
proof (induction es arbitrary: t)
  case (Cons x es)
  show ?case
  proof (cases "e = x")
    case True
    then have "Path e \<notin> Path ` set es" using Cons.prems by auto
    then have "fold merge_entry (x # es) t (Path e) = merge_entry x t (Path e)" using fold_merge_fresh [of "Path e" es] by simp
    moreover have "merge_entry x t (Path x) = settle (t (Path x)) (replicated x)" by (simp add: merge_entry_def)
    ultimately show ?thesis using True by simp
  next
    case False
    then have "Path e \<noteq> Path x" using Cons.prems by (auto simp: image_iff)
    then have "merge_entry x t (Path e) = t (Path e)" by (simp add: merge_entry_def)
    then show ?thesis using Cons False by simp
  qed
qed simp

lemma merge_feed:
  assumes "store_inv st"
  shows "fold merge_entry (feed st 0) t = join_trees t (tree st)"
proof
  fix p
  show "fold merge_entry (feed st 0) t p = join_trees t (tree st) p"
  proof (cases "tree st p")
    case None
    then have "p \<notin> Path ` set (feed st 0)" using feed_tree(1) [OF assms] by fastforce
    then show ?thesis using None fold_merge_fresh by (simp add: join_trees_def)
  next
    case (Some m)
    then obtain e where "e \<in> set (feed st 0)" "replicated e = m" "Path e = p" using feed_tree(2) [OF assms] by blast
    then show ?thesis using fold_merge_distinct [OF feed_paths [OF assms], of e 0 t] Some by (simp add: join_trees_def)
  qed
qed

text \<open>The test anti-entropy uses to tell whether two nodes agree.\<close>

definition same_digest :: "Store \<Rightarrow> Store \<Rightarrow> bool" where
  "same_digest st st' \<longleftrightarrow>
     map_sum id fst (Digest (\<lambda>_. False) st) = map_sum id fst (Digest (\<lambda>_. False) st')"

lemma Digest_answers: "\<exists>d. Digest (\<lambda>_. False) st = Inr d"
  by (simp add: Digest_def All_entries_def)

section \<open>Peers that answer from their store\<close>

abbreviation digest_response :: "string \<times> int \<times> int \<Rightarrow> DigestResponse" where
  "digest_response d \<equiv> \<lparr>dr_Digest = fst d, dr_Entries = fst (snd d), dr_Head = snd (snd d)\<rparr>"

text \<open>
  \<open>peer x st\<close> is the client of one request to a peer with the store \<open>st\<close>, \<open>x\<close> its surroundings; \<open>ok x st mx\<close> that they
  let it through and that no content the peer's tree refers to is longer than \<open>mx\<close>.
\<close>

locale peer_service =
  fixes peer :: "'x \<Rightarrow> Store \<Rightarrow> PeerClient" and ok :: "'x \<Rightarrow> Store \<Rightarrow> int \<Rightarrow> bool"
  assumes verifies: "verifying_client (peer x st)"
    and Digest_served: "ok x st mx \<Longrightarrow> Digest (\<lambda>_. False) st = Inr d \<Longrightarrow> pc_Digest (peer x st) addr = Inr (digest_response d)"
    and Manifest_served: "ok x st mx \<Longrightarrow> 0 \<le> i \<Longrightarrow> is_int64 i \<Longrightarrow>
      pc_Manifest (peer x st) addr i = manifest_page (\<lambda>_. False) st i"
    and Blob_served: "ok x st mx \<Longrightarrow> offered st h \<Longrightarrow> \<exists>c. pc_Blob (peer x st) addr h = Inr c \<and> int (length c) \<le> mx"
begin

lemma page_pulled:
  assumes "ok x st (MaxFileSize (cfg s))" and "store_inv (store s)" and "blobs_ok (store s)"
    and "\<forall>e \<in> set es. acceptable s st e" and "distinct (map Path es)" and "sorted_wrt (<) (0 # map Seq es)"
    and "local_seq (store s) + 2 * int (length es) \<le> max_int64"
  shows "\<exists>n s'. applyRemote (\<lambda>_. False) (peer x st) s addr es = (Inr n, s') \<and> pulled s s' es"
proof -
  obtain n s' where run: "applyRemote (\<lambda>_. False) (peer x st) s addr es = (Inr n, s')"
    using applyRemote_succeeds [OF assms(2), of "\<lambda>_. False" es "peer x st" addr] assms(7) by auto
  from run show ?thesis
  proof (cases rule: applyRemote_cases)
    case (applied a s1)
    have f: "fetched s s1" by (rule apply_entries_fetched [OF applied(1)])
    have inv1: "store_inv (store s1)" using fetchedD(9) [OF f assms(2)] .
    have "\<forall>e \<in> set es. Seq e \<le> safe a"
      by (rule page_nothing_deferred [OF applied(1)]) (use assms(1,4) Blob_served in \<open>auto simp: acceptable_def\<close>)
    then have "tree (store s') = fold merge_entry es (tree (store s))"
      using applyRemote_merges [OF assms(2) run assms(5,6)] assms(4) applied(2) by (auto simp: acceptable_def)
    moreover have "store_inv (store s') \<and> blobs_ok (store s')"
      by (rule verifying_client.applyRemote_invariants [OF verifies run assms(2,3)])
    moreover have "cfg s' = cfg s" "now_at (clock s') = now_at (clock s)"
      "local_seq (store s') \<le> local_seq (store s) + 2 * int (length es)" "small_blobs (MaxFileSize (cfg s)) (store s) (store s')"
      using applied(3) fetchedD(1,3,8,16) [OF f] commit_ok(6) [OF _ inv1, of "\<lambda>_. False" "batch a" s'] apply_entries_batch [OF applied(1)]
        commit_ok(4,8,9) [OF _ inv1, of "\<lambda>_. False" "batch a" s'] by (auto simp: small_blobs_def)
    ultimately show ?thesis using run by (simp add: pulled_def)
  qed simp
qed

lemma pages_pulled:
  assumes "\<forall>k. ok (xs k) st (MaxFileSize (cfg s))" and "store_inv st" and "0 \<le> cursor" and "is_int64 cursor"
    and "store_inv (store s)" and "blobs_ok (store s)" and "\<forall>e \<in> set (feed st cursor). acceptable s st e"
    and "local_seq (store s) + 2 * int (length (feed st cursor)) \<le> max_int64" and "length (feed st cursor) < fuel"
  shows "\<exists>s'. sync_pages (\<lambda>k. peer (xs k) st) (\<lambda>_ _. False) nows node addr fuel k cursor bookmark s = Some (None, s')
           \<and> pulled s s' (feed st cursor)"
  using assms(1,3-9)
proof (induction fuel arbitrary: k cursor bookmark s)
  case (Suc fuel)
  let ?es = "take MaxManifestPage (feed st cursor)"
  note page = Manifest_served [OF Suc.prems(1) [rule_format, of k] Suc.prems(2,3), of addr,
      unfolded manifest_page_eq [of "\<lambda>_. False" st cursor, simplified]]
  show ?case
  proof (cases "feed st cursor = []")
    case True
    then show ?thesis using page Suc.prems by (simp add: pulled_def)
  next
    case False
    then have nonempty: "?es \<noteq> []" by (simp add: MaxManifestPage_def)
    have sub: "set ?es \<subseteq> set (feed st cursor)" by (rule set_take_subset)
    have pos: "\<forall>e \<in> set (feed st cursor). 0 < Seq e" using feed_bounds [OF assms(2)] by blast
    have "sorted_wrt (<) (map Seq ?es)"
      using feed_sorted [OF assms(2), of cursor] by (simp add: take_map [symmetric] sorted_wrt_take)
    then have sorted: "sorted_wrt (<) (0 # map Seq ?es)" using pos sub by auto
    have dist: "distinct (map Path (feed st cursor))" by (rule feed_paths [OF assms(2)])
    have len: "length ?es \<le> length (feed st cursor)" by simp
    have "\<forall>e \<in> set ?es. acceptable s st e" "distinct (map Path ?es)" "local_seq (store s) + 2 * int (length ?es) \<le> max_int64"
      using Suc.prems(6,7) sub dist len by (auto simp: take_map [symmetric] distinct_take)
    then obtain n s1 where run: "applyRemote (\<lambda>_. False) (peer (xs k) st) s addr ?es = (Inr n, s1)" and one: "pulled s s1 ?es"
      using page_pulled [OF Suc.prems(1) [rule_format, of k] Suc.prems(4,5) _ _ sorted, of addr] by blast
    obtain st' where set: "SetPeerSeq (\<lambda>_. False) (store s1) node addr (max bookmark n) (nows k) = (None, st')"
      using SetPeerSeq_no_fault by blast
    have two: "pulled s (s1\<lparr>store := st'\<rparr>) ?es"
      using bookmark_pulled [OF one, of "\<lambda>_. False" node addr "max bookmark n" "nows k"] set by simp
    show ?thesis
    proof (cases "MaxManifestPage < length (feed st cursor)")
      case False
      then show ?thesis using page nonempty run set two by (simp add: Let_def)
    next
      case True
      note rest = next_page [OF assms(2) True]
      let ?c = "Seq (last ?es)" and ?s = "s1\<lparr>store := st'\<rparr>"
      have split: "feed st cursor = ?es @ feed st ?c" using rest(1) by simp
      have fresh: "Path e \<notin> Path ` set ?es" if "e \<in> set (feed st ?c)" for e
      proof -
        have "distinct (map Path ?es @ map Path (feed st ?c))" using dist split by (metis map_append)
        then show ?thesis using that by auto
      qed
      have "\<exists>s'. sync_pages (\<lambda>k. peer (xs k) st) (\<lambda>_ _. False) nows node addr fuel (Suc k) ?c (max bookmark n) ?s = Some (None, s')
           \<and> pulled ?s s' (feed st ?c)"
      proof (rule Suc.IH)
        show "\<forall>k. ok (xs k) st (MaxFileSize (cfg ?s))" using Suc.prems(1) two by (simp add: pulled_def)
        show "0 \<le> ?c" "is_int64 ?c" using rest(2,3) Suc.prems(2,3) assms(2) by (auto simp: store_inv_def int64_defs)
        show "store_inv (store ?s)" "blobs_ok (store ?s)" using two by (simp_all add: pulled_def)
        have "set (feed st ?c) \<subseteq> set (feed st cursor)" using split by (metis Un_upper2 set_append)
        then show "\<forall>e \<in> set (feed st ?c). acceptable ?s st e"
          using acceptable_later [OF two] fresh Suc.prems(6) by blast
        have l: "length (feed st cursor) = length ?es + length (feed st ?c)" using split by (metis length_append)
        then show "local_seq (store ?s) + 2 * int (length (feed st ?c)) \<le> max_int64"
          using two Suc.prems(7) by (auto simp: pulled_def)
        have "0 < length ?es" using nonempty by blast
        then show "length (feed st ?c) < fuel" using l Suc.prems(8) by linarith
      qed
      then obtain s' where "sync_pages (\<lambda>k. peer (xs k) st) (\<lambda>_ _. False) nows node addr fuel (Suc k) ?c (max bookmark n) ?s = Some (None, s')"
        and three: "pulled ?s s' (feed st ?c)" by blast
      moreover have "pulled s s' (feed st cursor)" using pulled_trans [OF two three] split by simp
      ultimately show ?thesis using page nonempty run set True by (simp add: Let_def)
    qed
  qed
qed simp

text \<open>A whole pull, from the comparison of digests to the last page.\<close>

lemma pull_outcome:
  assumes "\<forall>k. ok (xs k) st (MaxFileSize (cfg s))" and "store_inv st"
    and "store_inv (store s)" and "blobs_ok (store s)" and "\<forall>e \<in> set (feed st 0). acceptable s st e"
    and "PeerSeq (\<lambda>_. False) (store s) node = Inr since" and "0 \<le> since" and "is_int64 since"
    and "\<forall>e \<in> set (feed st 0). Seq e \<le> since \<longrightarrow> covers_entry (tree (store s)) e"
    and "local_seq (store s) + 2 * int (length (entries st)) \<le> max_int64" and "length (entries st) < fuel"
  shows "\<exists>s'. syncPeer (\<lambda>k. peer (xs k) st) (\<lambda>_ _. False) nows fuel s node addr = Some (None, s')
           \<and> tree (store s') = (if same_digest (store s) st then tree (store s) else join_trees (tree (store s)) (tree st))
           \<and> store_inv (store s') \<and> blobs_ok (store s') \<and> cfg s' = cfg s
           \<and> small_blobs (MaxFileSize (cfg s)) (store s) (store s')"
proof -
  obtain d where d: "Digest (\<lambda>_. False) st = Inr d" using Digest_answers by blast
  obtain l where l: "Digest (\<lambda>_. False) (store s) = Inr l" using Digest_answers by blast
  have ask: "pc_Digest (peer (xs 0) st) addr = Inr (digest_response d)"
    by (rule Digest_served [OF assms(1) [rule_format] d])
  show ?thesis
  proof (cases "same_digest (store s) st")
    case True
    let ?st = "snd (SetPeerSeq (\<lambda>_. False) (store s) node addr (snd (snd d)) (nows 0))"
    have "syncPeer (\<lambda>k. peer (xs k) st) (\<lambda>_ _. False) nows fuel s node addr = Some (None, s\<lparr>store := ?st\<rparr>)"
      using True d l ask by (cases l) (simp add: syncPeer_def same_digest_def SetPeerSeq_def Let_def)
    then show ?thesis using True assms(3,4) by (simp add: frame inv_intros small_blobs_def)
  next
    case False
    define c where "c = (if snd (snd d) < since then 0 else since)"
    have c: "0 \<le> c" "is_int64 c" "c \<le> since" using assms(7,8) by (simp_all add: c_def int64_defs)
    have feed: "feed st c = filter (\<lambda>m. c < Seq m) (feed st 0)" by (rule feed_from [OF c(1)])
    have len: "length (feed st c) \<le> length (entries st)" by (simp add: feed_def)
    obtain s' where run: "sync_pages (\<lambda>k. peer (xs k) st) (\<lambda>_ _. False) nows node addr fuel 1 c c s = Some (None, s')"
      and p: "pulled s s' (feed st c)"
      using pages_pulled [OF assms(1,2) c(1,2) assms(3,4), of fuel nows node addr 1 c] assms(5,10,11) len feed
      by auto
    have "syncPeer (\<lambda>k. peer (xs k) st) (\<lambda>_ _. False) nows fuel s node addr = Some (None, s')"
      using False d l ask assms(6) run by (cases l) (simp add: syncPeer_def same_digest_def c_def Let_def)
    moreover have "fold merge_entry (feed st c) (tree (store s)) = fold merge_entry (feed st 0) (tree (store s))"
      unfolding feed using merge_skips [OF feed_paths [OF assms(2)], of 0 "\<lambda>m. c < Seq m" "tree (store s)"] assms(9) c(3)
      by force
    ultimately show ?thesis using p False by (simp add: pulled_def merge_feed [OF assms(2)])
  qed
qed

end

section \<open>Client and server as such a peer\<close>

text \<open>The surroundings of one request: both ends, their clocks and the random bytes of the request.\<close>

record exchange =
  x_client :: Client
  x_server :: Server
  x_client_now :: int
  x_server_now :: int
  x_nonce :: "bytes option"

abbreviation x_net :: "exchange \<Rightarrow> Store \<Rightarrow> string \<Rightarrow> Request \<Rightarrow> err + Response" where
  "x_net x st \<equiv> (\<lambda>a r. Inr (Handler (x_server x) (x_server_now x) (\<lambda>_. False) st (Inl ErrDB) r))"

definition http_peer :: "exchange \<Rightarrow> Store \<Rightarrow> PeerClient" where
  "http_peer x st = http_client (x_client x) (x_net x st) (x_client_now x) (x_nonce x)"

text \<open>A body within the client's limit once it is sealed.\<close>

definition fits :: "exchange \<Rightarrow> bytes \<Rightarrow> bool" where
  "fits x body \<longleftrightarrow> int (length body) + 28 \<le> cl_maxBody (x_client x)"

text \<open>A tree that JSON carries unchanged: its strings are UTF-8 and its numbers have 64 bits.\<close>

definition utf8_Meta :: "Meta \<Rightarrow> bool" where
  "utf8_Meta m \<longleftrightarrow> utf8_valid (Path m) \<and> utf8_valid (Hash m) \<and> utf8_valid (PrevHash m) \<and> utf8_valid (Origin (Ver m))"

definition sendable :: "(string \<Rightarrow> Meta option) \<Rightarrow> bool" where
  "sendable t \<longleftrightarrow> (\<forall>p m. t p = Some m \<longrightarrow> numbers64 m \<and> utf8_Meta m)"

text \<open>What both ends need: they can talk, and each answer of the server is within the client's limit.\<close>

definition channel_ok :: "exchange \<Rightarrow> Store \<Rightarrow> int \<Rightarrow> bool" where
  "channel_ok x st mx \<longleftrightarrow>
     can_ask (x_client x) (x_server x) (x_client_now x) (x_server_now x) (x_nonce x)
     \<and> newGCM (Blob_key (sv_keys (x_server x))) \<and> (\<exists>n. sv_nonce (x_server x) = Some n \<and> length n = NonceSize)
     \<and> (\<forall>d. Digest (\<lambda>_. False) st = Inr d \<longrightarrow> fits x (print_json (Digest_json (digest_response d))))
     \<and> (\<forall>i page. 0 \<le> i \<and> is_int64 i \<and> manifest_page (\<lambda>_. False) st i = Inr page \<longrightarrow> fits x (print_json (Manifest_json page)))
     \<and> (\<forall>b \<in> set (blobs st). offered st (b_hash b) \<longrightarrow> fits x (b_data b) \<and> int (length (b_data b)) \<le> mx)"

definition http_ok :: "exchange \<Rightarrow> Store \<Rightarrow> int \<Rightarrow> bool" where
  "http_ok x st mx \<longleftrightarrow> channel_ok x st mx \<and> store_inv st \<and> sendable (tree st)"

lemma sealed_body:
  assumes "http_ok x st mx" and "route_of path = Some rt" and "rt \<noteq> RHealth" and "fits x body"
    and "(case rt of RDigest \<Rightarrow> getDigest (x_server x) (\<lambda>_. False) st
            | RManifest \<Rightarrow> getManifest (x_server x) (\<lambda>_. False) st
                \<lparr>rq_Method = ''GET'', rq_Path = path, rq_Since = since, rq_Authorization = ''''\<rparr>
            | RBlob hash \<Rightarrow> getBlob (x_server x) (\<lambda>_. False) st hash
            | RStatus \<Rightarrow> getStatus (x_server x) (Inl ErrDB) | RHealth \<Rightarrow> fail) = sealedBytes (x_server x) body"
  shows "get (x_client x) (x_net x st) (x_client_now x) (x_nonce x) addr path since = Inr body"
proof -
  obtain n where ok: "can_ask (x_client x) (x_server x) (x_client_now x) (x_server_now x) (x_nonce x)"
    "sv_nonce (x_server x) = Some n" "length n = NonceSize"
    "newGCM (Blob_key (sv_keys (x_server x)))" "cl_keys (x_client x) = sv_keys (x_server x)"
    using assms(1) by (auto simp: http_ok_def channel_ok_def can_ask_def)
  have "get (x_client x) (x_net x st) (x_client_now x) (x_nonce x) addr path since =
    (let resp = sealedBytes (x_server x) body in
        if rs_Status resp = 404 then Inl ErrPeerNotFound
        else if rs_Status resp \<noteq> 200 then Inl ErrPeer
        else if int (length (rs_Body resp)) > cl_maxBody (x_client x) then Inl ErrPeer
        else open_sealed (Blob_key (cl_keys (x_client x))) (rs_Body resp))"
    unfolding assms(5) [symmetric] using get_authenticated [OF ok(1) refl assms(2,3)] by (simp cong: route.case_cong)
  from get_sealed [OF this ok(5,2-4)] show ?thesis using assms(4) by (simp add: fits_def)
qed

lemma sendable_rows:
  assumes "store_inv st" and "sendable (tree st)"
  shows "store64 st" and "r \<in> set (entries st) \<Longrightarrow> valid_Meta (meta r) = meta r"
proof -
  have m: "numbers64 (replicated (meta r)) \<and> utf8_Meta (replicated (meta r)) \<and> is_int64 (r_seq r)" if "r \<in> set (entries st)" for r
  proof -
    have "tree st (r_path r) = Some (replicated (meta r))" using that row_at_iff [OF assms(1)] by (auto simp: tree_def)
    moreover have "is_int64 (r_seq r)" using that assms(1) by (auto simp: store_inv_def int64_defs)
    ultimately show ?thesis using assms(2) by (auto simp: sendable_def)
  qed
  then show "store64 st" by (auto simp: store64_def numbers64_def)
  show "valid_Meta (meta r) = meta r" if "r \<in> set (entries st)" using m [OF that] by (simp add: utf8_Meta_def valid_Meta_id)
qed

lemma sendable_page:
  assumes "store_inv st" and "sendable (tree st)" and "manifest_page (\<lambda>_. False) st i = Inr page"
  shows "valid_page page = page"
proof -
  have "valid_Meta m = m" if "m \<in> set (feed st i)" for m
    using that sendable_rows(2) [OF assms(1,2)] by (auto simp: feed_set)
  then have "map valid_Meta (take MaxManifestPage (feed st i)) = take MaxManifestPage (feed st i)"
    by (intro map_idI) (auto dest: in_set_takeD)
  then show ?thesis using manifest_page_eq [of "\<lambda>_. False" st i] assms(3) by (auto simp: valid_page_def)
qed

text \<open>The counts of a digest fit 64 bits, since every entry has its own position in the feed.\<close>

lemma entries_le_local_seq:
  assumes "store_inv st"
  shows "int (length (entries st)) \<le> local_seq st"
proof -
  have "set (map r_seq (entries st)) \<subseteq> {1..local_seq st}" using assms by (auto simp: store_inv_def)
  then have "card (set (map r_seq (entries st))) \<le> card {1..local_seq st}" by (intro card_mono) auto
  then have "length (entries st) \<le> nat (local_seq st)"
    using assms distinct_card [of "map r_seq (entries st)"] by (simp add: store_inv_def)
  moreover have "0 \<le> local_seq st" using assms by (simp add: store_inv_def)
  ultimately show ?thesis by simp
qed

lemma digest_head:
  assumes "\<forall>m \<in> set ms. 0 \<le> Seq m \<and> Seq m \<le> b" and "0 \<le> h" and "h \<le> b"
  shows "0 \<le> fold (\<lambda>m head. max head (Seq m)) ms h \<and> fold (\<lambda>m head. max head (Seq m)) ms h \<le> (b :: int)"
  using assms by (induction ms arbitrary: h) auto

lemma to_valid_hex: "to_valid (hex_encode bs) = hex_encode bs"
  by (rule to_valid_ascii) (auto simp: list_all_iff is_lower_hex_def dest!: hex_chars)

lemma digest_counts:
  assumes "store_inv st" and "Digest (\<lambda>_. False) st = Inr d"
  shows "is_int64 (fst (snd d))" and "is_int64 (snd (snd d))" and "to_valid (fst d) = fst d"
proof -
  obtain ms where ms: "All_entries (\<lambda>_. False) st = Inr ms" by (simp add: All_entries_def)
  have "\<forall>r \<in> set (entries st). 0 \<le> r_seq r \<and> r_seq r \<le> local_seq st" using assms(1) by (auto simp: store_inv_def dest: less_imp_le)
  then have rows: "length ms = length (entries st)" "\<forall>m \<in> set ms. 0 \<le> Seq m \<and> Seq m \<le> local_seq st"
    using ms by (auto simp: All_entries_def)
  have top: "0 \<le> local_seq st" "local_seq st \<le> max_int64" using assms(1) by (simp_all add: store_inv_def)
  have d: "fst (snd d) = int (length ms)" "snd (snd d) = fold (\<lambda>m head. max head (Seq m)) ms 0" "fst d = hex_encode (sha256 (digest_text ms))"
    using assms(2) ms by (auto simp: Digest_def)
  show "is_int64 (fst (snd d))" using d(1) rows(1) entries_le_local_seq [OF assms(1)] top by (simp add: int64_defs)
  show "is_int64 (snd (snd d))" using digest_head [OF rows(2) _ top(1)] top d(2) by (simp add: int64_defs)
  show "to_valid (fst d) = fst d" unfolding d(3) by (rule to_valid_hex)
qed

lemma blob_route:
  assumes "CHR ''/'' \<notin> set h" and "h \<noteq> ''''"
  shows "route_of (''/v1/blob/'' @ h) = Some (RBlob h)"
  using assms by (simp add: route_of_def HasPrefix_def)

lemma HashContent_no_slash: "CHR ''/'' \<notin> set (HashContent c)"
  using hex_chars [of "CHR ''/''" "sha256 c"] by (auto simp: HashContent_def is_lower_hex_def)

lemma page_served:
  assumes "channel_ok x st mx" and "store64 st" and "0 \<le> i" and "is_int64 i" and "manifest_page (\<lambda>_. False) st i = Inr page"
  shows "pc_Manifest (http_peer x st) addr i = Inr (valid_page page)"
proof -
  obtain n where ch: "can_ask (x_client x) (x_server x) (x_client_now x) (x_server_now x) (x_nonce x)"
    "sv_nonce (x_server x) = Some n" "length n = NonceSize" "newGCM (Blob_key (sv_keys (x_server x)))"
    using assms(1) by (auto simp: channel_ok_def)
  have "fits x (print_json (Manifest_json page))" using assms by (auto simp: channel_ok_def)
  moreover have "page64 p" if "manifest_page (\<lambda>_. False) st i = Inr p" for p by (rule store64_page [OF assms(2,4) that])
  ultimately show ?thesis
    using Client_Manifest_served [OF ch(1) refl ch(2-4), where since = i and flt = "\<lambda>_. False" and st = st and status = "Inl ErrDB" and addr = addr]
      assms(3-5) by (simp add: http_peer_def http_client_def fits_def)
qed

interpretation http_peer: peer_service http_peer http_ok
proof (rule peer_service.intro)
  fix x st mx
  show "verifying_client (http_peer x st)" unfolding http_peer_def by (rule http_client.verifying_client_axioms)
next
  fix x st mx d addr
  assume ok: "http_ok x st mx" and d: "Digest (\<lambda>_. False) st = Inr d"
  let ?r = "print_json (Digest_json (digest_response d))"
  have f: "fits x ?r" "store_inv st" using ok d by (auto simp: http_ok_def channel_ok_def)
  have r: "Unmarshal dec_Digest ?r zero_Digest = Some (digest_response d)"
    using Digest_round_trip [of "digest_response d"] digest_counts [OF f(2) d] by simp
  show "pc_Digest (http_peer x st) addr = Inr (digest_response d)"
    using sealed_body [OF ok _ _ f(1), of "''/v1/digest''" RDigest None addr] d r
    by (cases d) (simp add: http_peer_def http_client_def Client_Digest_def getJSON_def route_of_def getDigest_def sealed_def)
next
  fix x st mx i addr
  assume ok: "http_ok x st mx" and i: "0 \<le> i" "is_int64 i"
  obtain page where page: "manifest_page (\<lambda>_. False) st i = Inr page" using manifest_page_eq [of "\<lambda>_. False" st i] by simp
  have st: "channel_ok x st mx" "store_inv st" "sendable (tree st)" using ok by (simp_all add: http_ok_def)
  show "pc_Manifest (http_peer x st) addr i = manifest_page (\<lambda>_. False) st i"
    using page_served [OF st(1) sendable_rows(1) [OF st(2,3)] i page, of addr] page sendable_page [OF st(2,3) page] by simp
next
  fix x st mx h addr
  assume ok: "http_ok x st mx" and h: "offered st h"
  have inv: "store_inv st" using ok by (simp add: http_ok_def)
  obtain b where b: "b \<in> set (blobs st)" "b_hash b = h" using h by (auto simp: offered_def has_blob_def)
  have hash: "h = HashContent (b_data b)" using inv b by (auto simp: store_inv_def)
  have "Blob (\<lambda>_. False) st h = Inr (b_data b)"
    using find_key [of b_hash "blobs st" b] inv b by (simp add: Blob_def store_inv_def)
  then have g: "getBlob (x_server x) (\<lambda>_. False) st h = sealedBytes (x_server x) (b_data b)"
    by (simp add: getBlob_def hash)
  have f: "fits x (b_data b)" "int (length (b_data b)) \<le> mx" using ok b h by (auto simp: http_ok_def channel_ok_def)
  have "route_of (''/v1/blob/'' @ h) = Some (RBlob h)" by (rule blob_route) (simp_all add: hash HashContent_no_slash)
  from sealed_body [OF ok this _ f(1), of None addr] g f(2)
  show "\<exists>c. pc_Blob (http_peer x st) addr h = Inr c \<and> int (length c) \<le> mx"
    by (simp add: http_peer_def http_client_def Client_Blob_def hash)
qed

section \<open>Agreement\<close>

lemma rejects_replicated [simp]: "rejects s (replicated e) = rejects s e"
  by (simp add: rejects_def validate_def)

lemma acceptable_tree:
  assumes "store_inv st" and "blobs_ok st"
    and "\<And>p m. tree st p = Some m \<Longrightarrow> \<not> rejects s m \<and> (\<forall>l. tree (store s) p = Some l \<longrightarrow> resolve l True m \<noteq> decisionConflict)"
  shows "\<forall>e \<in> set (feed st 0). acceptable s st e"
proof
  fix e
  assume e: "e \<in> set (feed st 0)"
  have m: "tree st (Path e) = Some (replicated e)" using feed_tree(1) [OF assms(1) e] .
  have "needs_blob e \<longrightarrow> offered st (Hash e)" using e assms(2) by (auto simp: feed_set blobs_ok_def offered_def)
  then show "acceptable s st e" using assms(3) [OF m] by (auto simp: acceptable_def conflicts_with_tree)
qed

lemma entries_card: "store_inv st \<Longrightarrow> length (entries st) = card (dom (tree st)) \<and> finite (dom (tree st))"
proof -
  assume inv: "store_inv st"
  have "dom (tree st) = set (map r_path (entries st))"
    by (auto simp: dom_def tree_def row_at_None [symmetric]) (auto dest: row_at_Some simp: row_at_iff [OF inv])
  then show ?thesis using inv distinct_card [of "map r_path (entries st)"] by (simp add: store_inv_def)
qed

lemma dom_join_trees: "dom (join_trees t u) = dom t \<union> dom u"
proof -
  have "settle a r \<noteq> None" for a r by (cases a) (simp_all add: settle_Some)
  then show ?thesis by (auto simp: join_trees_def dom_def split: option.splits)
qed

lemma joined_length:
  assumes "store_inv a" and "store_inv b" and "store_inv c" and "tree c = join_trees (tree a) (tree b)"
  shows "length (entries c) \<le> length (entries a) + length (entries b)"
  using entries_card [OF assms(1)] entries_card [OF assms(2)] entries_card [OF assms(3)] assms(4)
  by (simp add: dom_join_trees card_Un_le)

text \<open>Of two trees in which versions identify entries, joining either into the other gives the same.\<close>

lemma join_trees_agree:
  assumes "\<And>p a b. t p = Some a \<Longrightarrow> u p = Some b \<Longrightarrow> Ver a = Ver b \<Longrightarrow> a = b"
  shows "join_trees u (join_trees t u) = join_trees t u"
proof
  fix p
  show "join_trees u (join_trees t u) p = join_trees t u p"
    using assms [of p]
    by (cases "t p"; cases "u p") (auto simp: join_trees_def settle_Some)
qed

lemma join_trees_in: "join_trees t u p = Some m \<Longrightarrow> t p = Some m \<or> u p = Some m"
  by (cases "t p"; cases "u p") (auto simp: join_trees_def settle_Some split: if_splits)

lemma digest_text_cong: "map digest_fields ms = map digest_fields ns \<Longrightarrow> digest_text ms = digest_text ns"
proof (induction ms arbitrary: ns)
  case (Cons m ms)
  then obtain n ns' where ns: "ns = n # ns'" "digest_fields m = digest_fields n" "map digest_fields ms = map digest_fields ns'"
    by (cases ns) auto
  have "digest_line m = digest_line n" using ns(2) by (simp add: digest_line_def digest_fields_def)
  then show ?case using Cons.IH [OF ns(3)] ns(1) by (simp add: digest_text_def)
qed (simp add: digest_text_def)

lemma same_tree_digest:
  assumes "store_inv a" and "store_inv b" and "tree a = tree b"
  shows "same_digest a b"
proof -
  obtain ms ns where all: "All_entries (\<lambda>_. False) a = Inr ms" "All_entries (\<lambda>_. False) b = Inr ns"
    by (simp add: All_entries_def)
  have "map digest_fields ms = map digest_fields ns"
    using All_entries_fields_eq [OF assms(1,2) all] assms(3) by simp
  then have "digest_text ms = digest_text ns" by (rule digest_text_cong)
  then show ?thesis using all by (simp add: same_digest_def Digest_def)
qed

lemma same_digest_trans: "same_digest a b \<Longrightarrow> same_digest b c \<Longrightarrow> same_digest a c"
  by (simp add: same_digest_def)

lemma same_digest_sym: "same_digest a b \<Longrightarrow> same_digest b a"
  by (simp add: same_digest_def)

text \<open>After both pulls the digests agree, and so do the trees unless a pull stopped at equal digests.\<close>

lemma pulls_agree:
  assumes "store_inv s" and "store_inv t" and "store_inv s'" and "store_inv t'"
    and "tree s' = (if same_digest s t then tree s else join_trees (tree s) (tree t))"
    and "tree t' = (if same_digest t s' then tree t else join_trees (tree t) (tree s'))"
    and "\<And>p a b. tree s p = Some a \<Longrightarrow> tree t p = Some b \<Longrightarrow> Ver a = Ver b \<Longrightarrow> a = b"
  shows "same_digest s' t' \<and> (\<not> same_digest s t \<and> \<not> same_digest t s' \<longrightarrow> tree s' = tree t')"
proof (cases "same_digest t s'")
  case True
  then have "same_digest t' t" using same_tree_digest [OF assms(4,2)] assms(6) by simp
  then show ?thesis using True same_digest_trans same_digest_sym by blast
next
  case False
  have "\<not> same_digest s t"
  proof
    assume d: "same_digest s t"
    then have "same_digest s' s" using same_tree_digest [OF assms(3,1)] assms(5) by simp
    then show False using d False same_digest_trans same_digest_sym by blast
  qed
  then have "tree t' = tree s'" using assms(5,6) False join_trees_agree [OF assms(7)] by simp
  then show ?thesis using same_tree_digest [OF assms(3,4)] by simp
qed


text \<open>
  Two nodes that meet for the first time pull from each other in turn and nothing fails: both pulls return without error and the
  nodes then have the same digest. If the digests differed, the trees themselves are then equal, whatever SHA-256 does.
\<close>

lemma pulls_converge:
  assumes "\<forall>k. channel_ok (xs k) (store t) (MaxFileSize (cfg s))"
    and "store_inv (store s)" and "blobs_ok (store s)" and "sendable (tree (store s))"
    and "store_inv (store t)" and "blobs_ok (store t)" and "sendable (tree (store t))"
    and "\<forall>p m. tree (store s) p = Some m \<or> tree (store t) p = Some m \<longrightarrow> \<not> rejects s m \<and> \<not> rejects t m"
    and "\<forall>p a b. tree (store s) p = Some a \<and> tree (store t) p = Some b \<longrightarrow>
           (Ver a = Ver b \<longrightarrow> a = b) \<and> resolve a True b \<noteq> decisionConflict \<and> resolve b True a \<noteq> decisionConflict"
    and "PeerSeq (\<lambda>_. False) (store s) nodeT = Inr 0" and "PeerSeq (\<lambda>_. False) (store t) nodeS = Inr 0"
    and "local_seq (store s) + 2 * int (length (entries (store t))) \<le> max_int64"
    and "local_seq (store t) + 2 * int (length (entries (store s)) + length (entries (store t))) \<le> max_int64"
    and "length (entries (store s)) + length (entries (store t)) < fuel"
  shows "\<exists>s'. syncPeer (\<lambda>k. http_peer (xs k) (store t)) (\<lambda>_ _. False) nows fuel s nodeT addrT = Some (None, s')
           \<and> store_inv (store s') \<and> small_blobs (MaxFileSize (cfg s)) (store s) (store s')
           \<and> (\<forall>p m. tree (store s') p = Some m \<longrightarrow> tree (store s) p = Some m \<or> tree (store t) p = Some m)
           \<and> (\<forall>ys. (\<forall>k. channel_ok (ys k) (store s') (MaxFileSize (cfg t))) \<longrightarrow>
                (\<exists>t'. syncPeer (\<lambda>k. http_peer (ys k) (store s')) (\<lambda>_ _. False) nows fuel t nodeS addrS = Some (None, t')
                    \<and> same_digest (store s') (store t')
                    \<and> (\<not> same_digest (store s) (store t) \<and> \<not> same_digest (store t) (store s') \<longrightarrow> tree (store s') = tree (store t'))))"
proof -
  let ?S = "tree (store s)" and ?T = "tree (store t)"
  have okT: "\<forall>k. http_ok (xs k) (store t) (MaxFileSize (cfg s))" using assms(1,5,7) by (simp add: http_ok_def)
  have pos: "\<forall>e \<in> set (feed st 0). Seq e \<le> 0 \<longrightarrow> C e" if "store_inv st" for st C
    using feed_bounds [OF that] by fastforce
  have "\<forall>e \<in> set (feed (store t) 0). acceptable s (store t) e"
    by (rule acceptable_tree [OF assms(5,6)]) (use assms(8,9) in blast)
  from http_peer.pull_outcome [OF okT assms(5,2,3) this assms(10) _ _ pos [OF assms(5)] assms(12), of fuel nows addrT] assms(14)
  obtain s' where one: "syncPeer (\<lambda>k. http_peer (xs k) (store t)) (\<lambda>_ _. False) nows fuel s nodeT addrT = Some (None, s')"
    "tree (store s') = (if same_digest (store s) (store t) then ?S else join_trees ?S ?T)"
    "store_inv (store s')" "blobs_ok (store s')" "small_blobs (MaxFileSize (cfg s)) (store s) (store s')" by (auto simp: int64_defs)
  have inU: "?S p = Some m \<or> ?T p = Some m" if "tree (store s') p = Some m" for p m
    using that one(2) join_trees_in [of ?S ?T p m] by (auto split: if_splits)
  have acc: "\<forall>e \<in> set (feed (store s') 0). acceptable t (store s') e"
  proof (rule acceptable_tree [OF one(3,4)])
    fix p m
    assume "tree (store s') p = Some m"
    then have m: "?S p = Some m \<or> ?T p = Some m" by (rule inU)
    have "resolve l True m \<noteq> decisionConflict" if "?T p = Some l" for l
      using m that assms(9) by (auto simp: resolve_conflict_iff)
    then show "\<not> rejects t m \<and> (\<forall>l. ?T p = Some l \<longrightarrow> resolve l True m \<noteq> decisionConflict)" using m assms(8) by blast
  qed
  have len: "length (entries (store s')) \<le> length (entries (store s)) + length (entries (store t))"
  proof (cases "same_digest (store s) (store t)")
    case True
    then show ?thesis using entries_card [OF assms(2)] entries_card [OF one(3)] one(2) by simp
  next
    case False
    then show ?thesis using joined_length [OF assms(2,5) one(3)] one(2) by simp
  qed
  have "\<exists>t'. syncPeer (\<lambda>k. http_peer (ys k) (store s')) (\<lambda>_ _. False) nows fuel t nodeS addrS = Some (None, t')
          \<and> same_digest (store s') (store t')
          \<and> (\<not> same_digest (store s) (store t) \<and> \<not> same_digest (store t) (store s') \<longrightarrow> tree (store s') = tree (store t'))"
    if ys: "\<forall>k. channel_ok (ys k) (store s') (MaxFileSize (cfg t))" for ys
  proof -
    have "sendable (tree (store s'))" using inU assms(4,7) unfolding sendable_def by blast
    then have okS: "\<forall>k. http_ok (ys k) (store s') (MaxFileSize (cfg t))" using ys one(3) by (simp add: http_ok_def)
    from http_peer.pull_outcome [OF okS one(3) assms(5,6) acc assms(11) _ _ pos [OF one(3)], of fuel nows addrS] assms(13,14) len
    obtain t' where two: "syncPeer (\<lambda>k. http_peer (ys k) (store s')) (\<lambda>_ _. False) nows fuel t nodeS addrS = Some (None, t')"
      "tree (store t') = (if same_digest (store t) (store s') then ?T else join_trees ?T (tree (store s')))"
      "store_inv (store t')" by (auto simp: int64_defs)
    show ?thesis using pulls_agree [OF assms(2,5) one(3) two(3) one(2) two(2)] assms(9) two(1) by blast
  qed
  then show ?thesis using one(1,3,5) inU by blast
qed

section \<open>Surroundings in which a store is served\<close>

text \<open>For every store there are surroundings in which it is served: the client's limit is chosen by the size of its entries.\<close>

definition entries_size :: "Store \<Rightarrow> nat" where
  "entries_size st = sum_list (map (\<lambda>r. length (print_json (Meta_json (meta r))) + 1) (entries st))"

definition store_exchange :: "Store \<Rightarrow> exchange" where
  "store_exchange st =
     \<lparr>x_client = \<lparr>cl_keys = example_keys, cl_node = ''n2'', cl_maxBody = 1000 + int (entries_size st)\<rparr>,
      x_server = example_server, x_client_now = 7000, x_server_now = 7000, x_nonce = Some ''abc''\<rparr>"

lemma length_dec_int: "is_int64 i \<Longrightarrow> length (dec_int i) \<le> 20"
proof -
  assume i: "is_int64 i"
  have "- i < 10 ^ 19" "i < 10 ^ 19" using i by (simp_all add: int64_defs)
  then have "nat (- i) < nat (10 ^ 19)" "nat i < nat (10 ^ 19)" by (simp_all only: nat_mono_iff zero_less_power zero_less_numeral)
  then show ?thesis
    using length_dec_nat [of 19 "nat (- i)"] length_dec_nat [of 19 "nat i"] by (simp add: dec_int_def nat_power_eq)
qed

lemma length_join_on: "length (join_on c ws) \<le> sum_list (map (\<lambda>w. length w + 1) ws)"
  by (induction c ws rule: join_on.induct) simp_all

lemma sum_feed: "sum_list (map f (take n (feed st i))) \<le> sum_list (map (\<lambda>r. f (meta r)) (entries st))" for f :: "Meta \<Rightarrow> nat"
proof -
  let ?g = "\<lambda>r. f (meta r)" and ?rows = "filter (\<lambda>r. r_seq r > i) (entries st)"
  have "mset (map ?g (sort_key r_seq ?rows)) = mset (map ?g ?rows)" by simp
  then have sort: "sum_list (map ?g (sort_key r_seq ?rows)) = sum_list (map ?g ?rows)" unfolding sum_mset_sum_list [symmetric] by simp
  have "sum_list (map f (take n (feed st i))) \<le> sum_list (map f (take n (feed st i))) + sum_list (map f (drop n (feed st i)))" by simp
  also have "\<dots> = sum_list (map f (feed st i))" by (simp flip: sum_list_append map_append)
  also have "\<dots> = sum_list (map ?g (sort_key r_seq ?rows))" by (simp add: feed_def comp_def)
  also have "\<dots> = sum_list (map ?g ?rows)" by (rule sort)
  also have "\<dots> \<le> sum_list (map ?g (entries st))" by (rule sum_list_filter_le_nat)
  finally show ?thesis .
qed

lemma length_page_sum:
  assumes "page64 page"
  shows "length (print_json (Manifest_json page)) \<le> 100 + sum_list (map (\<lambda>m. length (print_json (Meta_json m)) + 1) (mr_Entries page))"
proof -
  have "length (join_on CHR '','' (map print_json (map Meta_json (mr_Entries page))))
      \<le> sum_list (map (\<lambda>m. length (print_json (Meta_json m)) + 1) (mr_Entries page))"
    using length_join_on [of "CHR '',''" "map print_json (map Meta_json (mr_Entries page))"] by (simp add: comp_def)
  moreover have "length (print_json (JInt (mr_Head page))) \<le> 20" using assms length_dec_int by (simp add: page64_def JInt_def)
  ultimately show ?thesis by (simp add: Manifest_json_def quote_plain escape_char_def comp_def)
qed

lemma length_page:
  assumes "manifest_page (\<lambda>_. False) st i = Inr page" and "page64 page"
  shows "length (print_json (Manifest_json page)) \<le> 100 + entries_size st"
proof -
  have "mr_Entries page = take MaxManifestPage (feed st i)" using manifest_page_eq [of "\<lambda>_. False" st i] assms(1) by auto
  then show ?thesis
    using length_page_sum [OF assms(2)] sum_feed [of "\<lambda>m. length (print_json (Meta_json m)) + 1" MaxManifestPage st i]
    by (simp add: entries_size_def)
qed

lemma lower_hex_plain: "is_lower_hex c \<Longrightarrow> ord8 c < 0x80 \<and> escape_char c = [c]"
proof -
  assume "is_lower_hex c"
  moreover have "list_all (\<lambda>c. ord8 c < 0x80 \<and> escape_char c = [c]) ''0123456789abcdef''" by code_simp
  ultimately show ?thesis by (simp only: is_lower_hex_def list_all_iff)
qed

lemma length_digest:
  assumes "store_inv st" and "Digest (\<lambda>_. False) st = Inr d"
  shows "length (print_json (Digest_json (digest_response d))) \<le> 200"
proof -
  note c = digest_counts [OF assms]
  have hex: "length (fst d) = 64" "list_all is_lower_hex (fst d)"
    using assms(2) hex_chars by (auto simp: Digest_def All_entries_def list_all_iff)
  then have "length (quote (fst d)) = 66" using lower_hex_plain by (simp add: quote_plain list_all_iff)
  then show ?thesis
    using length_dec_int [OF c(1)] length_dec_int [OF c(2)] by (simp add: Digest_json_def JInt_def quote_plain escape_char_def)
qed

lemma store_exchange_ok:
  assumes "store_inv st" and "store64 st" and "\<And>p m. tree st p = Some m \<Longrightarrow> \<not> needs_blob m"
  shows "channel_ok (store_exchange st) st mx"
proof -
  let ?x = "store_exchange st"
  have fits: "fits ?x b" if "length b \<le> 200 + entries_size st" for b
    using that by (simp add: fits_def store_exchange_def)
  have dig: "fits ?x (print_json (Digest_json (digest_response d)))" if "Digest (\<lambda>_. False) st = Inr d" for d
    using fits length_digest [OF assms(1) that] by simp
  have man: "fits ?x (print_json (Manifest_json page))" if "is_int64 i" "manifest_page (\<lambda>_. False) st i = Inr page" for i page
    using fits length_page [OF that(2) store64_page [OF assms(2) that]] by simp
  have "\<not> offered st h" for h
    using assms(3) row_at_iff [OF assms(1)] by (auto simp: offered_def tree_def) (metis needs_blob_replicated row_at_tree)
  moreover have "can_ask (x_client ?x) (x_server ?x) (x_client_now ?x) (x_server_now ?x) (x_nonce ?x)"
    by (simp add: can_ask_def store_exchange_def example_server_def MaxSkew_def int64_defs)
  moreover have "newGCM (Blob_key (sv_keys (x_server ?x)))" "\<exists>n. sv_nonce (x_server ?x) = Some n \<and> length n = NonceSize"
    by (simp_all add: store_exchange_def newGCM_def example_server_def example_keys_def NonceSize_def)
  ultimately show ?thesis unfolding channel_ok_def using dig man by blast
qed

section \<open>Two concrete nodes\<close>

text \<open>A neighbour of the example node with a newer tombstone at one path and a directory of its own.\<close>

definition example_store2 :: Store where
  "example_store2 =
     \<lparr>entries =
        [(rowOf (zero_Meta\<lparr>Path := ''a'', Kind := KindFile, Deleted := True, DeletedAt := 8,
                   Ver := Version (Timestamp 9 0) ''n2''\<rparr>))\<lparr>r_seq := 1\<rparr>,
         (rowOf (zero_Meta\<lparr>Path := ''f'', Kind := KindDir, Ver := Version (Timestamp 6 0) ''n2''\<rparr>))\<lparr>r_seq := 4\<rparr>],
      blobs = [], peers = [], local_seq = 4\<rparr>"

definition example_service2 :: Service where
  "example_service2 = New \<lparr>Node = ''n2'', MaxFileSize = 100, TombstoneTTL = 50, HasPeers = True\<rparr> example_store2 (\<lambda>k. 1000)"

lemma example_trees:
  "tree example_store p = Some m \<Longrightarrow>
     m = zero_Meta\<lparr>Path := ''d'', Kind := KindDir, Ver := Version (Timestamp 5 0) ''n1''\<rparr> \<and> p = ''d''
   \<or> m = zero_Meta\<lparr>Path := ''a'', Kind := KindFile, Deleted := True, DeletedAt := 7, Ver := Version (Timestamp 7 0) ''n1''\<rparr> \<and> p = ''a''"
  "tree example_store2 p = Some m \<Longrightarrow>
     m = zero_Meta\<lparr>Path := ''a'', Kind := KindFile, Deleted := True, DeletedAt := 8, Ver := Version (Timestamp 9 0) ''n2''\<rparr> \<and> p = ''a''
   \<or> m = zero_Meta\<lparr>Path := ''f'', Kind := KindDir, Ver := Version (Timestamp 6 0) ''n2''\<rparr> \<and> p = ''f''"
  by (auto simp: tree_def row_at_def example_store_def example_store2_def replicated_def rowOf_def meta_def zero_Meta_def split: if_splits)

lemma example_store2_inv: "store_inv example_store2" "blobs_ok example_store2"
  by (simp_all add: example_store2_def store_inv_def rowOf_def max_int64_def blobs_ok_def needs_blob_def)

lemma example_service2_simps [simp]:
  "store example_service2 = example_store2"
  "cfg example_service2 = \<lparr>Node = ''n2'', MaxFileSize = 100, TombstoneTTL = 50, HasPeers = True\<rparr>"
  "clock example_service2 = NewClock (\<lambda>k. 1000)"
  by (simp_all add: example_service2_def New_def)

lemma example_accepted:
  assumes "tree example_store p = Some m \<or> tree example_store2 p = Some m" and "s = example_service \<or> s = example_service2"
  shows "\<not> rejects s m" "\<not> needs_blob m"
proof -
  have c: "MaxFileSize (cfg s) = 100" "now_at (clock s) = (\<lambda>k. 1000)" using assms(2) by (auto simp: NewClock_def)
  have "good_path (Path m) \<and> Valid (Kind m) \<and> Origin (Ver m) \<noteq> '''' \<and> Size m = 0 \<and> Hash m = ''''
      \<and> 0 \<le> Wall (HLC (Ver m)) \<and> Wall (HLC (Ver m)) \<le> 9"
    using assms(1)
  proof
    assume "tree example_store p = Some m"
    from example_trees(1) [OF this] show ?thesis by (elim disjE conjE) (simp_all add: Valid_def)
  next
    assume "tree example_store2 p = Some m"
    from example_trees(2) [OF this] show ?thesis by (elim disjE conjE) (simp_all add: Valid_def)
  qed
  then have m: "good_path (Path m)" "Valid (Kind m)" "Origin (Ver m) \<noteq> ''''" "Size m = 0" "Hash m = ''''"
    "0 \<le> Wall (HLC (Ver m))" "Wall (HLC (Ver m)) \<le> 9" by blast+
  have "validate s m = None" using m c by (simp add: validate_def)
  moreover have "wrap64 (Wall (HLC (Ver m)) - 1000) = Wall (HLC (Ver m)) - 1000" using m(6,7) by (intro wrap64_id) (simp add: int64_defs)
  ultimately show "\<not> rejects s m" using m(7) c by (simp add: rejects_def MaxClockDrift_def)
  show "\<not> needs_blob m" using m(5) by (simp add: needs_blob_def)
qed

lemma example_sequential:
  assumes "tree example_store p = Some a" and "tree example_store2 p = Some b"
  shows "Ver a \<noteq> Ver b \<and> resolve a True b \<noteq> decisionConflict \<and> resolve b True a \<noteq> decisionConflict"
  using example_trees(1) [OF assms(1)] example_trees(2) [OF assms(2)] by (auto simp: resolve_conflict_iff)

lemma example_sendable: "sendable (tree example_store)" "sendable (tree example_store2)"
  by (auto simp: sendable_def numbers64_def utf8_Meta_def utf8_valid_def to_valid_ascii int64_defs dest!: example_trees)

lemma example_served: "channel_ok (store_exchange example_store2) example_store2 mx"
  by (rule store_exchange_ok [OF example_store2_inv(1) sendable_rows(1) [OF example_store2_inv(1) example_sendable(2)]])
    (use example_accepted(2) [of _ _ example_service] in blast)

lemma example_sizes:
  "length (entries example_store) = 2" "length (entries example_store2) = 2" "local_seq example_store = 2" "local_seq example_store2 = 4"
  by (simp_all add: example_store_def example_store2_def)


section \<open>Names that are not UTF-8\<close>

text \<open>C34. A page of the feed arrives over HTTP as it was sent, entry by entry, except that in every string each byte that is not part of a valid
  UTF-8 sequence is replaced by the character U+FFFD. An entry keeps its path exactly when the path is valid UTF-8. SanitizePath
  accepts other paths, so a file with such a name reaches the peers under another name.\<close>

theorem page_arrives_in_utf8:
  assumes "channel_ok x st mx" and "store64 st" and "0 \<le> i" and "is_int64 i" and "manifest_page (\<lambda>_. False) st i = Inr page"
  shows "\<exists>got. pc_Manifest (http_peer x st) addr i = Inr got
           \<and> mr_Head got = mr_Head page \<and> mr_More got = mr_More page \<and> length (mr_Entries got) = length (mr_Entries page)
           \<and> (\<forall>k < length (mr_Entries page). let e = mr_Entries page ! k; g = mr_Entries got ! k in
                Path g = to_valid (Path e) \<and> Kind g = Kind e \<and> Hash g = to_valid (Hash e) \<and> Size g = Size e \<and> Mode g = Mode e
                \<and> UID g = UID e \<and> GID g = GID e \<and> HLC (Ver g) = HLC (Ver e) \<and> Origin (Ver g) = to_valid (Origin (Ver e))
                \<and> Deleted g = Deleted e \<and> DeletedAt g = DeletedAt e \<and> Seq g = Seq e
                \<and> (g = e \<longleftrightarrow> utf8_Meta e))"
proof -
  have "valid_Meta e = e \<longleftrightarrow> utf8_Meta e" for e
  proof
    assume "valid_Meta e = e"
    then have "Path (valid_Meta e) = Path e" "Hash (valid_Meta e) = Hash e" "PrevHash (valid_Meta e) = PrevHash e"
      "Origin (Ver (valid_Meta e)) = Origin (Ver e)" by simp_all
    then show "utf8_Meta e" by (simp add: valid_Meta_def utf8_Meta_def utf8_valid_def)
  qed (simp add: utf8_Meta_def valid_Meta_id)
  then show ?thesis
    using page_served [OF assms, of addr] by (simp add: valid_page_def Let_def) (simp add: valid_Meta_def)
qed

definition odd_name :: string where
  "odd_name = [CHR ''a'', CHR 0xFF]"

definition odd_store :: Store where
  "odd_store =
     \<lparr>entries = [(rowOf (zero_Meta\<lparr>Path := odd_name, Kind := KindDir, Ver := Version (Timestamp 5 0) ''n1''\<rparr>))\<lparr>r_seq := 1\<rparr>],
      blobs = [], peers = [], local_seq = 1\<rparr>"

theorem page_arrives_in_utf8_witness:
  "SanitizePath odd_name = Inr odd_name \<and> (\<exists>got. pc_Manifest (http_peer (store_exchange odd_store) odd_store) ''addr'' 0 = Inr got
     \<and> map Path (mr_Entries got) = [[CHR ''a'', CHR 0xEF, CHR 0xBF, CHR 0xBD]])"
proof -
  have inv: "store_inv odd_store" "store64 odd_store"
    by (simp_all add: odd_store_def store_inv_def rowOf_def max_int64_def store64_def numbers64_def int64_defs meta_def)
  have "\<not> needs_blob m" if "tree odd_store p = Some m" for p m
    using that by (auto simp: tree_def row_at_def odd_store_def needs_blob_def rowOf_def split: if_splits)
  then have ch: "channel_ok (store_exchange odd_store) odd_store 100" by (intro store_exchange_ok inv)
  let ?page = "\<lparr>mr_Entries = feed odd_store 0, mr_Head = 1, mr_More = False\<rparr>"
  have feed: "map Path (feed odd_store 0) = [odd_name]" "map Seq (feed odd_store 0) = [1]"
    by (simp_all add: feed_def odd_store_def rowOf_def)
  then have page: "manifest_page (\<lambda>_. False) odd_store 0 = Inr ?page"
    using manifest_page_eq [of "\<lambda>_. False" odd_store 0] by (auto simp: MaxManifestPage_def)
  have "to_valid odd_name = [CHR ''a'', CHR 0xEF, CHR 0xBF, CHR 0xBD]" by code_simp
  moreover have "SanitizePath odd_name = Inr odd_name" by code_simp
  ultimately show ?thesis
    using page_arrives_in_utf8 [OF ch inv(2) _ _ page, of "''addr''"] feed(1)
    by (auto simp: int64_defs Let_def intro!: nth_equalityI)
qed

end
