(* ===== verification/Status.thy ===== *)
theory Status
  imports Store_Digest Status_Document
begin

text \<open>
  \<^verbatim>\<open>buildStatus\<close> of \<^verbatim>\<open>cmd/dcfs/status.go\<close>: how the status of a node is assembled from the store, the syncer and the
  membership. The zone of the node's clock and the texts of errors are arguments.
\<close>

record statusInputs =
  in_node :: string
  in_addr :: string
  in_started :: int
  in_members :: "Member list"
  in_mirrorDir :: string
  in_mountPoint :: string
  in_zone :: "int \<Rightarrow> int"
  in_errText :: "err \<Rightarrow> string"

text \<open>A reading of the clock, nanoseconds since 1970, as a \<^verbatim>\<open>time.Time\<close>; the zone gives how far local time is ahead at that moment.\<close>

definition local_Time :: "(int \<Rightarrow> int) \<Rightarrow> int \<Rightarrow> Time" where
  "local_Time zone now = \<lparr>t_ns = now + unix_epoch, t_offset = zone now\<rparr>"

text \<open>The map from node names to bookmarks; a missing name reads as zero.\<close>

definition seqOf :: "Peer list \<Rightarrow> string \<Rightarrow> int" where
  "seqOf ps node = (case map_of (rev (map (\<lambda>p. (Peer_Node p, Peer_LastSeq p)) ps)) node of None \<Rightarrow> 0 | Some q \<Rightarrow> q)"

definition buildStatus :: "dbfault \<Rightarrow> Service \<Rightarrow> statusInputs \<Rightarrow> err + Status" where
  "buildStatus flt s inp =
     (case Store_Stats flt (store s) of
        Inl e \<Rightarrow> Inl e
      | Inr stats \<Rightarrow>
          (case Digest flt (store s) of
             Inl e \<Rightarrow> Inl e
           | Inr (digest, _, _) \<Rightarrow>
               (case Conflicts flt s of
                  Inl e \<Rightarrow> Inl e
                | Inr conflicts \<Rightarrow>
                    (case Peers flt (store s) of
                       Inl e \<Rightarrow> Inl e
                     | Inr bookmarks \<Rightarrow>
                         let members = map (\<lambda>m. \<lparr>sm_Node = mem_Node m, sm_Addr = mem_Addr m, sm_Alive = True,
                                               sm_Self = mem_Self m, sm_LastSeq = seqOf bookmarks (mem_Node m)\<rparr>) (in_members inp);
                             (lastSync, lastErr) = SyncState s
                         in Inr \<lparr>st_Node = in_node inp, st_Addr = in_addr inp, st_StartedAt = local_Time (in_zone inp) (in_started inp), st_Digest = digest,
                                 st_Entries = Stats_Entries stats, st_Tombstones = Stats_Tombstones stats,
                                 st_Blobs = Stats_Blobs stats, st_BlobBytes = Stats_BlobBytes stats, st_Head = Stats_Head stats,
                                 st_Conflicts = conflicts, st_Members = members, st_MirrorDir = in_mirrorDir inp,
                                 st_MountPoint = in_mountPoint inp, 
                                 st_LastSync = (case lastSync of None \<Rightarrow> zero_Time | Some t \<Rightarrow> local_Time (in_zone inp) t),
                                 st_LastError = (case lastErr of None \<Rightarrow> '''' | Some e \<Rightarrow> in_errText inp e)\<rparr>))))"

end
