(* ===== verification/Store_Open.thy ===== *)
theory Store_Open
  imports Store
begin

text \<open>
  \<^verbatim>\<open>Open\<close> and \<^verbatim>\<open>migrate\<close> of \<^verbatim>\<open>internal/store/store.go\<close>. gorm, SQLite and goose are arguments: whether their calls succeed, and what
  applying migrations leaves in the file. The migration of the program is read from \<^verbatim>\<open>migrations/00001_init.sql\<close>.
\<close>

section \<open>Migrations\<close>

text \<open>
  A database file holds the tables of the program or not yet; a migration is a statement on it. Creating tables that exist is an error.
\<close>

type_synonym migration = "Store option \<Rightarrow> err + Store option"

definition init_up :: migration where
  "init_up tables = (case tables of None \<Rightarrow> Inr (Some empty_store) | Some st \<Rightarrow> Inl ErrDB)"

definition migrations :: "(nat \<times> migration) list" where
  "migrations = [(1, init_up)]"

section \<open>Opening\<close>

text \<open>\<open>oe_Up\<close> is \<^verbatim>\<open>Provider.Up\<close>: the tables it leaves, given the migrations it is made with.\<close>

record open_env =
  oe_gorm_Open :: "string \<Rightarrow> bool"
  oe_DB :: bool
  oe_Sub :: bool
  oe_NewProvider :: bool
  oe_Up :: "(nat \<times> migration) list \<Rightarrow> err + Store option"

definition dsn :: "string \<Rightarrow> string" where
  "dsn path =
     path @ ''?_pragma=journal_mode(WAL)'' @ ''&_pragma=busy_timeout(5000)'' @ ''&_pragma=synchronous(NORMAL)'' @ ''&_pragma=foreign_keys(1)''"

definition migrate :: "open_env \<Rightarrow> err + Store option" where
  "migrate env =
     (if \<not> oe_Sub env then Inl ErrInvalid
      else if \<not> oe_NewProvider env then Inl ErrInvalid
      else oe_Up env migrations)"

text \<open>Without tables every later query fails, which is an error here already.\<close>

definition Open_store :: "open_env \<Rightarrow> string \<Rightarrow> err + Store" where
  "Open_store env path =
     (if \<not> oe_gorm_Open env (dsn path) then Inl ErrDB
      else if \<not> oe_DB env then Inl ErrDB
      else case migrate env of
        Inl e \<Rightarrow> Inl e
      | Inr None \<Rightarrow> Inl ErrDB
      | Inr (Some st) \<Rightarrow> Inr st)"

section \<open>A new and an old database\<close>

text \<open>What goose documents of \<^verbatim>\<open>Up\<close>: the migrations whose versions are not recorded as applied are run, in order, up to the first that fails.\<close>

fun pending_up :: "nat list \<Rightarrow> Store option \<Rightarrow> (nat \<times> migration) list \<Rightarrow> err + Store option" where
  "pending_up applied tables [] = Inr tables"
| "pending_up applied tables ((v, m) # ms) =
     (if v \<in> set applied then pending_up applied tables ms
      else case m tables of Inl e \<Rightarrow> Inl e | Inr tables \<Rightarrow> pending_up applied tables ms)"

definition opens :: "open_env \<Rightarrow> string \<Rightarrow> bool" where
  "opens env path \<longleftrightarrow> oe_gorm_Open env (dsn path) \<and> oe_DB env \<and> oe_Sub env \<and> oe_NewProvider env"

text \<open>
  A new file becomes the empty store, which is sound, and a file that was migrated before is opened with what it holds. A file that has the tables but no record of
  the migration is refused.
\<close>

lemma Open_store_new_and_old:
  assumes "opens env path"
  shows "oe_Up env = pending_up [] None \<Longrightarrow> Open_store env path = Inr empty_store \<and> store_inv empty_store"
    and "oe_Up env = pending_up [1] (Some st) \<Longrightarrow> Open_store env path = Inr st"
    and "oe_Up env = pending_up [] (Some st) \<Longrightarrow> Open_store env path = Inl ErrDB"
  using assms empty_store_inv by (simp_all add: opens_def Open_store_def migrate_def migrations_def init_up_def)

text \<open>Opening succeeds only with tables that the migrations left.\<close>

lemma Open_store_Inr: "Open_store env path = Inr st \<longleftrightarrow> opens env path \<and> oe_Up env migrations = Inr (Some st)"
  by (auto simp: Open_store_def migrate_def opens_def split: sum.splits option.splits if_splits)

end
