(* ===== verification/Serve.thy ===== *)
theory Serve
  imports Convergence Status Store_Open
begin

text \<open>
  \<^verbatim>\<open>cmd/dcfs/main.go\<close> and \<^verbatim>\<open>cmd/dcfs/serve.go\<close>: the flags with their defaults, and how a node is put together from
  them. Reading flags and environment variables is the library's; which steps of starting up fail is an argument. What
  the parts do once they run is in their own theories, and the theorems here are about nodes that were started this way.
\<close>

section \<open>Flags\<close>

record Flags =
  fl_secret :: string
  fl_node :: string
  fl_api_addr :: string
  fl_log_level :: string
  fl_db :: string
  fl_mirror :: string
  fl_mount :: string
  fl_bind :: string
  fl_gossip_port :: int
  fl_advertise :: string
  fl_advertise_gossip_port :: int
  fl_advertise_api :: string
  fl_join :: "string list"
  fl_max_file_size :: int
  fl_tombstone_ttl :: int
  fl_sync_interval :: int
  fl_scan_interval :: int
  fl_janitor_interval :: int
  fl_settle :: int

text \<open>\<^verbatim>\<open>os.Hostname\<close> is an argument, None its error.\<close>

definition defaultNodeName :: "string option \<Rightarrow> string" where
  "defaultNodeName host = (case host of None \<Rightarrow> ''dcfs-node'' | Some name \<Rightarrow> if name = '''' then ''dcfs-node'' else name)"

text \<open>Flags that have no value of their own are empty or zero.\<close>

definition no_flags :: Flags where
  "no_flags =
     \<lparr>fl_secret = '''', fl_node = '''', fl_api_addr = '''', fl_log_level = '''', fl_db = '''', fl_mirror = '''', fl_mount = '''',
      fl_bind = '''', fl_gossip_port = 0, fl_advertise = '''', fl_advertise_gossip_port = 0, fl_advertise_api = '''', fl_join = [],
      fl_max_file_size = 0, fl_tombstone_ttl = 0, fl_sync_interval = 0, fl_scan_interval = 0, fl_janitor_interval = 0, fl_settle = 0\<rparr>"

definition globalFlags :: "string option \<Rightarrow> Flags \<Rightarrow> Flags" where
  "globalFlags host f =
     f\<lparr>fl_node := defaultNodeName host, fl_api_addr := ''127.0.0.1:7947'', fl_log_level := ''info''\<rparr>"

definition serveFlags :: "Flags \<Rightarrow> Flags" where
  "serveFlags f =
     f\<lparr>fl_db := ''/var/lib/dcfs/dcfs.db'', fl_mirror := ''/etc/cluster'', fl_bind := ''0.0.0.0'', fl_gossip_port := 7946,
       fl_max_file_size := 1048576, fl_tombstone_ttl := 7 * 24 * 3600 * Second, fl_sync_interval := 30 * Second,
       fl_scan_interval := 60 * Second, fl_janitor_interval := 3600 * Second, fl_settle := 300 * 1000000\<rparr>"

section \<open>Starting a node\<close>

definition manifestOverhead :: int where
  "manifestOverhead = 16777216"

text \<open>What starting up meets: failing calls, the database that is opened, the clock and its zone, and the texts of errors.\<close>

record start_env =
  se_mkdir_fails :: bool
  se_db :: open_env
  se_gossip_starts :: bool
  se_mirror_fails :: bool
  se_mkdir_mount_fails :: bool
  se_mount_fails :: bool
  se_clock :: "nat \<Rightarrow> int"
  se_started :: int
  se_zone :: "int \<Rightarrow> int"
  se_errText :: "err \<Rightarrow> string"

text \<open>
  The parts of a running node: the client it pulls with, gossip, its service, the keys of its server and the address that listens, the
  directories it shows the tree in (empty when it does not), and what its status is assembled from, given the nodes gossip knows of.
\<close>

record Running =
  rn_client :: Client
  rn_gossip :: ml_Config
  rn_seeds :: "string list"
  rn_cluster :: Cluster
  rn_service :: Service
  rn_keys :: Keys
  rn_listen :: string
  rn_mirror :: string
  rn_mount :: string
  rn_status :: "ml_Node list \<Rightarrow> statusInputs"

text \<open>Whether the mount point cannot be made and whether mounting fails.\<close>

definition mountTree :: "bool \<Rightarrow> bool \<Rightarrow> err option" where
  "mountTree mkdirFails mountFails =
     (if mkdirFails then Some ErrInvalid else if mountFails then Some ErrInvalid else None)"

definition runServe :: "start_env \<Rightarrow> Flags \<Rightarrow> err + Running" where
  "runServe env f =
     (case DeriveKeys (fl_secret f) of
        Inl e \<Rightarrow> Inl e
      | Inr keys \<Rightarrow>
          if se_mkdir_fails env then Inl ErrInvalid
          else (case Open_store (se_db env) (fl_db f) of
            Inl e \<Rightarrow> Inl e
          | Inr st \<Rightarrow>
              let node = fl_node f;
                  apiAddr = fl_api_addr f;
                  advertiseAPI = (if fl_advertise_api f = '''' then apiAddr else fl_advertise_api f);
                  maxFileSize = fl_max_file_size f;
                  peerClient = NewClient node keys (wrap64 (maxFileSize + manifestOverhead));
                  gossipPort = fl_gossip_port f;
                  advertiseAddr = (if fl_advertise f = '''' \<and> fl_bind f \<noteq> ''0.0.0.0'' then fl_bind f else fl_advertise f);
                  advertiseGossipPort = (if fl_advertise_gossip_port f = 0 then gossipPort else fl_advertise_gossip_port f);
                  cf = \<lparr>cc_Node = node, cc_BindAddr = fl_bind f, cc_BindPort = gossipPort, cc_AdvertiseAddr = advertiseAddr,
                        cc_AdvertisePort = advertiseGossipPort, cc_APIAddr = advertiseAPI, cc_Join = fl_join f, cc_Keys = keys\<rparr>
              in case Join_cluster (se_gossip_starts env) cf of
                   Inl e \<Rightarrow> Inl e
                 | Inr members \<Rightarrow>
                     let svc = New \<lparr>Node = node, MaxFileSize = maxFileSize, TombstoneTTL = fl_tombstone_ttl f, HasPeers = True\<rparr> st (se_clock env);
                         mirrorDir = fl_mirror f;
                         mountPoint = fl_mount f
                     in if mirrorDir \<noteq> '''' \<and> se_mirror_fails env then Inl ErrInvalid
                        else if mountPoint \<noteq> '''' \<and> mountTree (se_mkdir_mount_fails env) (se_mount_fails env) \<noteq> None then Inl ErrInvalid
                        else Inr \<lparr>rn_client = peerClient, rn_gossip = mlCfg cf, rn_seeds = cc_Join cf, rn_cluster = members,
                                  rn_service = svc, rn_keys = keys, rn_listen = apiAddr, rn_mirror = mirrorDir, rn_mount = mountPoint,
                                  rn_status = (\<lambda>nodes. \<lparr>in_node = node, in_addr = advertiseAPI, in_started = se_started env,
                                    in_members = Members nodes members, in_mirrorDir = mirrorDir, in_mountPoint = mountPoint,
                                    in_zone = se_zone env, in_errText = se_errText env\<rparr>)\<rparr>))"

text \<open>
  The end of \<^verbatim>\<open>runServe\<close>: \<open>ended\<close> is what the group of running parts returned, with whether it is the cancellation of the context. The node
  leaves the cluster in any case, and a cancellation is no error.
\<close>

definition stopServe :: "(bool \<times> err) option \<Rightarrow> bool \<Rightarrow> bool \<Rightarrow> Running \<Rightarrow> err option \<times> Running" where
  "stopServe ended leaveFails shutdownFails r =
     (case ended of Some (cancelled, e) \<Rightarrow> if cancelled then None else Some e | None \<Rightarrow> None,
      r\<lparr>rn_cluster := snd (Leave leaveFails shutdownFails (rn_cluster r))\<rparr>)"

lemma runServe_Inr:
  assumes "runServe env f = Inr a"
  obtains st where "DeriveKeys (fl_secret f) = Inr (rn_keys a)" "Open_store (se_db env) (fl_db f) = Inr st" "fl_node f \<noteq> ''''"
    "rn_client a = \<lparr>cl_keys = rn_keys a, cl_node = fl_node f, cl_maxBody = wrap64 (fl_max_file_size f + manifestOverhead)\<rparr>"
    "rn_service a = New \<lparr>Node = fl_node f, MaxFileSize = fl_max_file_size f, TombstoneTTL = fl_tombstone_ttl f, HasPeers = True\<rparr> st (se_clock env)"
  using assms by (auto simp: runServe_def Let_def Join_cluster_def NewClient_def split: sum.splits if_splits)

lemma rn_cfg: "runServe env f = Inr a \<Longrightarrow> MaxFileSize (cfg (rn_service a)) = fl_max_file_size f"
  by (erule runServe_Inr) (simp add: New_def)

lemma rn_keys_length: "runServe env f = Inr a \<Longrightarrow> length (Blob_key (rn_keys a)) = 32"
  using DeriveKeys_total [of "fl_secret f"] by (elim runServe_Inr) simp

section \<open>What fits the client's limit\<close>

text \<open>An entry whose strings stay within the usual bounds when they are written as JSON.\<close>

definition modest :: "Meta \<Rightarrow> bool" where
  "modest m \<longleftrightarrow>
     length (json_escape (Path m)) \<le> 4096 \<and> length (json_escape (Hash m)) \<le> 64 \<and> length (json_escape (PrevHash m)) \<le> 64
     \<and> length (json_escape (Origin (Ver m))) \<le> 255"

lemma length_JWord8: "length (print_json (JWord (w :: uint8))) \<le> 3"
proof -
  have "unat w < 10 ^ 3" using unsigned_less [of w, where 'a = nat] by simp
  then show ?thesis using length_dec_nat [of 3 "unat w"] by (simp add: JWord_def)
qed

lemma length_JWord32: "length (print_json (JWord (w :: uint32))) \<le> 10"
proof -
  have "unat w < 10 ^ 10" using unsigned_less [of w, where 'a = nat] by simp
  then show ?thesis using length_dec_nat [of 10 "unat w"] by (simp add: JWord_def)
qed

lemma length_JInt: "is_int64 i \<Longrightarrow> length (print_json (JInt i)) \<le> 20"
  using length_dec_int by (simp add: JInt_def)

lemma length_quote: "length (quote s) = length (json_escape s) + 2"
  by (simp add: quote_def)

lemma entry_length:
  assumes "modest m" and "numbers64 m"
  shows "length (print_json (Meta_json m)) \<le> 5000"
  using assms(1) length_JWord8 [of "Kind m"] length_JWord32 [of "Mode m"] length_JWord32 [of "UID m"] length_JWord32 [of "GID m"]
    length_JWord32 [of "Counter (HLC (Ver m))"] assms(2) length_JInt [of "Size m"] length_JInt [of "Wall (HLC (Ver m))"]
    length_JInt [of "DeletedAt m"] length_JInt [of "Seq m"]
  by (simp add: Meta_json_def omitempty_def Version_json_def Timestamp_json_def modest_def numbers64_def length_quote
      json_escape_plain escape_char_def)

end
