(* ===== verification/Serve_Props.thy ===== *)
theory Serve_Props
  imports Serve
begin

text \<open>
  Nodes that \<^verbatim>\<open>runServe\<close> has started: that two of them converge, when starting fails, and what the limit the client is started with lets through.
\<close>

section \<open>Two started nodes\<close>

text \<open>The moment of one request: both clocks, the random bytes of the request and the nonce of the answer.\<close>

record moment =
  mo_client_now :: int
  mo_server_now :: int
  mo_request :: bytes
  mo_seal :: bytes

definition moment_ok :: "moment \<Rightarrow> bool" where
  "moment_ok mo \<longleftrightarrow>
     is_int64 (mo_client_now mo) \<and> \<bar>mo_server_now mo - mo_client_now mo\<bar> \<le> MaxSkew \<and> mo_request mo \<noteq> [] \<and> length (mo_seal mo) = 12"

text \<open>The first node asks the second.\<close>

definition asks :: "Running \<Rightarrow> Running \<Rightarrow> moment \<Rightarrow> exchange" where
  "asks a b mo =
     \<lparr>x_client = rn_client a, x_server = \<lparr>sv_keys = rn_keys b, sv_nonce = Some (mo_seal mo)\<rparr>,
      x_client_now = mo_client_now mo, x_server_now = mo_server_now mo, x_nonce = Some (mo_request mo)\<rparr>"

lemma sum_list_le_length: "(\<And>x. x \<in> set xs \<Longrightarrow> f x \<le> c) \<Longrightarrow> sum_list (map f xs) \<le> length xs * c" for f :: "'a \<Rightarrow> nat"
  by (induction xs) (simp_all add: add_mono)

lemma modest_page_length:
  assumes "page64 page" and "length (mr_Entries page) \<le> 2000" and "\<And>m. m \<in> set (mr_Entries page) \<Longrightarrow> modest m"
  shows "length (print_json (Manifest_json page)) \<le> 10002100"
proof -
  have "length (print_json (Meta_json m)) + 1 \<le> 5001" if "m \<in> set (mr_Entries page)" for m
    using entry_length [OF assms(3) [OF that]] that assms(1) by (simp add: page64_def list_all_iff)
  then have "sum_list (map (\<lambda>m. length (print_json (Meta_json m)) + 1) (mr_Entries page)) \<le> length (mr_Entries page) * 5001"
    by (rule sum_list_le_length)
  also have "\<dots> \<le> 2000 * 5001" using assms(2) by (intro mult_right_mono) simp_all
  finally show ?thesis using length_page_sum [OF assms(1)] by simp
qed

text \<open>The size limits for which the client's limit does not overflow.\<close>

definition sane_size :: "Flags \<Rightarrow> bool" where
  "sane_size f \<longleftrightarrow> 0 \<le> fl_max_file_size f \<and> fl_max_file_size f \<le> max_int64 - manifestOverhead"

lemma rn_maxBody:
  assumes "runServe env f = Inr a" and "sane_size f"
  shows "cl_maxBody (rn_client a) = fl_max_file_size f + 16777216"
proof -
  have "wrap64 (fl_max_file_size f + manifestOverhead) = fl_max_file_size f + manifestOverhead"
    using assms(2) by (intro wrap64_id) (simp add: sane_size_def int64_defs manifestOverhead_def)
  then show ?thesis using assms(1) by (elim runServe_Inr) (simp add: manifestOverhead_def)
qed

definition modest_tree :: "(string \<Rightarrow> Meta option) \<Rightarrow> bool" where
  "modest_tree t \<longleftrightarrow> (\<forall>p m. t p = Some m \<longrightarrow> modest m)"

lemma serve_channel:
  assumes "runServe env f = Inr a" and "runServe env' g = Inr b" and "fl_secret f = fl_secret g" and "CHR '':'' \<notin> set (fl_node f)"
    and "sane_size f" and "moment_ok mo"
    and "store_inv st" and "sendable (tree st)" and "modest_tree (tree st)"
    and "\<forall>bl \<in> set (blobs st). int (length (b_data bl)) \<le> fl_max_file_size f"
  shows "channel_ok (asks a b mo) st (fl_max_file_size f)"
proof -
  let ?x = "asks a b mo"
  note mx = rn_maxBody [OF assms(1,5)]
  have fits: "fits ?x body" if "int (length body) \<le> fl_max_file_size f + 16777188" for body
    using that by (simp add: fits_def asks_def mx)
  have pos: "0 \<le> fl_max_file_size f" using assms(5) by (simp add: sane_size_def)
  have "can_ask (x_client ?x) (x_server ?x) (x_client_now ?x) (x_server_now ?x) (x_nonce ?x)"
    using assms(1-4,6) by (elim runServe_Inr) (simp add: can_ask_def asks_def moment_ok_def)
  moreover have "newGCM (Blob_key (sv_keys (x_server ?x)))" using rn_keys_length [OF assms(2)] by (simp add: asks_def newGCM_def)
  moreover have "\<exists>n. sv_nonce (x_server ?x) = Some n \<and> length n = NonceSize"
    using assms(6) by (simp add: asks_def moment_ok_def NonceSize_def)
  moreover have "fits ?x (print_json (Digest_json (digest_response d)))" if "Digest (\<lambda>_. False) st = Inr d" for d
    using fits length_digest [OF assms(7) that] pos by simp
  moreover have "fits ?x (print_json (Manifest_json page))" if "is_int64 i" "manifest_page (\<lambda>_. False) st i = Inr page" for i page
  proof -
    have es: "mr_Entries page = take MaxManifestPage (feed st i)" using manifest_page_eq [of "\<lambda>_. False" st i] that(2) by auto
    have "modest m" if "m \<in> set (mr_Entries page)" for m
    proof -
      obtain r where r: "r \<in> set (entries st)" "m = meta r" using \<open>m \<in> set (mr_Entries page)\<close> es by (auto simp: feed_set dest!: in_set_takeD)
      then have "tree st (r_path r) = Some (replicated (meta r))" using row_at_iff [OF assms(7)] by (auto simp: tree_def)
      then have "modest (replicated (meta r))" using assms(9) by (auto simp: modest_tree_def)
      then show ?thesis using r by (simp add: modest_def)
    qed
    moreover have "page64 page" by (rule store64_page [OF sendable_rows(1) [OF assms(7,8)] that])
    moreover have "length (mr_Entries page) \<le> 2000" using es by (simp add: MaxManifestPage_def)
    ultimately have "length (print_json (Manifest_json page)) \<le> 10002100" using modest_page_length by blast
    then show ?thesis using pos by (intro fits) simp
  qed
  moreover have "fits ?x (b_data bl) \<and> int (length (b_data bl)) \<le> fl_max_file_size f" if "bl \<in> set (blobs st)" for bl
    using fits assms(10) that by force
  ultimately show ?thesis unfolding channel_ok_def by blast
qed


section \<open>Two concrete nodes\<close>

definition example_flags :: "string \<Rightarrow> Flags" where
  "example_flags node =
     (serveFlags (globalFlags (Some node) no_flags))\<lparr>fl_secret := ''0123456789abcdef'', fl_max_file_size := 100, fl_tombstone_ttl := 50\<rparr>"

definition example_db :: "Store \<Rightarrow> open_env" where
  "example_db st =
     \<lparr>oe_gorm_Open = (\<lambda>_. True), oe_DB = True, oe_Sub = True, oe_NewProvider = True, oe_Up = pending_up [1] (Some st)\<rparr>"

lemma example_db_opens: "Open_store (example_db st) path = Inr st"
  by (rule Open_store_new_and_old) (simp_all add: opens_def example_db_def)

definition example_start :: "Store \<Rightarrow> start_env" where
  "example_start st =
     \<lparr>se_mkdir_fails = False, se_db = example_db st, se_gossip_starts = True, se_mirror_fails = False, se_mkdir_mount_fails = False, se_mount_fails = True,
      se_clock = (\<lambda>k. 1000), se_started = 5, se_zone = (\<lambda>_. 0), se_errText = (\<lambda>_. ''sync failed'')\<rparr>"

definition example_moment :: moment where
  "example_moment = \<lparr>mo_client_now = 7000, mo_server_now = 8000, mo_request = ''abc'', mo_seal = ''abcdefghijkl''\<rparr>"

lemma example_runs:
  assumes "node \<noteq> ''''"
  obtains a where "runServe (example_start st) (example_flags node) = Inr a"
    "rn_service a = New \<lparr>Node = node, MaxFileSize = 100, TombstoneTTL = 50, HasPeers = True\<rparr> st (\<lambda>k. 1000)"
proof -
  obtain keys where "DeriveKeys ''0123456789abcdef'' = Inr keys"
    using DeriveKeys_total [of "''0123456789abcdef''"] by (cases "DeriveKeys ''0123456789abcdef''") auto
  then show ?thesis
    using that assms
    by (simp add: runServe_def Let_def Join_cluster_def example_start_def example_flags_def serveFlags_def globalFlags_def no_flags_def
        defaultNodeName_def example_db_opens NewClient_def mountTree_def)
qed

lemma example_modest: "modest_tree (tree example_store)" "modest_tree (tree example_store2)"
  by (auto simp: modest_tree_def modest_def json_escape_plain escape_char_def dest!: example_trees)

lemma example_blobs: "blobs example_store = []" "blobs example_store2 = []"
  by (simp_all add: example_store_def example_store2_def)


section \<open>Properties of starting up\<close>

text \<open>A node starts exactly when the secret has at least sixteen bytes, the node has a name, and the database, gossip and the projections that were asked
  for can be set up; a short secret is reported before anything is touched. Whatever happens afterwards, a node that stops has left the
  cluster, and stopping by a signal is no error.\<close>

theorem runServe_starts_exactly:
  "((\<exists>a. runServe env f = Inr a) \<longleftrightarrow>
      16 \<le> length (fl_secret f) \<and> fl_node f \<noteq> '''' \<and> \<not> se_mkdir_fails env \<and> (\<exists>st. Open_store (se_db env) (fl_db f) = Inr st) \<and> se_gossip_starts env
      \<and> \<not> (fl_mirror f \<noteq> '''' \<and> se_mirror_fails env) \<and> \<not> (fl_mount f \<noteq> '''' \<and> (se_mkdir_mount_fails env \<or> se_mount_fails env)))
   \<and> (length (fl_secret f) < 16 \<longleftrightarrow> runServe (env\<lparr>se_mkdir_fails := True\<rparr>) f = Inl ErrWeakSecret)
   \<and> c_closed (rn_cluster (snd (stopServe ended l s r))) \<and> fst (stopServe (Some (True, e)) l s r) = None \<and> fst (stopServe (Some (False, e)) l s r) = Some e"
proof -
  have k: "(\<exists>keys. DeriveKeys (fl_secret f) = Inr keys \<and> 16 \<le> length (fl_secret f))
      \<or> (DeriveKeys (fl_secret f) = Inl ErrWeakSecret \<and> length (fl_secret f) < 16)"
    using DeriveKeys_total [of "fl_secret f"] by (cases "DeriveKeys (fl_secret f)") auto
  have "c_closed (rn_cluster (snd (stopServe ended l s r)))" by (simp add: stopServe_def Leave_def)
  moreover have "length (fl_secret f) < 16 \<longleftrightarrow> runServe (env\<lparr>se_mkdir_fails := True\<rparr>) f = Inl ErrWeakSecret"
    using k by (auto simp: runServe_def)
  moreover have "(\<exists>a. runServe env f = Inr a) \<longleftrightarrow>
      16 \<le> length (fl_secret f) \<and> fl_node f \<noteq> '''' \<and> \<not> se_mkdir_fails env \<and> (\<exists>st. Open_store (se_db env) (fl_db f) = Inr st) \<and> se_gossip_starts env
      \<and> \<not> (fl_mirror f \<noteq> '''' \<and> se_mirror_fails env) \<and> \<not> (fl_mount f \<noteq> '''' \<and> (se_mkdir_mount_fails env \<or> se_mount_fails env))"
    using k by (auto simp: runServe_def Let_def Join_cluster_def mountTree_def split: sum.splits)
  ultimately show ?thesis by (simp add: stopServe_def)
qed

text \<open>C39. What an honest peer has to send fits the client's limit: for a node started with a size limit that does not overflow, every file within that limit and
  every full page of 2000 entries, 10002128 bytes sealed, is below the limit of the client, as long as the
  strings are not much longer as JSON than the limits on names allow.\<close>

theorem bodies_fit_the_limit:
  assumes "runServe env f = Inr a" and "sane_size f"
  shows "(int (length content) \<le> fl_max_file_size f \<longrightarrow> int (length content) + 28 \<le> cl_maxBody (rn_client a))
       \<and> (page64 page \<and> length (mr_Entries page) \<le> 2000 \<and> (\<forall>m \<in> set (mr_Entries page). modest m) \<longrightarrow>
            int (length (print_json (Manifest_json page))) + 28 \<le> cl_maxBody (rn_client a))"
proof -
  have pos: "0 \<le> fl_max_file_size f" using assms(2) by (simp add: sane_size_def)
  have "int (length (print_json (Manifest_json page))) \<le> 10002100"
    if "page64 page" "length (mr_Entries page) \<le> 2000" "\<forall>m \<in> set (mr_Entries page). modest m"
    using modest_page_length [OF that(1,2)] that(3) by simp
  then show ?thesis using pos unfolding rn_maxBody [OF assms] by force
qed

theorem bodies_fit_the_limit_witness:
  "\<exists>a. runServe (example_start example_store) (example_flags ''n1'') = Inr a \<and> int (length (replicate 100 CHR ''x'')) + 28 \<le> cl_maxBody (rn_client a)"
proof -
  obtain a where a: "runServe (example_start example_store) (example_flags ''n1'') = Inr a" by (rule example_runs [of "''n1''"]) simp_all
  have f: "fl_max_file_size (example_flags ''n1'') = 100" by (simp add: example_flags_def)
  then have "sane_size (example_flags ''n1'')" by (simp add: sane_size_def int64_defs manifestOverhead_def)
  from bodies_fit_the_limit [OF a this, of "replicate 100 CHR ''x''"] show ?thesis using a f by auto
qed

section \<open>A page that does not fit\<close>

text \<open>A tree of 2000 directories with long names of ampersands, which JSON writes with six bytes each.\<close>

definition amp_path :: "nat \<Rightarrow> string" where
  "amp_path i = join_on CHR ''/'' (dec_nat i # replicate 8 (replicate 250 CHR 0x26))"

definition amp_store :: Store where
  "amp_store =
     \<lparr>entries = map (\<lambda>i. (rowOf (zero_Meta\<lparr>Path := amp_path i, Kind := KindDir, Ver := Version (Timestamp 5 0) ''n1''\<rparr>))\<lparr>r_seq := int i + 1\<rparr>)
        [0..<2000],
      blobs = [], peers = [], local_seq = 2000\<rparr>"

lemma amp_elements: "split_on CHR ''/'' (amp_path i) = dec_nat i # replicate 8 (replicate 250 CHR 0x26)"
  unfolding amp_path_def by (rule split_join) (auto dest!: dec_nat_chars dest: digit_neq_NUL)

lemma amp_path_inj: "amp_path i = amp_path j \<Longrightarrow> i = j"
  using amp_elements [of i] amp_elements [of j] dec_nat_inj by (metis list.inject)

lemma set_join_on: "set (join_on c ws) \<subseteq> insert c (\<Union> (set ` set ws))"
  by (induction c ws rule: join_on.induct) auto

lemma amp_path_chars: "c \<in> set (amp_path i) \<Longrightarrow> is_digit c \<or> c = CHR 0x26 \<or> c = CHR ''/''"
  using set_join_on [of "CHR ''/''" "dec_nat i # replicate 8 (replicate 250 CHR 0x26)"]
  by (auto simp: amp_path_def dest!: dec_nat_digits split: if_splits)

lemma amp_path_good:
  assumes "i < 2000"
  shows "good_path (amp_path i)"
proof -
  have d: "length (dec_nat i) \<le> 4" using length_dec_nat [of 4 i] assms by simp
  have "length (amp_path i) \<le> 4096"
    using length_join_on [of "CHR ''/''" "dec_nat i # replicate 8 (replicate 250 CHR 0x26)"] d by (simp add: amp_path_def sum_list_replicate)
  moreover have "amp_path i \<noteq> ''''" using amp_elements [of i] by auto
  moreover have "CHR 0x00 \<notin> set (amp_path i)" using amp_path_chars [of "CHR 0x00" i] by (auto simp: is_digit_def)
  moreover have "good_element (dec_nat i)"
  proof -
    have "dec_nat i \<noteq> ''.''" "dec_nat i \<noteq> ''..''" using dec_nat_digits [of "CHR ''.''" i] by (auto simp: is_digit_def)
    moreover have "CHR ''/'' \<notin> set (dec_nat i)" using dec_nat_digits [of "CHR ''/''" i] by (auto simp: is_digit_def)
    ultimately show ?thesis using d by (simp add: good_element_def plain_element_def MaxNameLen_def)
  qed
  moreover have "good_element (replicate 250 CHR 0x26)"
  proof -
    have "replicate 250 CHR 0x26 \<noteq> w" if "length w < 250" for w using that by auto
    then show ?thesis by (auto simp: good_element_def plain_element_def MaxNameLen_def)
  qed
  ultimately show ?thesis by (auto simp: good_path_def amp_elements MaxPathLen_def)
qed

lemma json_escape_ascii: "list_all (\<lambda>c. ord8 c < 0x80) s \<Longrightarrow> json_escape s = concat (map escape_char s)"
  by (induction s) (simp_all add: json_escape.simps utf8_size_ascii)

lemma escaped_join: "sum_list (map (\<lambda>w. length (concat (map f w))) ws) \<le> length (concat (map f (join_on c ws)))"
  by (induction c ws rule: join_on.induct) simp_all

lemma amp_path_escaped: "12000 \<le> length (json_escape (amp_path i))"
proof -
  have "list_all (\<lambda>c. ord8 c < 0x80) (amp_path i)" using amp_path_chars by (fastforce simp: list_all_iff is_digit_def)
  then have "json_escape (amp_path i) = concat (map escape_char (amp_path i))" by (rule json_escape_ascii)
  moreover have "length (escape_char CHR 0x26) = 6" by code_simp
  ultimately show ?thesis
    using escaped_join [of escape_char "dec_nat i # replicate 8 (replicate 250 CHR 0x26)" "CHR ''/''"]
    by (simp add: amp_path_def length_concat sum_list_replicate)
qed

lemma join_on_length_ge: "sum_list (map length ws) \<le> length (join_on c ws)"
  by (induction c ws rule: join_on.induct) simp_all

lemma sum_list_ge_length: "(\<And>x. x \<in> set xs \<Longrightarrow> c \<le> f x) \<Longrightarrow> length xs * c \<le> sum_list (map f xs)" for f :: "'a \<Rightarrow> nat"
  by (induction xs) (simp_all add: add_mono)

lemma page_length_ge: "sum_list (map (\<lambda>m. length (json_escape (Path m))) (mr_Entries page)) \<le> length (print_json (Manifest_json page))"
proof -
  have one: "length (json_escape (Path m)) \<le> length (print_json (Meta_json m))" for m
    by (cases "[(''kind'', JWord (Kind m))] @ omitempty (Hash m = '''') ''hash'' (JStr (Hash m))") (simp_all add: Meta_json_def length_quote)
  have "sum_list (map (\<lambda>m. length (json_escape (Path m))) (mr_Entries page)) \<le> sum_list (map (\<lambda>m. length (print_json (Meta_json m))) (mr_Entries page))"
    by (rule sum_list_mono) (rule one)
  also have "\<dots> \<le> length (join_on CHR '','' (map print_json (map Meta_json (mr_Entries page))))"
    using join_on_length_ge [of "map print_json (map Meta_json (mr_Entries page))" "CHR '',''"] by (simp add: comp_def)
  also have "\<dots> \<le> length (print_json (Manifest_json page))" by (simp add: Manifest_json_def comp_def)
  finally show ?thesis .
qed

lemma amp_inv: "store_inv amp_store" "store64 amp_store"
  using amp_path_inj
  by (auto simp: amp_store_def store_inv_def rowOf_def max_int64_def store64_def numbers64_def int64_defs meta_def distinct_map inj_on_def)

lemma amp_rows: "m \<in> set (feed amp_store 0) \<Longrightarrow> \<exists>i < 2000. Path m = amp_path i \<and> Kind m = KindDir \<and> Hash m = '''' \<and> Size m = 0 \<and> Origin (Ver m) = ''n1''"
  by (auto simp: feed_set amp_store_def rowOf_def meta_def)

lemma amp_page: "\<exists>page. manifest_page (\<lambda>_. False) amp_store 0 = Inr page \<and> 24000000 \<le> length (print_json (Manifest_json page))"
proof -
  have len: "length (feed amp_store 0) = 2000" by (simp add: feed_def amp_store_def)
  let ?es = "take MaxManifestPage (feed amp_store 0)"
  have es: "?es = feed amp_store 0" using len by (simp add: MaxManifestPage_def)
  have "12000 \<le> length (json_escape (Path m))" if "m \<in> set ?es" for m
    using amp_rows [of m] that amp_path_escaped unfolding es by auto
  then have "length ?es * 12000 \<le> sum_list (map (\<lambda>m. length (json_escape (Path m))) ?es)" by (rule sum_list_ge_length)
  then have sum: "24000000 \<le> sum_list (map (\<lambda>m. length (json_escape (Path m))) ?es)" unfolding es len by simp
  obtain page where page: "manifest_page (\<lambda>_. False) amp_store 0 = Inr page" "mr_Entries page = ?es"
    using manifest_page_eq [of "\<lambda>_. False" amp_store 0] by simp
  have "24000000 \<le> length (print_json (Manifest_json page))"
    using sum page_length_ge [of page] unfolding page(2) by (rule order.trans)
  then show ?thesis using page(1) by blast
qed

text \<open>C40. The room the client allows for a page is not always enough. There is a tree of 2000 directories, all with names that every node
  accepts, such that no node started with the default size limit or a smaller one can pull it: the first page is refused by the client, whatever the
  moment and however often it is tried, and the pull ends with an error and nothing taken in.\<close>

theorem page_can_exceed_the_limit:
  assumes "runServe env f = Inr a" and "runServe env' g = Inr b" and "fl_secret f = fl_secret g" and "CHR '':'' \<notin> set (fl_node f)"
    and "sane_size f" and "fl_max_file_size f \<le> fl_max_file_size (serveFlags no_flags)" and "cfg s = cfg (rn_service a)" and "\<forall>k. moment_ok (xs k)"
  shows "(\<forall>m \<in> set (feed amp_store 0). validate s m = None)
       \<and> sync_pages (\<lambda>k. http_peer (asks a b (xs k)) amp_store) (\<lambda>_ _. False) nows node addr (Suc fuel) k 0 bookmark s = Some (Some ErrPeer, s)"
proof -
  obtain page where page: "manifest_page (\<lambda>_. False) amp_store 0 = Inr page" "24000000 \<le> length (print_json (Manifest_json page))"
    using amp_page by blast
  let ?x = "asks a b (xs k)"
  have lim: "cl_maxBody (x_client ?x) \<le> 17825792" using rn_maxBody [OF assms(1,5)] assms(6) by (simp add: asks_def serveFlags_def)
  have ask: "can_ask (x_client ?x) (x_server ?x) (x_client_now ?x) (x_server_now ?x) (Some (mo_request (xs k)))"
    using assms(1-4,8) by (elim runServe_Inr) (simp add: can_ask_def asks_def moment_ok_def)
  have seal: "sv_nonce (x_server ?x) = Some (mo_seal (xs k))" "length (mo_seal (xs k)) = NonceSize" "newGCM (Blob_key (sv_keys (x_server ?x)))"
    using assms(8) rn_keys_length [OF assms(2)] by (simp_all add: asks_def moment_ok_def NonceSize_def newGCM_def)
  have "page64 p" if "manifest_page (\<lambda>_. False) amp_store 0 = Inr p" for p
    by (rule store64_page [OF amp_inv(2) _ that]) (simp add: int64_defs)
  then have "Client_Manifest (x_client ?x) (x_net ?x amp_store) (x_client_now ?x) (Some (mo_request (xs k))) addr 0 = Inl ErrPeer"
    using Client_Manifest_served [OF ask refl seal, where since = 0 and flt = "\<lambda>_. False" and st = amp_store and status = "Inl ErrDB" and addr = addr]
      page lim by (simp add: int64_defs)
  then have "pc_Manifest (http_peer ?x amp_store) addr 0 = Inl ErrPeer" by (simp add: http_peer_def http_client_def asks_def)
  moreover have "validate s m = None" if "m \<in> set (feed amp_store 0)" for m
    using amp_rows [OF that] amp_path_good assms(5) rn_cfg [OF assms(1)] assms(7) by (auto simp: validate_def Valid_def sane_size_def)
  ultimately show ?thesis by simp
qed

theorem page_can_exceed_the_limit_witness:
  "\<exists>a b. runServe (example_start empty_store) (example_flags ''n1'') = Inr a \<and> runServe (example_start amp_store) (example_flags ''n2'') = Inr b
     \<and> sync_pages (\<lambda>k. http_peer (asks a b example_moment) amp_store) (\<lambda>_ _. False) (\<lambda>_. 7) ''n2'' ''x'' (Suc 4) 1 0 0 (rn_service a)
         = Some (Some ErrPeer, rn_service a)"
proof -
  let ?f = "example_flags ''n1''" and ?g = "example_flags ''n2''"
  obtain a where a: "runServe (example_start empty_store) ?f = Inr a" by (rule example_runs [of "''n1''"]) simp_all
  obtain b where b: "runServe (example_start amp_store) ?g = Inr b" by (rule example_runs [of "''n2''"]) simp_all
  have flags: "fl_secret ?f = fl_secret ?g" "CHR '':'' \<notin> set (fl_node ?f)" "sane_size ?f" "fl_max_file_size ?f \<le> fl_max_file_size (serveFlags no_flags)"
    by (simp_all add: example_flags_def serveFlags_def globalFlags_def defaultNodeName_def sane_size_def int64_defs manifestOverhead_def)
  have "\<forall>k. moment_ok example_moment" by (simp add: moment_ok_def example_moment_def int64_defs MaxSkew_def)
  from page_can_exceed_the_limit [OF a b flags refl this, where nows = "\<lambda>_. 7" and node = "''n2''" and addr = "''x''" and fuel = 4 and k = 1 and bookmark = 0]
  show ?thesis using a b by blast
qed

end
