(* ===== verification/Tabwriter.thy ===== *)
theory Tabwriter
  imports Json
begin

text \<open>
  \<^verbatim>\<open>text/tabwriter\<close> as the status commands set it up: no minimal width, two spaces between columns, no flags. Its input is UTF-8, so
  the byte \<^verbatim>\<open>0xFF\<close> that starts an escaped part does not occur.
\<close>

section \<open>Cells\<close>

text \<open>The width of a cell is its number of characters; a byte that belongs to none counts as one.\<close>

function rune_count :: "bytes \<Rightarrow> nat" where
  "rune_count s = (if s = [] then 0 else Suc (rune_count (drop (max 1 (utf8_size s)) s)))"
  by pat_completeness auto

termination rune_count
  by (relation "measure length") auto

declare rune_count.simps [simp del]

text \<open>Tabs and vertical tabs end a cell; what follows the last of them in a line is its last cell.\<close>

definition cells :: "bytes \<Rightarrow> bytes list" where
  "cells line = split_on CHR 0x09 (map (\<lambda>c. if c = CHR 0x0B then CHR 0x09 else c) line)"

section \<open>Formatting\<close>

definition column_width :: "nat \<Rightarrow> bytes list list \<Rightarrow> nat" where
  "column_width col block = fold (\<lambda>line w. max w (rune_count (line ! col) + 2)) block 0"

fun write_cells :: "nat list \<Rightarrow> bytes list \<Rightarrow> bytes" where
  "write_cells _ [] = []"
| "write_cells [] (c # cs) = c @ write_cells [] cs"
| "write_cells (w # ws) (c # cs) = c @ replicate (w - rune_count c) CHR '' '' @ write_cells ws cs"

text \<open>
  \<^verbatim>\<open>Writer.format\<close>: \<open>widths\<close> are the widths of the columns already fixed. Consecutive lines that have an ended cell in the next column are a block, which
  is formatted with the width of its widest cell.
\<close>

function tab_format :: "nat list \<Rightarrow> bytes list list \<Rightarrow> bytes list" where
  "tab_format widths [] = []"
| "tab_format widths (line # lines) =
     (let col = length widths; ended = (\<lambda>l :: bytes list. col + 1 < length l)
      in if ended line
         then let block = line # takeWhile ended lines
              in tab_format (widths @ [column_width col block]) block @ tab_format widths (dropWhile ended lines)
         else write_cells widths line # tab_format widths lines)"
  by pat_completeness auto

lemma sum_list_takeWhile_le: "sum_list (map f (takeWhile P xs)) \<le> sum_list (map f xs)" for f :: "'a \<Rightarrow> nat"
  by (induction xs) auto

lemma sum_list_dropWhile_le: "sum_list (map f (dropWhile P xs)) \<le> sum_list (map f xs)" for f :: "'a \<Rightarrow> nat"
  by (induction xs) auto

lemma sum_list_all_le: "list_all (\<lambda>x. f x \<le> g x) xs \<Longrightarrow> sum_list (map f xs) \<le> sum_list (map g xs)" for f g :: "'a \<Rightarrow> nat"
  by (induction xs) (auto simp: add_mono)

termination tab_format
proof (relation "measure (\<lambda>(ws, ls). sum_list (map (\<lambda>l. Suc (length l - length ws)) ls))")
  fix widths :: "nat list" and line lines col ended block
  assume "col = length widths" "ended = (\<lambda>l :: bytes list. col + 1 < length l)" and e: "ended line" "block = line # takeWhile ended lines"
  then have c: "\<And>l. ended l \<longleftrightarrow> length widths + 1 < length l" by simp
  have "sum_list (map (\<lambda>l. Suc (length l - Suc (length widths))) (takeWhile ended lines))
      \<le> sum_list (map (\<lambda>l. Suc (length l - length widths)) lines)"
    by (rule order_trans [OF sum_list_all_le sum_list_takeWhile_le]) (simp add: list_all_iff diff_le_mono2)
  moreover have "Suc (length line - Suc (length widths)) < Suc (length line - length widths)" using e(1) c by simp
  ultimately show "((widths @ [column_width col block], block), widths, line # lines)
      \<in> measure (\<lambda>(ws, ls). sum_list (map (\<lambda>l. Suc (length l - length ws)) ls))"
    by (simp add: e(2))
  show "((widths, dropWhile ended lines), widths, line # lines) \<in> measure (\<lambda>(ws, ls). sum_list (map (\<lambda>l. Suc (length l - length ws)) ls))"
    using sum_list_dropWhile_le [of "\<lambda>l. Suc (length l - length widths)" ended lines] by simp
qed auto

text \<open>A form feed ends a line and every column.\<close>

definition tabwrite :: "bytes \<Rightarrow> bytes" where
  "tabwrite input =
     join_on CHR 0x0A (concat (map (\<lambda>part. tab_format [] (map cells (split_on CHR 0x0A part))) (split_on CHR 0x0C input)))"

section \<open>Two columns\<close>

text \<open>Text that has none of the characters the writer looks for.\<close>

definition plain_cell :: "bytes \<Rightarrow> bool" where
  "plain_cell s \<longleftrightarrow> set s \<inter> {CHR 0x09, CHR 0x0A, CHR 0x0B, CHR 0x0C} = {}"

definition tab_row :: "bytes \<Rightarrow> bytes \<Rightarrow> bytes" where
  "tab_row k v = k @ CHR 0x09 # v @ [CHR 0x0A]"

definition left_aligned :: "nat \<Rightarrow> bytes \<Rightarrow> bytes" where
  "left_aligned w k = k @ replicate (w - rune_count k) CHR '' ''"

lemma cells_row: "plain_cell k \<Longrightarrow> plain_cell v \<Longrightarrow> cells (k @ CHR 0x09 # v) = [k, v]"
proof -
  have "map (\<lambda>c. if c = CHR 0x0B then CHR 0x09 else c) s = s" if "plain_cell s" for s
    using that by (auto simp: plain_cell_def intro!: map_idI)
  then show "plain_cell k \<Longrightarrow> plain_cell v \<Longrightarrow> cells (k @ CHR 0x09 # v) = [k, v]"
    by (auto simp: cells_def plain_cell_def split_on_append_sep split_on_plain)
qed

lemma column_width_fold: "column_width 0 (map (\<lambda>(k, v). [k, v]) rows) = fold (\<lambda>(k, v) w. max w (rune_count k + 2)) rows 0"
proof -
  have "fold (\<lambda>line w. max w (rune_count (line ! 0) + 2)) (map (\<lambda>(k, v). [k, v]) rows) a = fold (\<lambda>(k, v) w. max w (rune_count k + 2)) rows a" for a
    by (induction rows arbitrary: a) auto
  then show ?thesis by (simp add: column_width_def)
qed

lemma tab_format_inner:
  "tab_format [w] (map (\<lambda>(k, v). [k, v]) rows) = map (\<lambda>(k, v). left_aligned w k @ v) rows"
  by (induction rows) (auto simp: left_aligned_def)

lemma takeWhile_rows:
  "takeWhile (\<lambda>l. Suc 0 < length l) (map (\<lambda>(k, v). [k, v]) rows @ [[[]]]) = map (\<lambda>(k, v). [k, v]) rows"
  "dropWhile (\<lambda>l. Suc 0 < length l) (map (\<lambda>(k, v). [k, v]) rows @ [[[]]]) = [[[]]]"
  by (induction rows) auto

lemma tab_format_rows:
  "tab_format [] (map (\<lambda>(k, v). [k, v]) rows @ [[[]]]) =
     map (\<lambda>(k, v). left_aligned (fold (\<lambda>(k, v) w. max w (rune_count k + 2)) rows 0) k @ v) rows @ [[]]"
proof (cases rows)
  case (Cons r rs)
  obtain k v where r: "r = (k, v)" by (cases r)
  have "tab_format [] (map (\<lambda>(k, v). [k, v]) rows @ [[[]]]) =
      tab_format [column_width 0 (map (\<lambda>(k, v). [k, v]) rows)] (map (\<lambda>(k, v). [k, v]) rows) @ [[]]"
    by (simp add: Cons r takeWhile_rows Let_def)
  then show ?thesis by (simp only: tab_format_inner column_width_fold)
qed simp

lemma split_rows:
  "list_all (\<lambda>(k, v). plain_cell k \<and> plain_cell v) rows \<Longrightarrow>
     map cells (split_on CHR 0x0A (concat (map (\<lambda>(k, v). tab_row k v) rows))) = map (\<lambda>(k, v). [k, v]) rows @ [[[]]]"
proof (induction rows)
  case (Cons r rows)
  obtain k v where r: "r = (k, v)" by (cases r)
  have "CHR 0x0A \<notin> set (k @ CHR 0x09 # v)" using Cons.prems by (auto simp: r plain_cell_def)
  then have "split_on CHR 0x0A ((k @ CHR 0x09 # v) @ CHR 0x0A # s) = (k @ CHR 0x09 # v) # split_on CHR 0x0A s" for s
    by (rule split_on_append_sep)
  then show ?case using Cons by (simp add: r tab_row_def cells_row)
qed (simp add: cells_def)

text \<open>A table of two columns comes out with its second column in one place: every label is followed by spaces up to two more than the longest label.\<close>

theorem tabwrite_two_columns:
  assumes "list_all (\<lambda>(k, v). plain_cell k \<and> plain_cell v) rows"
  shows "tabwrite (concat (map (\<lambda>(k, v). tab_row k v) rows)) =
     concat (map (\<lambda>(k, v). left_aligned (fold (\<lambda>(k, v) w. max w (rune_count k + 2)) rows 0) k @ v @ [CHR 0x0A]) rows)"
proof -
  have "CHR 0x0C \<notin> set (concat (map (\<lambda>(k, v). tab_row k v) rows))"
    using assms by (auto simp: tab_row_def plain_cell_def list_all_iff)
  then have "tabwrite (concat (map (\<lambda>(k, v). tab_row k v) rows)) =
      join_on CHR 0x0A (map (\<lambda>(k, v). left_aligned (fold (\<lambda>(k, v) w. max w (rune_count k + 2)) rows 0) k @ v) rows @ [[]])"
    by (simp add: tabwrite_def split_on_plain split_rows [OF assms] tab_format_rows)
  moreover have "join_on CHR 0x0A (map f xs @ [[]]) = concat (map (\<lambda>x. f x @ [CHR 0x0A]) xs)" for f :: "bytes \<times> bytes \<Rightarrow> bytes" and xs
  proof (induction xs)
    case (Cons x xs)
    then show ?case by (cases "map f xs @ [[]]") auto
  qed simp
  ultimately show ?thesis by (auto simp: comp_def case_prod_unfold)
qed

end
