(* ===== verification/Status_Command.thy ===== *)
theory Status_Command
  imports Serve Tabwriter
begin

text \<open>
  The commands of \<^verbatim>\<open>cmd/dcfs/status.go\<close> that ask a running node: \<^verbatim>\<open>dcfs status\<close>, \<^verbatim>\<open>peers\<close> and \<^verbatim>\<open>conflicts\<close>, from the flags to the text on the
  terminal. A command returns what it prints and its error; None is a panic.
\<close>

section \<open>Figures\<close>

definition short :: "string \<Rightarrow> string" where
  "short digest = (if length digest \<le> 16 then digest else take 16 digest)"

text \<open>
  \<^verbatim>\<open>humanBytes\<close>: a count of bytes, or a count, the divisor and the letter of the unit; the quotient is printed
  with one digit after the point. An exponent outside the string of letters panics: None.
\<close>

datatype size_text = Bytes int | Scaled int int char

function human_loop :: "int \<Rightarrow> int \<Rightarrow> nat \<Rightarrow> int \<times> nat" where
  "human_loop v d k = (if v \<ge> 1024 then human_loop (v div 1024) (wrap64 (d * 1024)) (k + 1) else (d, k))"
  by pat_completeness auto

termination human_loop
  by (relation "measure (\<lambda>(v, d, k). nat v)") auto

declare human_loop.simps [simp del]

definition humanBytes :: "int \<Rightarrow> size_text option" where
  "humanBytes n =
     (if n < 1024 then Some (Bytes n)
      else let (d, k) = human_loop (n div 1024) 1024 0
           in if k < 6 then Some (Scaled n d (''KMGTPE'' ! k)) else None)"

text \<open>
  \<^verbatim>\<open>%.1f\<close> of the quotient. The conversion to \<^verbatim>\<open>float64\<close> keeps 53 bits, and the divisor is a power of two, so the quotient is exact; both roundings are to the nearest,
  and to an even digit between two.
\<close>

definition round_even :: "int \<Rightarrow> int \<Rightarrow> int" where
  "round_even a b = (let q = a div b; r = a mod b in if 2 * r > b \<or> (2 * r = b \<and> odd q) then q + 1 else q)"

definition float64 :: "int \<Rightarrow> int" where
  "float64 n = (let e = length (takeWhile (\<lambda>e. 2 ^ 53 \<le> n div 2 ^ e) [0..<11]) in round_even n (2 ^ e) * 2 ^ e)"

definition one_decimal :: "int \<Rightarrow> int \<Rightarrow> string" where
  "one_decimal a b = (let t = round_even (10 * a) b in dec_int (t div 10) @ ''.'' @ dec_int (t mod 10))"

fun size_string :: "size_text \<Rightarrow> string" where
  "size_string (Bytes n) = dec_int n @ '' B''"
| "size_string (Scaled n d c) = one_decimal (float64 n) d @ '' '' @ [c] @ ''iB''"

section \<open>Asking the node\<close>

text \<open>
  What a command meets: the network, the random bytes of its request, its readings of the clock in nanoseconds since 1970 (one for the request,
  one for the uptime, one for the last sync), and whether standard output refuses the table.
\<close>

record command_env =
  ce_net :: "string \<Rightarrow> Request \<Rightarrow> err + Response"
  ce_nonce :: "bytes option"
  ce_clock :: "nat \<Rightarrow> int"
  ce_flush_fails :: bool

definition fetchStatus :: "command_env \<Rightarrow> Flags \<Rightarrow> err + Status" where
  "fetchStatus env f =
     (case DeriveKeys (fl_secret f) of
        Inl e \<Rightarrow> Inl e
      | Inr keys \<Rightarrow>
          let addr = fl_api_addr f;
              client = NewClient (fl_node f) keys manifestOverhead
          in Client_Status client (ce_net env) (ce_clock env 0) (ce_nonce env) addr)"

section \<open>The commands\<close>

definition elapsed :: "int \<Rightarrow> Time \<Rightarrow> string" where
  "elapsed now t = Duration_text (Truncate_Second (time_Since (now + unix_epoch) (t_ns t)))"

text \<open>The lines of the table of \<^verbatim>\<open>dcfs status\<close>, label and value.\<close>

definition status_rows :: "(nat \<Rightarrow> int) \<Rightarrow> Status \<Rightarrow> (string \<times> string) list option" where
  "status_rows clk st =
     map_option (\<lambda>size.
       [(''node'', st_Node st),
        (''uptime'', elapsed (clk 1) (st_StartedAt st)),
        (''digest'', short (st_Digest st)),
        (''entries'', dec_int (st_Entries st) @ '' ('' @ dec_int (st_Tombstones st) @ '' tombstones)''),
        (''content'', dec_int (st_Blobs st) @ '' blobs, '' @ size_string size),
        (''feed head'', dec_int (st_Head st))]
       @ (if st_MirrorDir st \<noteq> '''' then [(''mirror'', st_MirrorDir st)] else [])
       @ (if st_MountPoint st \<noteq> '''' then [(''mount'', st_MountPoint st)] else [])
       @ [(''last sync'', if IsZero (st_LastSync st) then ''never'' else elapsed (clk 2) (st_LastSync st) @ '' ago'')]
       @ (if st_LastError st \<noteq> '''' then [(''last error'', st_LastError st)] else [])
       @ [(''members'', dec_nat (length (st_Members st))), (''conflicts'', dec_nat (length (st_Conflicts st)))])
     (humanBytes (st_BlobBytes st))"

definition println :: "string \<Rightarrow> string" where
  "println s = s @ [CHR 0x0A]"

definition runStatus :: "command_env \<Rightarrow> Flags \<Rightarrow> (string \<times> err option) option" where
  "runStatus env f =
     (case fetchStatus env f of
        Inl e \<Rightarrow> Some ('''', Some e)
      | Inr st \<Rightarrow>
          (case status_rows (ce_clock env) st of
             None \<Rightarrow> None
           | Some rows \<Rightarrow>
               if ce_flush_fails env then Some ('''', Some ErrInvalid)
               else Some (tabwrite (concat (map (\<lambda>(k, v). tab_row k v) rows))
                          @ (if st_Conflicts st \<noteq> []
                             then println '''' @ println ''conflict copies await a decision:''
                                  @ concat (map (\<lambda>p. println (''  '' @ p)) (st_Conflicts st))
                             else ''''), None)))"

definition peer_row :: "StatusMember \<Rightarrow> string list" where
  "peer_row m =
     [sm_Node m, if sm_Addr m = '''' then ''(not advertised)'' else sm_Addr m,
      if sm_Self m then ''self'' else ''peer'', if sm_Self m then ''-'' else dec_int (sm_LastSeq m)]"

definition runPeers :: "command_env \<Rightarrow> Flags \<Rightarrow> string \<times> err option" where
  "runPeers env f =
     (case fetchStatus env f of
        Inl e \<Rightarrow> ('''', Some e)
      | Inr st \<Rightarrow>
          if st_Members st = [] then (println ''no members; this node has not reached any peer'', None)
          else if ce_flush_fails env then ('''', Some ErrInvalid)
          else (tabwrite (concat (map (\<lambda>row. println (join_on CHR 0x09 row))
                            ([''NODE'', ''API ADDRESS'', ''ROLE'', ''READ TO''] # map peer_row (st_Members st)))), None))"

definition runConflicts :: "command_env \<Rightarrow> Flags \<Rightarrow> string \<times> err option" where
  "runConflicts env f =
     (case fetchStatus env f of
        Inl e \<Rightarrow> ('''', Some e)
      | Inr st \<Rightarrow>
          if st_Conflicts st = [] then (println ''no conflicts'', None)
          else (concat (map println (st_Conflicts st)), Some ErrInvalid))"

section \<open>Figures are right\<close>

lemma round_even_nearest: "0 < b \<Longrightarrow> 2 * \<bar>a - round_even a b * b\<bar> \<le> b"
proof -
  assume "0 < b"
  then have r: "0 \<le> a mod b" "a mod b < b" by simp_all
  show ?thesis
  proof (cases "2 * (a mod b) > b \<or> (2 * (a mod b) = b \<and> odd (a div b))")
    case True
    then have "a - round_even a b * b = a mod b - b" by (simp add: round_even_def Let_def distrib_right flip: minus_div_mult_eq_mod)
    then show ?thesis using True r by auto
  next
    case False
    then have "a - round_even a b * b = a mod b" by (auto simp: round_even_def Let_def minus_div_mult_eq_mod)
    then show ?thesis using False r by auto
  qed
qed

lemma float64_exact: "n < 2 ^ 53 \<Longrightarrow> float64 n = n"
  by (simp add: float64_def round_even_def upt_rec)


lemma quotient_range:
  fixes n d c :: int
  assumes "1 * d \<le> n" and "n < c * d" and "0 < d"
  shows "1 \<le> n div d" and "n div d < c"
proof -
  show "1 \<le> n div d" using zdiv_mono1 [OF assms(1), of d] assms(3) by simp
  have "n div d * d \<le> n" using assms(3) by (simp add: minus_mod_eq_div_mult [symmetric])
  then have "n div d * d < c * d" using assms(2) by simp
  then show "n div d < c" using assms(3) by simp
qed

lemma human_loop_scale:
  "1 \<le> v \<Longrightarrow> v < 1024 ^ (6 - k) \<Longrightarrow> k \<le> 5 \<Longrightarrow>
     \<exists>j. human_loop v (1024 ^ (k + 1)) k = (1024 ^ (j + 1), j) \<and> k \<le> j \<and> j \<le> 5 \<and> 1024 ^ (j - k) \<le> v \<and> v < 1024 ^ (j - k + 1)"
proof (induction "nat v" arbitrary: v k rule: less_induct)
  case less
  show ?case
  proof (cases "v < 1024")
    case True
    then show ?thesis using less.prems by (intro exI [of _ k]) (simp add: human_loop.simps)
  next
    case False
    have k: "k < 5"
    proof (rule ccontr)
      assume "\<not> k < 5"
      then have "k = 5" using less.prems(3) by simp
      then show False using less.prems(2) False by simp
    qed
    have w: "wrap64 (1024 ^ (k + 1) * 1024) = 1024 ^ (k + 2)"
    proof -
      have "(1024 :: int) ^ (k + 2) \<le> 1024 ^ 6" using k by (intro power_increasing) auto
      then have "wrap64 (1024 ^ (k + 2)) = 1024 ^ (k + 2)" 
        by (intro wrap64_id) (auto simp: is_int64_def max_int64_def min_int64_def intro: order_trans [of _ 0])
      moreover have "(1024 :: int) ^ (k + 1) * 1024 = 1024 ^ (k + 2)" by simp
      ultimately show ?thesis by (simp only:)
    qed
    have "v < 1024 ^ (6 - (k + 1)) * 1024"
    proof -
      have "6 - k = Suc (6 - (k + 1))" using k by simp
      then have "(1024 :: int) ^ (6 - k) = 1024 ^ (6 - (k + 1)) * 1024" by (simp only: power_Suc2)
      then show ?thesis using less.prems(2) by simp
    qed
    then have small: "v div 1024 < 1024 ^ (6 - (k + 1))" by (simp add: div_less_iff_less_mult)
    have "\<exists>j. human_loop (v div 1024) (1024 ^ (k + 1 + 1)) (k + 1) = (1024 ^ (j + 1), j) \<and> k + 1 \<le> j \<and> j \<le> 5
        \<and> 1024 ^ (j - (k + 1)) \<le> v div 1024 \<and> v div 1024 < 1024 ^ (j - (k + 1) + 1)"
      by (rule less.hyps) (use False small k in auto)
    then obtain j where j: "human_loop (v div 1024) (1024 ^ (k + 2)) (k + 1) = (1024 ^ (j + 1), j)" "k + 1 \<le> j" "j \<le> 5"
      "1024 ^ (j - (k + 1)) \<le> v div 1024" "v div 1024 < 1024 ^ (j - (k + 1) + 1)" by auto
    have "1024 ^ (j - (k + 1)) * 1024 \<le> v" "v < 1024 ^ (j - (k + 1) + 1) * 1024"
      using j(4,5) by (simp_all add: div_less_iff_less_mult less_eq_div_iff_mult_less_eq)
    moreover have "(1024 :: int) ^ (j - (k + 1)) * 1024 = 1024 ^ (j - k)" "j - (k + 1) + 1 = j - k"
      using j(2) by (simp_all add: power_Suc2 [symmetric] Suc_diff_Suc del: power_Suc)
    ultimately have "1024 ^ (j - k) \<le> v" "v < 1024 ^ (j - k + 1)" by (simp_all add: mult.commute)
    moreover have "human_loop v (1024 ^ (k + 1)) k = human_loop (v div 1024) (1024 ^ (k + 2)) (k + 1)"
      using False w by (subst human_loop.simps) simp
    ultimately show ?thesis using j by auto
  qed
qed

text \<open>\<^verbatim>\<open>humanBytes\<close> always returns and never indexes past its units: for every 64 bit count the loop ends, the
  exponent stays below six, the divisor does not overflow, and the number printed before the unit is at least
  one and below 1024.\<close>

theorem humanBytes_scale:
  assumes "0 \<le> n" and "n \<le> max_int64"
  shows "humanBytes n =
           (if n < 1024 then Some (Bytes n)
            else Some (Scaled n (1024 ^ Suc (snd (human_loop (n div 1024) 1024 0)))
                         (''KMGTPE'' ! snd (human_loop (n div 1024) 1024 0))))
       \<and> (1024 \<le> n \<longrightarrow> snd (human_loop (n div 1024) 1024 0) < 6
            \<and> 1 \<le> n div 1024 ^ Suc (snd (human_loop (n div 1024) 1024 0))
            \<and> n div 1024 ^ Suc (snd (human_loop (n div 1024) 1024 0)) < 1024)"
proof (cases "n < 1024")
  case False
  have "1 \<le> n div 1024" using False by simp
  moreover have "n div 1024 < 1024 ^ 6" using assms(2) by (simp add: max_int64_def div_less_iff_less_mult)
  ultimately obtain j where j: "human_loop (n div 1024) 1024 0 = (1024 ^ (j + 1), j)" "j \<le> 5"
    "1024 ^ j \<le> n div 1024" "n div 1024 < 1024 ^ (j + 1)"
    using human_loop_scale [of "n div 1024" 0] by auto
  have "1024 ^ j * 1024 \<le> n" "n < 1024 ^ (j + 1) * 1024"
    using j(3,4) by (simp_all add: div_less_iff_less_mult less_eq_div_iff_mult_less_eq)
  then have "1 * 1024 ^ Suc j \<le> n" "n < 1024 * 1024 ^ Suc j" by (simp_all add: mult.commute)
  note range = quotient_range [OF this]
  have "1 \<le> n div 1024 ^ Suc j" "n div 1024 ^ Suc j < 1024"
    by (rule range, simp)+
  then show ?thesis using False j by (simp add: humanBytes_def)
qed (simp add: humanBytes_def)

theorem humanBytes_scale_witness:
  "humanBytes 1536 = Some (Scaled 1536 1024 CHR ''K'') \<and> humanBytes max_int64 = Some (Scaled max_int64 (1024 ^ 6) CHR ''E'')"
proof -
  have "human_loop 1 1024 0 = (1024, 0)" by (simp add: human_loop.simps)
  moreover have "human_loop 9007199254740991 1024 0 = (1024 ^ 6, 5)" by (simp add: human_loop.simps int64_defs)
  ultimately show ?thesis
    using humanBytes_scale [of 1536] humanBytes_scale [of max_int64] by (simp add: max_int64_def)
qed


lemma humanBytes_returns: "n \<le> max_int64 \<Longrightarrow> \<exists>size. humanBytes n = Some size"
  using humanBytes_scale [of n] by (cases "0 \<le> n") (auto simp: humanBytes_def)

end
