(* ===== verification/Status_Props.thy ===== *)
theory Status_Props
  imports Serve_Props Status_Command
begin

text \<open>
  The status commands against a node that \<^verbatim>\<open>runServe\<close> has started: what the operator sees is what the node knows.
\<close>

section \<open>The document reaches the client\<close>

definition written_and_read :: "Time \<Rightarrow> bool" where
  "written_and_read t \<longleftrightarrow> (\<exists>s. Time_text t = Some s \<and> Time_of s = Some t)"

text \<open>Zones as they are today: a whole number of minutes, less than a day.\<close>

definition whole_zone :: "(int \<Rightarrow> int) \<Rightarrow> bool" where
  "whole_zone zone \<longleftrightarrow> (\<forall>t. 60 dvd zone t \<and> \<bar>zone t\<bar> < 86400)"

lemma year_range:
  assumes "0 \<le> n" and "n < 3652059"
  shows "0 \<le> year_of n" and "year_of n \<le> 9999"
proof -
  have "400 * days_before_year (year_of n + 1) \<le> 146097 * year_of n + 396" using days_before_year_bounds(2) [of "year_of n + 1"] by simp
  then show "0 \<le> year_of n" using year_of_bounds(2) [of n] assms(1) by linarith
  have "146097 * year_of n - 146796 \<le> 400 * days_before_year (year_of n)" using days_before_year_bounds(1) [of "year_of n"] by simp
  then show "year_of n \<le> 9999" using year_of_bounds(1) [of n] assms(2) by linarith
qed

lemma local_Time_text:
  assumes "is_int64 now" and "whole_zone zone"
  shows "written_and_read (local_Time zone now)"
proof -
  let ?t = "local_Time zone now"
  have z: "60 dvd t_offset ?t" "\<bar>t_offset ?t\<bar> < 86400" using assms(2) by (simp_all add: local_Time_def whole_zone_def)
  have "52000000000000000000 \<le> t_ns ?t" "t_ns ?t \<le> 72000000000000000000"
    using assms(1) by (simp_all add: local_Time_def unix_epoch_def int64_defs)
  then have "52000000000 \<le> t_ns ?t div 1000000000" "t_ns ?t div 1000000000 \<le> 72000000000"
    using div_bounds [of 1000000000 "t_ns ?t"] by linarith+
  then have w: "51000000000 \<le> wall_seconds ?t" "wall_seconds ?t \<le> 73000000000" using z(2) by linarith+
  then have "0 \<le> wall_seconds ?t div 86400" "wall_seconds ?t div 86400 < 3652059"
    using div_bounds [of 86400 "wall_seconds ?t"] by linarith+
  note year_range [OF this]
  from Time_round_trip [OF this z] show ?thesis by (auto simp: written_and_read_def)
qed

lemma zero_Time_text: "written_and_read zero_Time"
proof -
  have "0 \<le> wall_seconds zero_Time div 86400" "wall_seconds zero_Time div 86400 < 3652059" by (simp_all add: zero_Time_def)
  note year_range [OF this]
  from Time_round_trip [OF this] show ?thesis by (auto simp: written_and_read_def zero_Time_def)
qed

text \<open>The length of the document as it is sent, before sealing; a document whose dates cannot be written has none.\<close>

definition status_length :: "Status \<Rightarrow> int" where
  "status_length st = (case Status_json st of None \<Rightarrow> 0 | Some j \<Rightarrow> int (length (print_json j)))"

lemma Client_Status_served:
  assumes "can_ask c sv nowc nows nb" and "net = (\<lambda>a r. Inr (Handler sv nows flt db status r))"
    and "sv_nonce sv = Some n" and "length n = NonceSize" and "newGCM (Blob_key (sv_keys sv))"
    and "status = Inr st" and "status64 st" and "written_and_read (st_StartedAt st)" and "written_and_read (st_LastSync st)"
  shows "Client_Status c net nowc nb addr = (if status_length st + 28 > cl_maxBody c then Inl ErrPeer else Inr (valid_Status st))"
proof -
  obtain started synced where t: "Time_text (st_StartedAt st) = Some started" "Time_of started = Some (st_StartedAt st)"
    "Time_text (st_LastSync st) = Some synced" "Time_of synced = Some (st_LastSync st)"
    using assms(8,9) by (auto simp: written_and_read_def)
  let ?body = "print_json (JObj (Status_fields st started synced))"
  have j: "Status_json st = Some (JObj (Status_fields st started synced))" using t by (simp add: Status_json_def)
  have rt: "route_of ''/v1/status'' = Some RStatus" by (simp add: route_of_def)
  have k: "cl_keys c = sv_keys sv" using assms(1) by (simp add: can_ask_def)
  have "get c net nowc nb addr ''/v1/status'' None = (let resp = sealedBytes sv ?body in
      if rs_Status resp = 404 then Inl ErrPeerNotFound
      else if rs_Status resp \<noteq> 200 then Inl ErrPeer
      else if int (length (rs_Body resp)) > cl_maxBody c then Inl ErrPeer
      else open_sealed (Blob_key (cl_keys c)) (rs_Body resp))"
    using get_authenticated [OF assms(1,2) rt, of addr None] by (simp add: getStatus_def assms(6) sealed_def j del: print_json.simps)
  note s = get_sealed [OF this k assms(3-5)]
  obtain v where "Unmarshal dec_Status ?body zero_status = Some v" "status_of v = valid_Status st"
    using Status_round_trip [OF assms(7) t] by (auto simp del: print_json.simps)
  then show ?thesis by (simp add: Client_Status_def getJSON_def s status_length_def j del: print_json.simps)
qed

section \<open>How long the document is\<close>

lemma length_escape_char: "length (escape_char c) \<le> 6"
  by (simp add: escape_char_def hex4_def)

lemma length_escape_rune: "n \<le> 4 \<Longrightarrow> length (escape_rune (take n s)) \<le> 6"
  by (auto simp: escape_rune_def hex4_def min_def)

lemma length_json_escape: "length (json_escape s) \<le> 6 * length s"
proof (induction s rule: json_escape.induct)
  case (2 c s)
  define n where "n = utf8_size (c # s)"
  have n: "n \<le> 4" "n \<le> Suc (length s)" using utf8_size_le4 [of "c # s"] utf8_size_le [of "c # s"] by (simp_all add: n_def)
  consider "n = 0" | "n = 1" | "1 < n" by linarith
  then show ?case
  proof cases
    case 1
    then show ?thesis using "2.IH"(1) [OF n_def] by (simp add: json_escape.simps Let_def n_def [symmetric] hex4_def)
  next
    case 2
    then show ?thesis using "2.IH"(2) [OF n_def] length_escape_char [of c] by (simp add: json_escape.simps Let_def n_def [symmetric])
  next
    case 3
    then show ?thesis using "2.IH"(3) [OF n_def] length_escape_rune [OF n(1), of "c # s"] n by (simp add: json_escape.simps Let_def n_def [symmetric])
  qed
qed (simp add: json_escape.simps)

lemma length_padded2: "n < 100 \<Longrightarrow> length (padded 2 n) = 2"
  by (simp add: padded2)

lemma length_Time_text: "Time_text t = Some s \<Longrightarrow> length s \<le> 35"
proof -
  assume t: "Time_text t = Some s"
  obtain y m d where date: "civil_date (wall_seconds t div 86400) = (y, m, d)" by (cases "civil_date (wall_seconds t div 86400)")
  note c = civil_date_day_number [OF date]
  have d: "m < 100" "d < 100" using c(4,6) by (auto simp: daysIn_def split: if_splits)
  define k where "k = nat (wall_seconds t mod 86400)"
  have k: "k < 86400" by (simp add: k_def nat_less_iff)
  define ns where "ns = nat (t_ns t mod 1000000000)"
  have "length (padded 9 ns) = 9" using padded_length [of ns 9] by (simp add: ns_def nat_less_iff)
  then have frac: "length (frac_text ns) \<le> 10"
    using length_dropWhile_le [of "\<lambda>c. c = CHR ''0''" "rev (padded 9 ns)"] by (simp add: frac_text_def)
  have e: "\<not> (y < 0 \<or> 9999 < y \<or> 86400 \<le> \<bar>t_offset t\<bar>)" and
    s: "s = padded 4 (nat y) @ CHR ''-'' # padded 2 m @ CHR ''-'' # padded 2 d
      @ CHR ''T'' # padded 2 (k div 3600) @ CHR '':'' # padded 2 (k div 60 mod 60) @ CHR '':'' # padded 2 (k mod 60)
      @ frac_text ns @ zone_text (t_offset t)"
    using t unfolding Time_text_def Let_def date prod.case k_def [symmetric] ns_def [symmetric] by (auto split: if_splits)
  have "nat (\<bar>t_offset t\<bar> div 60) div 60 < 100"
  proof -
    have "\<bar>t_offset t\<bar> div 60 < 1440" using e div_bounds [of 60 "\<bar>t_offset t\<bar>"] by linarith
    then show ?thesis by (simp add: nat_less_iff less_mult_imp_div_less)
  qed
  then have "length (zone_text (t_offset t)) \<le> 6" by (simp add: zone_text_def Let_def length_padded2)
  moreover have "length (padded 4 (nat y)) = 4" using e by (intro padded_length) auto
  moreover have "k div 3600 < 100" "k div 60 mod 60 < 100" "k mod 60 < 100" using k by (simp_all add: less_mult_imp_div_less)
  ultimately show ?thesis using frac d by (simp add: s length_padded2)
qed

lemma length_slice_json: "length (print_json (slice_json f xs)) \<le> 4 + sum_list (map (\<lambda>x. length (print_json (f x)) + 1) xs)"
  using length_join_on [of "CHR '',''" "map (\<lambda>x. print_json (f x)) xs"] by (simp add: slice_json_def comp_def)

text \<open>A bound on the length of the document from the lengths of its strings; a byte takes at most six as JSON.\<close>

definition status_bound :: "Status \<Rightarrow> nat" where
  "status_bound st =
     1000 + 6 * (length (st_Node st) + length (st_Addr st) + length (st_Digest st) + length (st_MirrorDir st) + length (st_MountPoint st)
                 + length (st_LastError st))
     + sum_list (map (\<lambda>p. 6 * length p + 3) (st_Conflicts st))
     + sum_list (map (\<lambda>m. 6 * (length (sm_Node m) + length (sm_Addr m)) + 100) (st_Members st))"

lemma length_Member_json: "is_int64 (sm_LastSeq m) \<Longrightarrow> length (print_json (Member_json m)) + 1 \<le> 6 * (length (sm_Node m) + length (sm_Addr m)) + 100"
  using length_json_escape [of "sm_Node m"] length_json_escape [of "sm_Addr m"] length_JInt [of "sm_LastSeq m"]
  by (simp add: Member_json_def length_quote json_escape_plain escape_char_def)

lemma status_length_bound:
  assumes "status64 st"
  shows "status_length st \<le> int (status_bound st)"
proof (cases "Status_json st")
  case (Some j)
  then obtain started synced where t: "Time_text (st_StartedAt st) = Some started" "Time_text (st_LastSync st) = Some synced"
    and j: "j = JObj (Status_fields st started synced)" by (auto simp: Status_json_def split: option.splits)
  have c: "length (print_json (slice_json JStr (st_Conflicts st))) \<le> 4 + sum_list (map (\<lambda>p. 6 * length p + 3) (st_Conflicts st))"
    by (rule order_trans [OF length_slice_json]) (auto simp: length_quote length_json_escape intro!: sum_list_mono)
  have m: "length (print_json (slice_json Member_json (st_Members st)))
      \<le> 4 + sum_list (map (\<lambda>m. 6 * (length (sm_Node m) + length (sm_Addr m)) + 100) (st_Members st))"
    by (rule order_trans [OF length_slice_json], rule add_left_mono, rule sum_list_mono)
      (use assms length_Member_json in \<open>auto simp: status64_def list_all_iff\<close>)
  have "length (json_escape started) \<le> 210" "length (json_escape synced) \<le> 210"
    using length_json_escape [of started] length_json_escape [of synced] length_Time_text [OF t(1)] length_Time_text [OF t(2)] by linarith+
  moreover have "length (print_json (JInt (st_Entries st))) \<le> 20" "length (print_json (JInt (st_Tombstones st))) \<le> 20"
    "length (print_json (JInt (st_Blobs st))) \<le> 20" "length (print_json (JInt (st_BlobBytes st))) \<le> 20" "length (print_json (JInt (st_Head st))) \<le> 20"
    using assms length_JInt by (simp_all add: status64_def)
  ultimately have "length (print_json j) \<le> status_bound st"
    using c m length_json_escape [of "st_Node st"] length_json_escape [of "st_Addr st"] length_json_escape [of "st_Digest st"]
      length_json_escape [of "st_MirrorDir st"] length_json_escape [of "st_MountPoint st"] length_json_escape [of "st_LastError st"]
    by (simp add: j Status_fields_def omitempty_def status_bound_def length_quote json_escape_plain escape_char_def)
  then show ?thesis using Some by (simp add: status_length_def)
qed (simp add: status_length_def)

section \<open>An operator and a started node\<close>

text \<open>
  The network of an operator who reaches the node \<open>a\<close>: the service is in the state \<open>svc\<close>, gossip knows the nodes \<open>nodes\<close>, and database calls
  fail as \<open>flt\<close> says.
\<close>

definition reaches :: "Running \<Rightarrow> Service \<Rightarrow> dbfault \<Rightarrow> ml_Node list \<Rightarrow> moment \<Rightarrow> (nat \<Rightarrow> int) \<Rightarrow> command_env" where
  "reaches a svc flt nodes mo clk =
     \<lparr>ce_net = (\<lambda>addr r. Inr (Handler \<lparr>sv_keys = rn_keys a, sv_nonce = Some (mo_seal mo)\<rparr> (mo_server_now mo) flt (store svc)
                                 (buildStatus flt svc (rn_status a nodes)) r)),
      ce_nonce = Some (mo_request mo), ce_clock = clk(0 := mo_client_now mo), ce_flush_fails = False\<rparr>"

text \<open>The operator has the secret and a name that can be sent, the clocks agree, and the clock of the node is one of this age and its zone one of today's.\<close>

definition operator_ok :: "start_env \<Rightarrow> Flags \<Rightarrow> Flags \<Rightarrow> moment \<Rightarrow> Service \<Rightarrow> bool" where
  "operator_ok env f g mo svc \<longleftrightarrow>
     fl_secret g = fl_secret f \<and> fl_node g \<noteq> '''' \<and> CHR '':'' \<notin> set (fl_node g) \<and> moment_ok mo
     \<and> whole_zone (se_zone env) \<and> is_int64 (se_started env) \<and> (case lastSync svc of None \<Rightarrow> True | Some t \<Rightarrow> is_int64 t)"

lemma rn_status_fields:
  assumes "runServe env f = Inr a"
  shows "in_zone (rn_status a nodes) = se_zone env" "in_started (rn_status a nodes) = se_started env"
  using assms by (auto simp: runServe_def Let_def split: sum.splits if_splits)

lemma buildStatus_Inr:
  assumes "buildStatus flt s inp = Inr st"
  shows "st_StartedAt st = local_Time (in_zone inp) (in_started inp)"
    "st_LastSync st = (case lastSync s of None \<Rightarrow> zero_Time | Some t \<Rightarrow> local_Time (in_zone inp) t)"
    "Conflicts flt s = Inr (st_Conflicts st)" "\<exists>ms. All_entries flt (store s) = Inr ms \<and> st_Digest st = hex_encode (sha256 (digest_text ms))"
  using assms by (auto simp: buildStatus_def Digest_def Let_def SyncState_def split: sum.splits if_splits)

lemma fetchStatus_served:
  assumes "runServe env f = Inr a" and "operator_ok env f g mo svc"
    and "buildStatus flt svc (rn_status a nodes) = Inr st" and "status64 st" and "status_bound st \<le> 16777188"
  shows "fetchStatus (reaches a svc flt nodes mo clk) g = Inr (valid_Status st)"
proof -
  let ?sv = "\<lparr>sv_keys = rn_keys a, sv_nonce = Some (mo_seal mo)\<rparr>"
  let ?c = "\<lparr>cl_keys = rn_keys a, cl_node = fl_node g, cl_maxBody = manifestOverhead\<rparr>"
  have keys: "DeriveKeys (fl_secret g) = Inr (rn_keys a)"
    using assms(1,2) by (elim runServe_Inr) (simp add: operator_ok_def)
  have ask: "can_ask ?c ?sv (mo_client_now mo) (mo_server_now mo) (Some (mo_request mo))"
    using assms(2) by (simp add: can_ask_def operator_ok_def moment_ok_def)
  have n: "length (mo_seal mo) = NonceSize" using assms(2) by (simp add: operator_ok_def moment_ok_def NonceSize_def)
  have gcm: "newGCM (Blob_key (sv_keys ?sv))" using rn_keys_length [OF assms(1)] by (simp add: newGCM_def)
  have t: "written_and_read (st_StartedAt st)" "written_and_read (st_LastSync st)"
    using assms(2) buildStatus_Inr(1,2) [OF assms(3)] local_Time_text zero_Time_text
    by (auto simp: operator_ok_def rn_status_fields [OF assms(1)] split: option.splits)
  show ?thesis
    using status_length_bound [OF assms(4)] Client_Status_served [where flt = flt and db = "store svc" and addr = "fl_api_addr g", OF ask refl _ n gcm assms(3,4) t] assms(5)
    by (simp add: fetchStatus_def NewClient_def keys reaches_def manifestOverhead_def)
qed

text \<open>C35. \<^verbatim>\<open>dcfs status\<close> shows what the node knows: against a started node, with its secret and clocks that agree, and unless the document is longer than 16 MiB, the
  command does not fail and does not panic, and it prints the table of the document that \<^verbatim>\<open>buildStatus\<close> assembled, both dates to the nanosecond and every string
  made UTF-8, with the node's conflict copies below it.\<close>

theorem status_shows_the_node:
  assumes "runServe env f = Inr a" and "operator_ok env f g mo svc"
    and "buildStatus flt svc (rn_status a nodes) = Inr st" and "status64 st" and "status_bound st \<le> 16777188"
  shows "\<exists>rows. status_rows (clk(0 := mo_client_now mo)) (valid_Status st) = Some rows
       \<and> (''digest'', take 16 (st_Digest st)) \<in> set rows
       \<and> runStatus (reaches a svc flt nodes mo clk) g =
           Some (tabwrite (concat (map (\<lambda>(k, v). tab_row k v) rows))
                 @ (if st_Conflicts st \<noteq> []
                    then println '''' @ println ''conflict copies await a decision:''
                         @ concat (map (\<lambda>p. println (''  '' @ to_valid p)) (st_Conflicts st))
                    else ''''), None)"
proof -
  note fetched = fetchStatus_served [OF assms, of clk]
  obtain size where "humanBytes (st_BlobBytes st) = Some size"
    using humanBytes_returns [of "st_BlobBytes st"] assms(4) by (auto simp: status64_def int64_defs)
  then obtain rows where rows: "status_rows (clk(0 := mo_client_now mo)) (valid_Status st) = Some rows"
    by (simp add: status_rows_def valid_Status_def)
  have "to_valid (st_Digest st) = st_Digest st" using buildStatus_Inr(4) [OF assms(3)] by (auto simp: to_valid_hex)
  then have "(''digest'', take 16 (st_Digest st)) \<in> set rows"
    using rows by (auto simp: status_rows_def valid_Status_def short_def)
  moreover have "st_Conflicts (valid_Status st) = map to_valid (st_Conflicts st)" by (simp add: valid_Status_def)
  moreover have "ce_clock (reaches a svc flt nodes mo clk) = clk(0 := mo_client_now mo)" "\<not> ce_flush_fails (reaches a svc flt nodes mo clk)"
    by (simp_all add: reaches_def)
  ultimately show ?thesis using rows fetched by (simp add: runStatus_def comp_def)
qed

section \<open>Conflicts and digests\<close>

lemma Conflicts_listed:
  assumes "store_inv (store s)" and "Conflicts flt s = Inr ps"
  shows "sorted ps" and "set ps = {p. IsConflictName p \<and> (\<exists>m. tree (store s) p = Some m \<and> \<not> Deleted m)}"
proof -
  let ?live = "sort_key r_path (filter (\<lambda>r. \<not> r_deleted r) (entries (store s)))"
  have ps: "ps = filter IsConflictName (map r_path ?live)"
    using assms(2) by (auto simp: Conflicts_def Live_def filter_map comp_def meta_def split: if_splits)
  show "sorted ps" unfolding ps by (intro sorted_wrt_filter) simp
  show "set ps = {p. IsConflictName p \<and> (\<exists>m. tree (store s) p = Some m \<and> \<not> Deleted m)}"
    unfolding ps using row_at_iff [OF assms(1)] by (auto simp: tree_def replicated_def meta_def)
qed

lemma Conflicts_empty_iff:
  assumes "store_inv (store s)" and "Conflicts flt s = Inr ps"
  shows "ps = [] \<longleftrightarrow> (\<forall>p m. tree (store s) p = Some m \<and> \<not> Deleted m \<longrightarrow> \<not> IsConflictName p)"
  using Conflicts_listed(2) [OF assms] by (auto simp flip: set_empty)

text \<open>The digest lines of two nodes compare their trees: the sixteen characters \<^verbatim>\<open>dcfs status\<close> prints are the same exactly when both nodes hold the same at every path, as long as no string has a NUL
  byte and these characters do not collide on the two texts.\<close>

theorem digest_lines_compare_trees:
  assumes "buildStatus flt svc inp = Inr st" and "buildStatus flt' svc' inp' = Inr st'"
    and "store_inv (store svc)" and "store_inv (store svc')"
    and "list_all no_NUL (map meta (entries (store svc)))" and "list_all no_NUL (map meta (entries (store svc')))"
    and "All_entries flt (store svc) = Inr ms" and "All_entries flt' (store svc') = Inr ns"
    and "inj_on (\<lambda>t. take 16 (hex_encode (sha256 t))) {digest_text ms, digest_text ns}"
  shows "short (st_Digest st) = short (st_Digest st')
     \<longleftrightarrow> (\<forall>p. map_option digest_fields (tree (store svc) p) = map_option digest_fields (tree (store svc') p))"
proof -
  have "short (st_Digest st) = take 16 (hex_encode (sha256 (digest_text ms)))" "short (st_Digest st') = take 16 (hex_encode (sha256 (digest_text ns)))"
    using buildStatus_Inr(4) [OF assms(1)] buildStatus_Inr(4) [OF assms(2)] assms(7,8) by (auto simp: short_def)
  then have "short (st_Digest st) = short (st_Digest st') \<longleftrightarrow> digest_text ms = digest_text ns"
    using inj_on_eq_iff [OF assms(9), of "digest_text ms" "digest_text ns"] by simp
  then show ?thesis using digest_text_tree [OF assms(3-8)] by simp
qed

section \<open>Concrete nodes\<close>

definition conflict_store :: Store where
  "conflict_store =
     \<lparr>entries = [(rowOf (zero_Meta\<lparr>Path := ''a.conflict.n2'', Kind := KindDir, Ver := Version (Timestamp 5 0) ''n1''\<rparr>))\<lparr>r_seq := 1\<rparr>],
      blobs = [], peers = [], local_seq = 1\<rparr>"

lemma conflict_store_inv: "store_inv conflict_store"
  by (simp add: conflict_store_def store_inv_def rowOf_def max_int64_def)

lemma conflict_name: "IsConflictName ''a.conflict.n2''"
  by code_simp

lemma example_status:
  assumes "runServe (example_start conflict_store) (example_flags ''n1'') = Inr a"
  obtains st where "buildStatus (\<lambda>_. False) (rn_service a) (rn_status a []) = Inr st" "status64 st" "status_bound st \<le> 16777188"
    "st_Conflicts st = [''a.conflict.n2'']" "store (rn_service a) = conflict_store" "lastSync (rn_service a) = None"
proof -
  have s: "store (rn_service a) = conflict_store" "lastSync (rn_service a) = None" "lastErr (rn_service a) = None"
    by (rule runServe_Inr [OF assms]; simp add: New_def example_start_def example_db_opens)+
  have i: "rn_status a [] = \<lparr>in_node = ''n1'', in_addr = ''127.0.0.1:7947'', in_started = 5, in_members = [], in_mirrorDir = ''/etc/cluster'',
      in_mountPoint = '''', in_zone = (\<lambda>_. 0), in_errText = (\<lambda>_. ''sync failed'')\<rparr>"
    using assms by (auto simp: runServe_def Let_def example_start_def example_flags_def serveFlags_def globalFlags_def no_flags_def
        defaultNodeName_def Members_def example_db_opens mountTree_def split: sum.splits if_splits)
  obtain st where st: "buildStatus (\<lambda>_. False) (rn_service a) (rn_status a []) = Inr st"
    by (simp add: buildStatus_def s Store_Stats_def Head_def Digest_def All_entries_def Conflicts_def Live_def Peers_def SyncState_def)
  moreover have "status64 st" "st_Conflicts st = [''a.conflict.n2'']" "status_bound st \<le> 16777188"
    using st by (auto simp: buildStatus_def s i Store_Stats_def Head_def Digest_def All_entries_def Conflicts_def Live_def Peers_def SyncState_def
        conflict_store_def status64_def status_bound_def int64_defs rowOf_def meta_def conflict_name)
  ultimately show ?thesis using that s by blast
qed

lemma example_operator:
  assumes "lastSync svc = None"
  shows "operator_ok (example_start st) (example_flags ''n1'') (example_flags ''op'') example_moment svc"
  using assms by (simp add: operator_ok_def example_flags_def serveFlags_def globalFlags_def defaultNodeName_def moment_ok_def example_moment_def
      int64_defs MaxSkew_def whole_zone_def example_start_def)

theorem status_shows_the_node_witness:
  "\<exists>a out. runServe (example_start conflict_store) (example_flags ''n1'') = Inr a
     \<and> runStatus (reaches a (rn_service a) (\<lambda>_. False) [] example_moment (\<lambda>_. 7000)) (example_flags ''op'') = Some (out, None)"
proof -
  obtain a where a: "runServe (example_start conflict_store) (example_flags ''n1'') = Inr a"
    by (rule example_runs [of "''n1''" conflict_store]) simp
  obtain st where st: "buildStatus (\<lambda>_. False) (rn_service a) (rn_status a []) = Inr st" "status64 st" "status_bound st \<le> 16777188"
    "lastSync (rn_service a) = None"
    by (rule example_status [OF a])
  from status_shows_the_node [OF a example_operator [OF st(4)] st(1-3), of "\<lambda>_. 7000"] a show ?thesis by blast
qed

theorem digest_lines_compare_trees_witness:
  "let svc = New \<lparr>Node = ''n1'', MaxFileSize = 100, TombstoneTTL = 50, HasPeers = True\<rparr>;
       inp = \<lparr>in_node = ''n1'', in_addr = '''', in_started = 5, in_members = [], in_mirrorDir = '''', in_mountPoint = '''',
              in_zone = (\<lambda>_. 0), in_errText = (\<lambda>_. '''')\<rparr>
   in \<exists>st st'. buildStatus (\<lambda>_. False) (svc conflict_store (\<lambda>_. 0)) inp = Inr st
        \<and> buildStatus (\<lambda>_. False) (svc (conflict_store\<lparr>local_seq := 9\<rparr>) (\<lambda>_. 0)) inp = Inr st'
        \<and> st_Head st \<noteq> st_Head st' \<and> short (st_Digest st) = short (st_Digest st')"
proof -
  let ?svc = "New \<lparr>Node = ''n1'', MaxFileSize = 100, TombstoneTTL = 50, HasPeers = True\<rparr>"
  let ?inp = "\<lparr>in_node = ''n1'', in_addr = '''', in_started = 5, in_members = [], in_mirrorDir = '''', in_mountPoint = '''',
              in_zone = (\<lambda>_. 0), in_errText = (\<lambda>_. '''')\<rparr>"
  let ?one = "?svc conflict_store (\<lambda>_. 0)" and ?two = "?svc (conflict_store\<lparr>local_seq := 9\<rparr>) (\<lambda>_. 0)" and ?ms = "map meta (entries conflict_store)"
  note build = buildStatus_def Store_Stats_def Head_def Digest_def All_entries_def Conflicts_def Live_def Peers_def SyncState_def New_def
  obtain st st' where st: "buildStatus (\<lambda>_. False) ?one ?inp = Inr st" "buildStatus (\<lambda>_. False) ?two ?inp = Inr st'"
    by (simp add: build)
  moreover have "st_Head st \<noteq> st_Head st'" using st by (auto simp: build conflict_store_def)
  moreover have "short (st_Digest st) = short (st_Digest st')
     \<longleftrightarrow> (\<forall>p. map_option digest_fields (tree (store ?one) p) = map_option digest_fields (tree (store ?two) p))"
    by (rule digest_lines_compare_trees [OF st, of ?ms ?ms])
      (simp_all add: New_def conflict_store_def store_inv_def rowOf_def max_int64_def no_NUL_def meta_def All_entries_def)
  then have "short (st_Digest st) = short (st_Digest st')" by (simp add: New_def tree_def row_at_def)
  ultimately show ?thesis by (auto simp: Let_def)
qed

end
