(* ===== verification/Command.thy ===== *)
theory Command
  imports Status_Props
begin

text \<open>
  The command line of \<^verbatim>\<open>cmd/dcfs/main.go\<close>: its commands, what they end with, and the level of the log. Which command the arguments name and what they set
  the flags to is the library's.
\<close>

section \<open>Commands\<close>

datatype action = ActServe | ActStatus | ActPeers | ActConflicts

definition command :: "(string \<times> action) list" where
  "command = [(''serve'', ActServe), (''status'', ActStatus), (''peers'', ActPeers), (''conflicts'', ActConflicts)]"

text \<open>
  What the process meets: \<open>pe_ended\<close>, \<open>pe_leaveFails\<close> and \<open>pe_shutdownFails\<close> are how a running node ends.
\<close>

record process_env =
  pe_start :: start_env
  pe_ended :: "(bool \<times> err) option"
  pe_leaveFails :: bool
  pe_shutdownFails :: bool
  pe_command :: command_env

text \<open>The text on standard output and the error of an action; None is a panic.\<close>

definition run_action :: "process_env \<Rightarrow> Flags \<Rightarrow> action \<Rightarrow> (string \<times> err option) option" where
  "run_action env f act =
     (case act of
        ActServe \<Rightarrow>
          Some ('''', case runServe (pe_start env) f of
                        Inl e \<Rightarrow> Some e
                      | Inr r \<Rightarrow> fst (stopServe (pe_ended env) (pe_leaveFails env) (pe_shutdownFails env) r))
      | ActStatus \<Rightarrow> runStatus (pe_command env) f
      | ActPeers \<Rightarrow> Some (runPeers (pe_command env) f)
      | ActConflicts \<Rightarrow> Some (runConflicts (pe_command env) f))"

text \<open>\<^verbatim>\<open>main\<close>, once the library has found the command: the output and the exit status. A panic of Go ends with status two.\<close>

definition main :: "process_env \<Rightarrow> Flags \<Rightarrow> action \<Rightarrow> string \<times> nat" where
  "main env f act =
     (case run_action env f act of
        None \<Rightarrow> ('''', 2)
      | Some (out, err) \<Rightarrow> (out, if err \<noteq> None then 1 else 0))"

section \<open>The level of the log\<close>

text \<open>\<^verbatim>\<open>strings.ToUpper\<close>, as far as its result can be one of the level names: of the letters outside ASCII only the dotless i and the long s become one of ASCII.\<close>

fun ToUpper :: "string \<Rightarrow> string" where
  "ToUpper (c # d # s) =
     (if c = CHR 0xC4 \<and> d = CHR 0xB1 then CHR ''I'' # ToUpper s
      else if c = CHR 0xC5 \<and> d = CHR 0xBF then CHR ''S'' # ToUpper s
      else (if CHR ''a'' \<le> c \<and> c \<le> CHR ''z'' then char_of (of_char c - 32 :: nat) else c) # ToUpper (d # s))"
| "ToUpper [c] = [if CHR ''a'' \<le> c \<and> c \<le> CHR ''z'' then char_of (of_char c - 32 :: nat) else c]"
| "ToUpper [] = []"

text \<open>\<^verbatim>\<open>slog.Level.UnmarshalText\<close>: a name and perhaps a signed offset, None the error.\<close>

definition parse_level :: "string \<Rightarrow> int option" where
  "parse_level s =
     (let name = takeWhile (\<lambda>c. c \<noteq> CHR ''+'' \<and> c \<noteq> CHR ''-'') s;
          rest = drop (length name) s;
          level = map_of [(''DEBUG'', - 4), (''INFO'', 0), (''WARN'', 4), (''ERROR'', 8)] (ToUpper name)
      in if rest = [] then level
         else case ParseInt rest of None \<Rightarrow> None | Some offset \<Rightarrow> map_option (\<lambda>l. wrap64 (l + offset)) level)"

definition newLogger :: "string \<Rightarrow> int" where
  "newLogger level = (case parse_level level of None \<Rightarrow> 0 | Some l \<Rightarrow> l)"

section \<open>Properties\<close>

lemma newLogger_names: "map newLogger [''debug'', ''info'', ''warn'', ''error'', ''Info+2'', ''loud'', ''''] = [- 4, 0, 4, 8, 2, 0, 0]"
  by code_simp

text \<open>C36. \<^verbatim>\<open>dcfs conflicts\<close> is a health check that can be relied on: against a started node, with its secret, clocks that agree and a document below 16 MiB, the process ends
  with status zero if and only if no live entry of the node's tree is a conflict copy. Otherwise it ends with status one, and its output lists exactly the
  conflict copies, one per line in the order of their paths.\<close>

theorem conflicts_exit_status:
  assumes "runServe env f = Inr a" and "operator_ok env f g mo svc" and "store_inv (store svc)"
    and "buildStatus flt svc (rn_status a nodes) = Inr st" and "status64 st" and "status_bound st \<le> 16777188"
    and "pe_command penv = reaches a svc flt nodes mo clk"
  shows "((\<forall>p m. tree (store svc) p = Some m \<and> \<not> Deleted m \<longrightarrow> \<not> IsConflictName p) \<longleftrightarrow> snd (main penv g ActConflicts) = 0)
       \<and> (\<exists>ps. sorted ps \<and> set ps = {p. IsConflictName p \<and> (\<exists>m. tree (store svc) p = Some m \<and> \<not> Deleted m)}
           \<and> main penv g ActConflicts =
               (if ps = [] then (println ''no conflicts'', 0) else (concat (map (\<lambda>p. println (to_valid p)) ps), 1)))"
proof -
  note c = buildStatus_Inr(3) [OF assms(4)]
  have m: "main penv g ActConflicts =
      (if st_Conflicts st = [] then (println ''no conflicts'', 0) else (concat (map (\<lambda>p. println (to_valid p)) (st_Conflicts st)), 1))"
    using fetchStatus_served [OF assms(1,2,4,5,6), of clk]
    by (simp add: main_def run_action_def assms(7) runConflicts_def valid_Status_def comp_def)
  then have "(\<forall>p m. tree (store svc) p = Some m \<and> \<not> Deleted m \<longrightarrow> \<not> IsConflictName p) \<longleftrightarrow> snd (main penv g ActConflicts) = 0"
    using Conflicts_empty_iff [OF assms(3) c] by simp
  moreover have "\<exists>ps. sorted ps \<and> set ps = {p. IsConflictName p \<and> (\<exists>m. tree (store svc) p = Some m \<and> \<not> Deleted m)}
      \<and> main penv g ActConflicts =
          (if ps = [] then (println ''no conflicts'', 0) else (concat (map (\<lambda>p. println (to_valid p)) ps), 1))"
    using Conflicts_listed [OF assms(3) c] m by (intro exI [of _ "st_Conflicts st"] conjI)
  ultimately show ?thesis by (rule conjI)
qed

definition example_process :: "Running \<Rightarrow> process_env" where
  "example_process a =
     \<lparr>pe_start = example_start conflict_store, pe_ended = None, pe_leaveFails = False, pe_shutdownFails = False,
      pe_command = reaches a (rn_service a) (\<lambda>_. False) [] example_moment (\<lambda>_. 7000)\<rparr>"

theorem conflicts_exit_status_witness:
  "\<exists>a out. runServe (example_start conflict_store) (example_flags ''n1'') = Inr a
     \<and> main (example_process a) (example_flags ''op'') ActConflicts = (out, 1)"
proof -
  obtain a where a: "runServe (example_start conflict_store) (example_flags ''n1'') = Inr a"
    by (rule example_runs [of "''n1''" conflict_store]) simp
  obtain st where st: "buildStatus (\<lambda>_. False) (rn_service a) (rn_status a []) = Inr st" "status64 st" "status_bound st \<le> 16777188"
    "store (rn_service a) = conflict_store" "lastSync (rn_service a) = None"
    by (rule example_status [OF a])
  have inv: "store_inv (store (rn_service a))" using st(4) conflict_store_inv by simp
  have p: "pe_command (example_process a) = reaches a (rn_service a) (\<lambda>_. False) [] example_moment (\<lambda>_. 7000)" by (simp add: example_process_def)
  note exact = conflicts_exit_status [OF a example_operator [OF st(5)] inv st(1-3) p]
  have "\<exists>m. tree (store (rn_service a)) ''a.conflict.n2'' = Some m \<and> \<not> Deleted m"
    by (simp add: st(4) conflict_store_def tree_def row_at_def rowOf_def meta_def replicated_def)
  then have "snd (main (example_process a) (example_flags ''op'') ActConflicts) \<noteq> 0" using exact conflict_name by blast
  then show ?thesis using conjunct2 [OF exact] a by (auto split: if_splits)
qed

end
