(* ===== verification/AntiEntropy_Input.thy ===== *)
theory AntiEntropy_Input
  imports AntiEntropy_Sync
begin

text \<open>
  What can get into a node's tables: which of a peer's entries \<^verbatim>\<open>validate\<close> lets through, the shape every
  stored entry therefore has, and the two ways in which a peer's data is stored unchecked, mode bits and
  the names of conflict copies.
\<close>

section \<open>The shape of stored entries\<close>

text \<open>Sanitized paths, and the names of conflict copies made from stored paths.\<close>

inductive stored_path :: "string \<Rightarrow> bool" where
  sp_good: "good_path p \<Longrightarrow> stored_path p"
| sp_copy: "stored_path p \<Longrightarrow> stored_path (ConflictName p node wall)"

inductive_cases stored_pathE: "stored_path p"

definition hash_shape :: "string \<Rightarrow> bool" where
  "hash_shape h \<longleftrightarrow> h = '''' \<or> length h = 64 \<and> hex_decodes h"

definition shaped :: "int \<Rightarrow> Meta \<Rightarrow> bool" where
  "shaped limit m \<longleftrightarrow>
     Valid (Kind m) \<and> Origin (Ver m) \<noteq> '''' \<and> Size m \<le> limit \<and> hash_shape (Hash m)
     \<and> (Kind m = KindDir \<longrightarrow> Hash m = '''')"

definition shape_inv :: "Service \<Rightarrow> bool" where
  "shape_inv s \<longleftrightarrow>
     Node (cfg s) \<noteq> '''' \<and> 0 \<le> MaxFileSize (cfg s)
     \<and> (\<forall>r \<in> set (entries (store s)). stored_path (r_path r) \<and> shaped (MaxFileSize (cfg s)) (meta r))"

lemma validate_None_iff:
  "validate s m = None \<longleftrightarrow> good_path (Path m) \<and> shaped (MaxFileSize (cfg s)) m"
proof (cases "good_path (Path m)")
  case True
  then show ?thesis by (auto simp: validate_def shaped_def hash_shape_def)
next
  case False
  then show ?thesis by (simp add: validate_def SanitizePath_bad)
qed

lemma shaped_Seq [simp]: "shaped n (m\<lparr>Seq := q\<rparr>) = shaped n m"
  by (simp add: shaped_def)

lemma shape_inv_current:
  assumes "shape_inv s" and "row_at (store s) p \<noteq> None"
  shows "stored_path (Path (current s p))" "shaped (MaxFileSize (cfg s)) (current s p)"
proof -
  obtain r where r: "row_at (store s) p = Some r" using assms(2) by blast
  then show "stored_path (Path (current s p))" "shaped (MaxFileSize (cfg s)) (current s p)"
    using row_at_Some [OF r] assms(1) by (auto simp: shape_inv_def current_def)
qed

lemma commit_shape:
  assumes "shape_inv s" and "store_inv (store s)"
    and "\<And>m. m \<in> set ms \<Longrightarrow> stored_path (Path m) \<and> shaped (MaxFileSize (cfg s)) m"
  shows "shape_inv (snd (commit flt s ms))"
proof (cases "commit flt s ms")
  case (Pair e s')
  show ?thesis
  proof (cases e)
    case (Some x)
    then show ?thesis using Pair commit_error assms(1) by fastforce
  next
    case None
    have ok: "commit flt s ms = (None, s')" using Pair None by simp
    have num: "stored_path (r_path r) \<and> shaped (MaxFileSize (cfg s)) (meta r)" if "r \<in> set (numbered n ms)" for r n
      using that assms(3)
    proof (induction ms arbitrary: n)
      case (Cons m ms)
      then show ?case by (auto simp del: meta_simps)
    qed simp
    show ?thesis
      using commit_ok(7,8) [OF ok assms(2)] num assms(1) Pair None unfolding shape_inv_def by fastforce
  qed
qed

lemma op_meta_shape:
  assumes "shape_inv s" and "op_refused flt s x = None" and "\<not> op_idle s x"
  shows "stored_path (Path (op_meta s x)) \<and> shaped (MaxFileSize (cfg s)) (op_meta s x)"
proof -
  have node: "Node (cfg s) \<noteq> ''''" "0 \<le> MaxFileSize (cfg s)" using assms(1) by (simp_all add: shape_inv_def)
  have good: "stored_path (op_path x)" using assms(2) by (cases x) (auto intro: sp_good split: if_splits)
  show ?thesis
  proof (cases x)
    case (LSetAttr p mode uid gid)
    then have "row_at (store s) p \<noteq> None" using assms(2) by (auto simp: live_at_def split: if_splits)
    from shape_inv_current [OF assms(1) this] LSetAttr node show ?thesis by (simp add: shaped_def)
  next
    case (LDelete wall p)
    then have "row_at (store s) p \<noteq> None" using assms(3) by (simp add: live_at_def)
    from shape_inv_current [OF assms(1) this] LDelete node good show ?thesis by (simp add: shaped_def hash_shape_def)
  next
    case (LPutFile p c mode uid gid)
    then show ?thesis using assms(2) node good by (auto simp: shaped_def hash_shape_def Valid_def split: if_splits)
  next
    case (LPutDir p mode uid gid)
    then show ?thesis using node good by (auto simp: shaped_def hash_shape_def Valid_def)
  qed
qed

lemma shape_inv_cong:
  "entries (store s') = entries (store s) \<Longrightarrow> cfg s' = cfg s \<Longrightarrow> shape_inv s' = shape_inv s"
  by (simp add: shape_inv_def)

lemma local_step_shape:
  assumes "shape_inv s" and "store_inv (store s)"
  shows "shape_inv (snd (local_step flt s x))"
proof -
  obtain e1 st where prep: "prepared flt s x = (e1, st)" by (cases "prepared flt s x")
  then obtain c where st: "st = store s \<or> st = snd (PutBlob flt (store s) c)"
    using prepared_store by blast
  have same: "shape_inv (s\<lparr>store := st\<rparr>)" "shape_inv (s\<lparr>store := st, clock := k\<rparr>)" "store_inv st" for k
    using st assms by (auto simp: shape_inv_def frame intro: inv_intros)
  show ?thesis
  proof (cases "op_refused flt s x = None \<and> \<not> op_idle s x \<and> e1 = None")
    case True
    then have "shape_inv (snd (commit flt (s\<lparr>store := st, clock := snd (Now (clock s))\<rparr>) [op_meta s x]))"
      by (intro commit_shape) (use same op_meta_shape [OF assms(1), of flt x] in simp_all)
    then show ?thesis using True prep by (simp add: local_step_eq)
  next
    case False
    then show ?thesis using prep same assms(1) by (auto simp: local_step_eq split: option.splits)
  qed
qed

lemma copies_for_shape:
  assumes "shape_inv s" and "m \<in> set (copies_for s e)"
  shows "stored_path (Path m) \<and> shaped (MaxFileSize (cfg s)) m"
proof -
  have row: "row_at (store s) (Path e) \<noteq> None" and m: "m = fst (conflictCopy (observed s e) (current s (Path e)))"
    using assms(2) by (auto simp: copies_for_def resolve_conflict_iff split: if_splits)
  show ?thesis
    using shape_inv_current [OF assms(1) row] assms(1)
    by (auto simp: m conflictCopy_simps shaped_def shape_inv_def intro: sp_copy)
qed

lemma apply_entries_shape:
  assumes "apply_entries flt pc addr es s new_page = (Inr a, s')" and "shape_inv s"
  shows "\<forall>m \<in> set (batch a). stored_path (Path m) \<and> shaped (MaxFileSize (cfg s)) m"
proof -
  let ?P = "\<lambda>pre s' a. fetched s s' \<and> (\<forall>m \<in> set (batch a). stored_path (Path m) \<and> shaped (MaxFileSize (cfg s)) m)"
  have "case Inr a :: err + page_acc of Inl x \<Rightarrow> True | Inr a' \<Rightarrow> ?P es s' a'"
  proof (rule apply_entries_invariant [OF assms(1), where P = ?P and Q = "\<lambda>_. True"])
    show "?P [] s new_page" by (simp add: new_page_def)
    fix pre e rest t b b' t'
    assume P: "?P pre t b" and ap: "apply_entry flt pc addr e t b = (Inr b', t')"
    then have t: "shape_inv t" "cfg t = cfg s"
      using assms(2) shape_inv_cong [of t s] fetchedD(1,2) [of s t] by simp_all
    have f: "fetched s t'" using P fetched_trans apply_entry_fetched [OF ap] by blast
    have copies: "m \<in> set (copies_for t e) \<Longrightarrow> stored_path (Path m) \<and> shaped (MaxFileSize (cfg s)) m" for m
      using copies_for_shape [OF t(1)] t(2) by simp
    show "?P (pre @ [e]) t' b'"
      using ap
    proof (cases rule: apply_entry_cases)
      case (stored u)
      then have "stored_path (Path e) \<and> shaped (MaxFileSize (cfg s)) e"
        using validate_None_iff [of t e] t(2) by (auto intro: sp_good)
      then show ?thesis using stored(4) P copies f by auto
    next
      case (postponed u x)
      then show ?thesis using P copies f by auto
    qed (use P f in auto)
  qed simp
  then show ?thesis by simp
qed

lemma applyRemote_shape:
  assumes "shape_inv s" and "store_inv (store s)"
  shows "shape_inv (snd (applyRemote flt pc s addr es))"
proof (cases "applyRemote flt pc s addr es")
  case (Pair r s')
  then show ?thesis
  proof (cases rule: applyRemote_cases)
    case (failed e)
    then show ?thesis using Pair assms(1) shape_inv_cong [of s' s] fetchedD(1,2) by simp
  next
    case (applied a s1)
    have f: "fetched s s1" by (rule apply_entries_fetched [OF applied(1)])
    have s1: "shape_inv s1" "store_inv (store s1)" "cfg s1 = cfg s"
      using f assms shape_inv_cong [of s1 s] fetchedD(1,2,9) [OF f] by simp_all
    have "shape_inv (snd (commit flt s1 (batch a)))"
      using commit_shape [OF s1(1,2)] apply_entries_shape [OF applied(1) assms(1)] s1(3) by simp
    then show ?thesis using applied(3) s1(1) Pair by auto
  qed
qed

lemma collect_entries: "set (entries (store (collect flt now s))) \<subseteq> set (entries (store s))" "cfg (collect flt now s) = cfg s"
  by (rule collect_eq [of flt now s], auto simp: frame GCTombstones_def split: if_splits)+

lemma svc_step_shape:
  assumes "svc_step s s'" and "shape_inv s" and "store_inv (store s)"
  shows "shape_inv s'"
  using assms(1)
proof cases
  case (st_local flt x)
  then show ?thesis using local_step_shape assms(2,3) by simp
next
  case (st_page pc flt addr es)
  then show ?thesis using applyRemote_shape assms(2,3) by simp
next
  case (st_collect flt now)
  then show ?thesis using assms(2) collect_entries [of flt now s] by (auto simp: shape_inv_def)
qed (use assms(2) in \<open>auto simp: shape_inv_def frame Subscribe_def Unsubscribe_def triggerSync_def recordSync_def
      New_def split: option.splits\<close>)

section \<open>Properties\<close>

text \<open>\<^verbatim>\<open>validate\<close> lets an entry of a peer through exactly when its path is a sanitized path, its kind is file
  or directory, it names an origin, its size is within the limit, its hash is empty or 64 hex digits and
  empty for a directory. In particular it looks at none of the other fields: mode bits that \<^verbatim>\<open>SanitizeMode\<close>
  is documented to strip from a peer's mode pass unchanged, and are stored as they are.\<close>

theorem validate_exact:
  "(validate s m = None \<longleftrightarrow>
      SanitizePath (Path m) = Inr (Path m) \<and> (Kind m = KindFile \<or> Kind m = KindDir) \<and> Origin (Ver m) \<noteq> ''''
      \<and> Size m \<le> MaxFileSize (cfg s) \<and> (Hash m = '''' \<or> Kind m = KindFile \<and> length (Hash m) = 64 \<and> hex_decodes (Hash m)))
   \<and> validate s (m\<lparr>Mode := x, UID := u, GID := g, PrevHash := h, DeletedAt := d\<rparr>) = validate s m"
proof
  have good: "SanitizePath (Path m) = Inr (Path m) \<longleftrightarrow> good_path (Path m)"
    by (simp add: SanitizePath_iff)
  show "validate s m = None \<longleftrightarrow>
      SanitizePath (Path m) = Inr (Path m) \<and> (Kind m = KindFile \<or> Kind m = KindDir) \<and> Origin (Ver m) \<noteq> ''''
      \<and> Size m \<le> MaxFileSize (cfg s) \<and> (Hash m = '''' \<or> Kind m = KindFile \<and> length (Hash m) = 64 \<and> hex_decodes (Hash m))"
    unfolding validate_None_iff good by (auto simp: shaped_def hash_shape_def Valid_def)
  show "validate s (m\<lparr>Mode := x, UID := u, GID := g, PrevHash := h, DeletedAt := d\<rparr>) = validate s m"
    by (simp add: validate_def)
qed

text \<open>C13. Whatever peers send and in whatever order operations interleave, every entry a node ever stores has
  a valid kind, an origin, a size within the limit, a hash that is empty or 64 hex digits (empty for
  directories), and a path that \<^verbatim>\<open>SanitizePath\<close> accepts or that is the name of a conflict copy of such a
  path.\<close>

theorem stored_entries_are_shaped:
  assumes "svc_reachable c now s" and "Node c \<noteq> ''''" and "0 \<le> MaxFileSize c"
  shows "\<forall>r \<in> set (entries (store s)). stored_path (r_path r) \<and> shaped (MaxFileSize c) (meta r)"
proof -
  have "svc_step\<^sup>*\<^sup>* (New c empty_store now) s" using assms(1) by (simp add: svc_reachable_def)
  then have "svc_inv s \<and> shape_inv s \<and> cfg s = c"
  proof (induction rule: rtranclp_induct)
    case base
    then show ?case using svc_inv_New assms(2,3) by (simp add: shape_inv_def empty_store_def)
  next
    case (step s1 s2)
    then have inv: "svc_inv s2" "shape_inv s2"
      using svc_inv_step svc_step_shape by (auto simp: svc_inv_def)
    have "cfg s2 = cfg s1"
      using step(2) by (cases rule: svc_step.cases) (use local_step_grows applyRemote_grows collect_grows in
          \<open>auto simp: grows_def Subscribe_def Unsubscribe_def triggerSync_def recordSync_def split: option.splits\<close>)
    then show ?case using inv step by simp
  qed
  then show ?thesis by (auto simp: shape_inv_def)
qed

theorem stored_entries_are_shaped_witness:
  "let s = snd (PutDir (\<lambda>_. False) (New (cfg example_service) empty_store (\<lambda>_. 5)) ''d'' 448 0 0)
   in length (entries (store s)) = 1 \<and> (\<forall>r \<in> set (entries (store s)). shaped 100 (meta r))"
proof -
  let ?s = "snd (PutDir (\<lambda>_. False) (New (cfg example_service) empty_store (\<lambda>_. 5)) ''d'' 448 0 0)"
  have "svc_step (New (cfg example_service) empty_store (\<lambda>_. 5)) ?s"
    using st_local [of _ "\<lambda>_. False" "LPutDir ''d'' 448 0 0"] by simp
  then have "svc_reachable (cfg example_service) (\<lambda>_. 5) ?s" unfolding svc_reachable_def by blast
  moreover have "length (entries (store ?s)) = 1" by code_simp
  ultimately show ?thesis using stored_entries_are_shaped [of "cfg example_service" "\<lambda>_. 5" ?s] by (simp add: Let_def)
qed

text \<open>The name of a conflict copy is not sanitized. If the losing version's origin, which a peer chose and
  \<^verbatim>\<open>validate\<close> only required to be non-empty, has a \<^verbatim>\<open>..\<close> element, the copy is stored under a path with that
  element; and if the file's name and the origin are together longer than 243 bytes, the copy's name is
  longer than the 255 bytes allowed. In both cases \<^verbatim>\<open>SanitizePath\<close> refuses the path: no peer accepts the
  copy, and it is not the path the comment on \<^verbatim>\<open>SanitizePath\<close> promises for data from outside.\<close>

theorem conflict_copy_path_is_unchecked:
  "(Origin (Ver l) = a @ ''/../'' @ b \<longrightarrow> SanitizePath (Path (fst (conflictCopy s l))) = Inl ErrBadPath)
   \<and> (CHR ''/'' \<notin> set (Origin (Ver l)) \<and> 243 < length (last (split_on CHR ''/'' (Path l))) + length (Origin (Ver l))
      \<longrightarrow> SanitizePath (Path (fst (conflictCopy s l))) = Inl ErrBadPath)"
proof (intro conjI impI SanitizePath_bad notI)
  let ?n = "Origin (Ver l)" and ?w = "Wall (HLC (Ver l))"
  have path: "Path (fst (conflictCopy s l)) = Path l @ ''.conflict.'' @ ?n @ ''.'' @ dec_int ?w"
    by (simp add: conflictCopy_simps ConflictName_def)
  {
    assume n: "?n = a @ ''/../'' @ b" and "good_path (Path (fst (conflictCopy s l)))"
    then have good: "good_element el"
      if "el \<in> set (split_on CHR ''/'' (Path (fst (conflictCopy s l))))" for el
      using that by (simp add: good_path_def)
    have "Path (fst (conflictCopy s l)) = (Path l @ ''.conflict.'' @ a) @ CHR ''/'' # ''..'' @ CHR ''/'' # b @ ''.'' @ dec_int ?w"
      by (simp add: path n)
    then have "''..'' \<in> set (split_on CHR ''/'' (Path (fst (conflictCopy s l))))"
      using split_on_middle [of "CHR ''/''" "''..''" "Path l @ ''.conflict.'' @ a" "b @ ''.'' @ dec_int ?w"] by simp
    from good [OF this] show False by (simp add: good_element_def plain_element_def)
  next
    let ?y = "''.conflict.'' @ ?n @ ''.'' @ dec_int ?w"
    assume n: "CHR ''/'' \<notin> set ?n \<and> 243 < length (last (split_on CHR ''/'' (Path l))) + length ?n"
      and "good_path (Path (fst (conflictCopy s l)))"
    then have good: "good_element el"
      if "el \<in> set (split_on CHR ''/'' (Path (fst (conflictCopy s l))))" for el
      using that by (simp add: good_path_def)
    have "split_on CHR ''/'' (Path l @ ?y) = butlast (split_on CHR ''/'' (Path l)) @ [last (split_on CHR ''/'' (Path l)) @ ?y]"
      by (rule split_on_append) (use n dec_int_chars(2) in auto)
    then have "good_element (last (split_on CHR ''/'' (Path l)) @ ?y)"
      using good [of "last (split_on CHR ''/'' (Path l)) @ ?y"] by (simp add: path)
    moreover have "0 < length (dec_int ?w)" by simp
    ultimately show False using n by (simp add: good_element_def MaxNameLen_def)
  }
qed

theorem conflict_copy_path_is_unchecked_witness:
  "let l = zero_Meta\<lparr>Path := ''f'', Kind := KindFile, Ver := Version (Timestamp 7 0) ''/../../x''\<rparr>
   in validate example_started l = None
      \<and> Path (fst (conflictCopy example_started l)) = ''f.conflict./../../x.7''
      \<and> SanitizePath (Path (fst (conflictCopy example_started l))) = Inl ErrBadPath"
proof -
  let ?l = "zero_Meta\<lparr>Path := ''f'', Kind := KindFile, Ver := Version (Timestamp 7 0) ''/../../x''\<rparr>"
  have "Origin (Ver ?l) = '''' @ ''/../'' @ ''../x''" by simp
  then have "SanitizePath (Path (fst (conflictCopy example_started ?l))) = Inl ErrBadPath"
    using conflict_copy_path_is_unchecked [of ?l "''''" "''../x''" example_started] by blast
  moreover have "validate example_started ?l = None" by (simp add: validate_def Valid_def)
  moreover have "Path (fst (conflictCopy example_started ?l)) = ''f.conflict./../../x.7''"
    by (simp add: conflictCopy_simps ConflictName_def dec_int_def dec_nat.simps digit_def)
  ultimately show ?thesis by (simp add: Let_def)
qed

end
