(* ===== verification/Tree_Interface.thy ===== *)
theory Tree_Interface
  imports Syncer
begin

text \<open>
  The interface \<^verbatim>\<open>Tree\<close> through which the two projections, \<^verbatim>\<open>internal/fusefs\<close> and \<^verbatim>\<open>internal/mirror\<close>, use the
  syncer: a record of its methods over the state of whoever implements it, the contract the projections
  rely on as a locale, and the proof that the syncer keeps it.
\<close>

section \<open>The interface\<close>

record 's Tree =
  t_Live :: "'s \<Rightarrow> err + Meta list"
  t_Get :: "'s \<Rightarrow> string \<Rightarrow> err + Meta"
  t_Content :: "'s \<Rightarrow> string \<Rightarrow> err + bytes"
  t_PutFile :: "'s \<Rightarrow> string \<Rightarrow> bytes \<Rightarrow> uint32 \<Rightarrow> uint32 \<Rightarrow> uint32 \<Rightarrow> err option \<times> 's"
  t_PutDir :: "'s \<Rightarrow> string \<Rightarrow> uint32 \<Rightarrow> uint32 \<Rightarrow> uint32 \<Rightarrow> err option \<times> 's"
  t_SetAttr :: "'s \<Rightarrow> string \<Rightarrow> uint32 \<Rightarrow> uint32 \<Rightarrow> uint32 \<Rightarrow> err option \<times> 's"
  t_Delete :: "'s \<Rightarrow> string \<Rightarrow> err option \<times> 's"
  t_MaxFileSize :: "'s \<Rightarrow> int"

text \<open>The syncer's methods, given which database calls fail and the time a deletion is recorded with.\<close>

definition syncer_tree :: "dbfault \<times> int \<Rightarrow> Service Tree" where
  "syncer_tree env =
     (let (flt, wall) = env in
      \<lparr>t_Live = Service_Live flt, t_Get = Service_Get flt, t_Content = Content flt,
       t_PutFile = PutFile flt, t_PutDir = PutDir flt, t_SetAttr = SetAttr flt,
       t_Delete = Delete flt wall, t_MaxFileSize = Service_MaxFileSize\<rparr>)"

section \<open>The contract\<close>

definition is_file :: "Meta \<Rightarrow> string \<Rightarrow> bytes \<Rightarrow> uint32 \<Rightarrow> uint32 \<Rightarrow> uint32 \<Rightarrow> bool" where
  "is_file m p c mode uid gid \<longleftrightarrow>
     Path m = p \<and> Kind m = KindFile \<and> \<not> Deleted m \<and> Hash m = HashContent c \<and> has_attrs m mode uid gid"

definition is_dir :: "Meta \<Rightarrow> string \<Rightarrow> uint32 \<Rightarrow> uint32 \<Rightarrow> uint32 \<Rightarrow> bool" where
  "is_dir m p mode uid gid \<longleftrightarrow> Path m = p \<and> Kind m = KindDir \<and> \<not> Deleted m \<and> has_attrs m mode uid gid"

definition live_in :: "(string \<Rightarrow> Meta option) \<Rightarrow> string \<Rightarrow> bool" where
  "live_in v p \<longleftrightarrow> (\<exists>m. v p = Some m \<and> \<not> Deleted m)"

text \<open>
  \<open>view\<close> is the map from paths to entries, tombstones included; \<open>held\<close> the contents that can be read;
  \<open>up f\<close> that no read fails in the environment \<open>f\<close>, \<open>inv\<close> what the implementation keeps of its own state.
\<close>

locale tree_contract =
  fixes T :: "'f \<Rightarrow> 's Tree" and inv :: "'s \<Rightarrow> bool" and view :: "'s \<Rightarrow> string \<Rightarrow> Meta option"
    and held :: "'s \<Rightarrow> bytes set" and up :: "'f \<Rightarrow> bool"
  assumes view_path: "inv s \<Longrightarrow> view s p = Some m \<Longrightarrow> Path m = p \<and> replicated m = m"
    and Get_Inr: "inv s \<Longrightarrow> t_Get (T f) s p = Inr m \<Longrightarrow> view s p = Some (replicated m)"
    and Get_up: "inv s \<Longrightarrow> up f \<Longrightarrow> t_Get (T f) s p = Inl x \<Longrightarrow> view s p = None"
    and Live_Inr: "inv s \<Longrightarrow> t_Live (T f) s = Inr ms \<Longrightarrow>
      distinct (map Path ms) \<and> replicated ` set ms = {m. view s (Path m) = Some m \<and> \<not> Deleted m}"
    and Live_up: "up f \<Longrightarrow> \<exists>ms. t_Live (T f) s = Inr ms"
    and Content_Inr: "inv s \<Longrightarrow> t_Content (T f) s h = Inr c \<Longrightarrow> c \<in> held s \<and> HashContent c = h"
    and Content_up: "inv s \<Longrightarrow> up f \<Longrightarrow> view s p = Some m \<Longrightarrow> needs_blob m \<Longrightarrow>
      \<exists>c. t_Content (T f) s (Hash m) = Inr c"
    and PutFile_step: "inv s \<Longrightarrow> t_PutFile (T f) s p c mode uid gid = (e, s') \<Longrightarrow>
      inv s' \<and> held s' \<subseteq> insert c (held s) \<and> t_MaxFileSize (T f) s' = t_MaxFileSize (T f) s \<and>
      (if e = None then good_path p \<and> int (length c) \<le> t_MaxFileSize (T f) s
          \<and> (\<exists>m. view s' = (view s)(p \<mapsto> m) \<and> is_file m p c mode uid gid)
       else view s' = view s)"
    and PutDir_step: "inv s \<Longrightarrow> t_PutDir (T f) s p mode uid gid = (e, s') \<Longrightarrow>
      inv s' \<and> held s' \<subseteq> held s \<and> t_MaxFileSize (T f) s' = t_MaxFileSize (T f) s \<and>
      (if e = None then good_path p \<and> (\<exists>m. view s' = (view s)(p \<mapsto> m) \<and> is_dir m p mode uid gid)
       else view s' = view s)"
    and SetAttr_step: "inv s \<Longrightarrow> t_SetAttr (T f) s p mode uid gid = (e, s') \<Longrightarrow>
      inv s' \<and> held s' \<subseteq> held s \<and> t_MaxFileSize (T f) s' = t_MaxFileSize (T f) s \<and>
      (if e = None then \<exists>m m'. view s p = Some m \<and> \<not> Deleted m \<and> view s' = (view s)(p \<mapsto> m')
          \<and> Kind m' = Kind m \<and> Hash m' = Hash m \<and> Size m' = Size m \<and> \<not> Deleted m' \<and> has_attrs m' mode uid gid
       else view s' = view s)"
    and Delete_step: "inv s \<Longrightarrow> t_Delete (T f) s p = (e, s') \<Longrightarrow>
      inv s' \<and> held s' \<subseteq> held s \<and> t_MaxFileSize (T f) s' = t_MaxFileSize (T f) s \<and>
      (if e = None \<and> live_in (view s) p then \<exists>m. view s' = (view s)(p \<mapsto> m) \<and> Deleted m
       else view s' = view s)"
begin

lemma Live_iff:
  assumes "inv s" and "t_Live (T f) s = Inr ms"
  shows "(\<exists>m \<in> set ms. Path m = p) \<longleftrightarrow> live_in (view s) p"
proof
  assume "\<exists>m \<in> set ms. Path m = p"
  then obtain m where "m \<in> set ms" "Path m = p" by blast
  then have "replicated m \<in> {m. view s (Path m) = Some m \<and> \<not> Deleted m}"
    using Live_Inr [OF assms] by blast
  then show "live_in (view s) p" using \<open>Path m = p\<close> by (auto simp: live_in_def)
next
  assume "live_in (view s) p"
  then obtain m where m: "view s p = Some m" "\<not> Deleted m" by (auto simp: live_in_def)
  then have "m \<in> replicated ` set ms"
    using Live_Inr [OF assms] view_path [OF assms(1) m(1)] by auto
  then show "\<exists>m \<in> set ms. Path m = p" using view_path [OF assms(1) m(1)] by auto
qed

lemma Live_view:
  assumes "inv s" and "t_Live (T f) s = Inr ms" and "m \<in> set ms"
  shows "view s (Path m) = Some (replicated m)" "\<not> Deleted m"
proof -
  have "replicated m \<in> {m. view s (Path m) = Some m \<and> \<not> Deleted m}"
    using Live_Inr [OF assms(1,2)] assms(3) by blast
  then show "view s (Path m) = Some (replicated m)" "\<not> Deleted m" by simp_all
qed

lemma Content_is:
  assumes "inv s" and "t_Content (T f) s (HashContent c) = Inr d"
    and "\<forall>b \<in> held s. HashContent b = HashContent c \<longrightarrow> b = c"
  shows "d = c"
  using Content_Inr [OF assms(1,2)] assms(3) by blast

end

section \<open>The syncer keeps the contract\<close>

definition contents_of :: "Service \<Rightarrow> bytes set" where
  "contents_of s = b_data ` set (blobs (store s))"

definition sound_service :: "Service \<Rightarrow> bool" where
  "sound_service s \<longleftrightarrow> store_inv (store s) \<and> blobs_ok (store s)"

definition reads_up :: "dbfault \<times> int \<Rightarrow> bool" where
  "reads_up env \<longleftrightarrow> \<not> fst env DbLive \<and> (\<forall>p. \<not> fst env (DbGet p)) \<and> (\<forall>h. \<not> fst env (DbBlob h))"

lemma syncer_tree_simps [simp]:
  "t_Live (syncer_tree f) = Service_Live (fst f)" "t_Get (syncer_tree f) = Service_Get (fst f)"
  "t_Content (syncer_tree f) = Content (fst f)" "t_MaxFileSize (syncer_tree f) = Service_MaxFileSize"
  "t_PutFile (syncer_tree f) s p c mode uid gid = local_step (fst f) s (LPutFile p c mode uid gid)"
  "t_PutDir (syncer_tree f) s p mode uid gid = local_step (fst f) s (LPutDir p mode uid gid)"
  "t_SetAttr (syncer_tree f) s p mode uid gid = local_step (fst f) s (LSetAttr p mode uid gid)"
  "t_Delete (syncer_tree f) s p = local_step (fst f) s (LDelete (snd f) p)"
  by (simp_all add: syncer_tree_def split_beta)

lemma local_step_contents:
  "contents_of (snd (local_step flt s x)) \<subseteq>
     contents_of s \<union> (case x of LPutFile p c mode uid gid \<Rightarrow> {c} | _ \<Rightarrow> {})"
  using local_step_blobs [of _ flt s x] by (fastforce simp: contents_of_def)

text \<open>The entry at the operation's path afterwards, whether it was written or already there.\<close>

lemma local_step_view:
  assumes "sound_service s" and "local_step flt s x = (e, s')"
  shows "sound_service s'" and "cfg s' = cfg s"
    and "e \<noteq> None \<Longrightarrow> tree (store s') = tree (store s)"
    and "e = None \<Longrightarrow> op_refused flt s x = None"
    and "e = None \<Longrightarrow> op_idle s x \<Longrightarrow> s' = s"
    and "e = None \<Longrightarrow> \<not> op_idle s x \<Longrightarrow>
           tree (store s') = (tree (store s))(op_path x \<mapsto> replicated (op_meta s x))"
proof -
  have inv: "store_inv (store s)" "blobs_ok (store s)" using assms(1) by (simp_all add: sound_service_def)
  note out = local_step_outcome [OF inv assms(2)]
  show "sound_service s'"
    using local_step_inv [OF inv, of flt x] assms(2) by (simp add: sound_service_def)
  show "cfg s' = cfg s" using out by (auto simp: quiet_def wrote_def)
  show "e \<noteq> None \<Longrightarrow> tree (store s') = tree (store s)" using out quiet_tree by auto
  show refused: "e = None \<Longrightarrow> op_refused flt s x = None" using out by auto
  show "e = None \<Longrightarrow> op_idle s x \<Longrightarrow> s' = s" using out by auto
  show "e = None \<Longrightarrow> \<not> op_idle s x \<Longrightarrow>
      tree (store s') = (tree (store s))(op_path x \<mapsto> replicated (op_meta s x))"
    using out wrote_tree Path_op_meta [OF refused] by auto
qed

lemma tree_current: "row_at (store s) p \<noteq> None \<Longrightarrow> tree (store s) p = Some (replicated (current s p))"
  by (auto simp: tree_def current_def)

lemma live_at_tree: "live_at s p \<longleftrightarrow> live_in (tree (store s)) p"
  by (auto simp: live_at_def live_in_def tree_def current_def split: option.splits)

lemma has_attrs_replicated [simp]: "has_attrs (replicated m) mode uid gid = has_attrs m mode uid gid"
  by (simp add: has_attrs_def)

lemma is_file_replicated [simp]: "is_file (replicated m) p c mode uid gid = is_file m p c mode uid gid"
  by (simp add: is_file_def)

lemma is_dir_replicated [simp]: "is_dir (replicated m) p mode uid gid = is_dir m p mode uid gid"
  by (simp add: is_dir_def)

lemma map_upd_idem: "m p = Some v \<Longrightarrow> m = m(p \<mapsto> v)"
  by auto

lemma PutFile_contract:
  assumes "sound_service s" and "local_step flt s (LPutFile p c mode uid gid) = (None, s')"
  shows "\<exists>m. tree (store s') = (tree (store s))(p \<mapsto> m) \<and> is_file m p c mode uid gid"
proof (cases "op_idle s (LPutFile p c mode uid gid)")
  case True
  then have "tree (store s) p = Some (replicated (current s p))" "is_file (current s p) p c mode uid gid"
    using tree_current [of s p] Path_current [of s p] by (auto simp: live_at_def is_file_def)
  then show ?thesis using local_step_view(5) [OF assms _ True] map_upd_idem by fastforce
next
  case False
  moreover have "is_file (op_meta s (LPutFile p c mode uid gid)) p c mode uid gid"
    by (simp add: is_file_def has_attrs_def)
  ultimately show ?thesis using local_step_view(6) [OF assms _ False] by auto
qed

lemma PutDir_contract:
  assumes "sound_service s" and "local_step flt s (LPutDir p mode uid gid) = (None, s')"
  shows "\<exists>m. tree (store s') = (tree (store s))(p \<mapsto> m) \<and> is_dir m p mode uid gid"
proof (cases "op_idle s (LPutDir p mode uid gid)")
  case True
  then have "tree (store s) p = Some (replicated (current s p))" "is_dir (current s p) p mode uid gid"
    using tree_current [of s p] Path_current [of s p] by (auto simp: live_at_def is_dir_def)
  then show ?thesis using local_step_view(5) [OF assms _ True] map_upd_idem by fastforce
next
  case False
  moreover have "is_dir (op_meta s (LPutDir p mode uid gid)) p mode uid gid"
    by (simp add: is_dir_def has_attrs_def)
  ultimately show ?thesis using local_step_view(6) [OF assms _ False] by auto
qed

lemma SetAttr_contract:
  assumes "sound_service s" and "local_step flt s (LSetAttr p mode uid gid) = (None, s')"
  shows "\<exists>m m'. tree (store s) p = Some m \<and> \<not> Deleted m \<and> tree (store s') = (tree (store s))(p \<mapsto> m')
          \<and> Kind m' = Kind m \<and> Hash m' = Hash m \<and> Size m' = Size m \<and> \<not> Deleted m' \<and> has_attrs m' mode uid gid"
proof -
  have live: "live_at s p" using local_step_view(4) [OF assms] by (auto split: if_splits)
  then have cur: "tree (store s) p = Some (replicated (current s p))" "\<not> Deleted (current s p)"
    using tree_current by (auto simp: live_at_def)
  show ?thesis
  proof (cases "op_idle s (LSetAttr p mode uid gid)")
    case True
    then show ?thesis using cur local_step_view(5) [OF assms _ True] map_upd_idem [of "tree (store s)"]
      by (intro exI [of _ "replicated (current s p)"]) auto
  next
    case False
    let ?m = "replicated (op_meta s (LSetAttr p mode uid gid))"
    have "has_attrs ?m mode uid gid" by (simp add: has_attrs_def)
    then show ?thesis using cur local_step_view(6) [OF assms _ False]
      by (intro exI [of _ "replicated (current s p)"] exI [of _ ?m]) auto
  qed
qed

lemma Delete_contract:
  assumes "sound_service s" and "local_step flt s (LDelete wall p) = (e, s')"
  shows "if e = None \<and> live_in (tree (store s)) p then \<exists>m. tree (store s') = (tree (store s))(p \<mapsto> m) \<and> Deleted m
         else tree (store s') = tree (store s)"
proof (cases "e = None")
  case True
  show ?thesis
  proof (cases "op_idle s (LDelete wall p)")
    case idle: True
    then show ?thesis using local_step_view(5) [OF assms True idle] True live_at_tree by auto
  next
    case False
    then show ?thesis using local_step_view(6) [OF assms True False] True live_at_tree
      by (auto intro!: exI [of _ "replicated (op_meta s (LDelete wall p))"])
  qed
qed (use local_step_view(3) [OF assms] in auto)

interpretation syncer_tree: tree_contract syncer_tree sound_service "\<lambda>s. tree (store s)" contents_of reads_up
proof
  fix s p m and f :: "dbfault \<times> int"
  assume inv: "sound_service s"
  show "tree (store s) p = Some m \<Longrightarrow> Path m = p \<and> replicated m = m"
    using tree_Some by (auto simp: replicated_def)
  show "t_Get (syncer_tree f) s p = Inr m \<Longrightarrow> tree (store s) p = Some (replicated m)"
    by (auto simp: Service_Get_def Get_eq tree_def split: if_splits option.splits)
next
  fix s p e and f :: "dbfault \<times> int"
  assume "sound_service s" "reads_up f" "t_Get (syncer_tree f) s p = Inl e"
  then show "tree (store s) p = None"
    by (auto simp: Service_Get_def Get_eq tree_def reads_up_def split: option.splits)
next
  fix s ms and f :: "dbfault \<times> int"
  assume inv: "sound_service s" and live: "t_Live (syncer_tree f) s = Inr ms"
  then have st: "store_inv (store s)" by (simp add: sound_service_def)
  have "map Path ms = map r_path (sort_key r_path (filter (\<lambda>r. \<not> r_deleted r) (entries (store s))))"
    using live by (auto simp: Service_Live_def Live_def split: if_splits)
  then have "distinct (map Path ms)"
    using st by (simp add: distinct_map_sort distinct_map_filter store_inv_def)
  moreover have "replicated ` set ms = {m. tree (store s) (Path m) = Some m \<and> \<not> Deleted m}"
    using Live_rows [of "fst f" "store s" ms] live tree_iff_rows [OF st]
    by (auto simp: Service_Live_def image_iff)
  ultimately show "distinct (map Path ms) \<and> replicated ` set ms = {m. tree (store s) (Path m) = Some m \<and> \<not> Deleted m}" ..
next
  fix s and f :: "dbfault \<times> int"
  show "reads_up f \<Longrightarrow> \<exists>ms. t_Live (syncer_tree f) s = Inr ms"
    by (simp add: Service_Live_def Live_def reads_up_def)
next
  fix s h c and f :: "dbfault \<times> int"
  assume "sound_service s" "t_Content (syncer_tree f) s h = Inr c"
  then show "c \<in> contents_of s \<and> HashContent c = h"
    using Blob_verified [of "store s" "fst f" h c]
    by (auto simp: Content_def contents_of_def sound_service_def Blob_def find_Some_iff split: if_splits option.splits)
next
  fix s p m and f :: "dbfault \<times> int"
  assume inv: "sound_service s" and "reads_up f" "tree (store s) p = Some m" "needs_blob m"
  then have "has_blob (store s) (Hash m)"
    using tree_iff_rows [of "store s" p m] by (auto simp: sound_service_def blobs_ok_def)
  then show "\<exists>c. t_Content (syncer_tree f) s (Hash m) = Inr c"
    using Blob_found [of "store s" "Hash m" "fst f"] \<open>reads_up f\<close> by (simp add: Content_def reads_up_def)
next
  fix s p c mode uid gid e s' and f :: "dbfault \<times> int"
  assume inv: "sound_service s" and run: "t_PutFile (syncer_tree f) s p c mode uid gid = (e, s')"
  let ?x = "LPutFile p c mode uid gid"
  have step: "local_step (fst f) s ?x = (e, s')" using run by simp
  show "sound_service s' \<and> contents_of s' \<subseteq> insert c (contents_of s)
      \<and> t_MaxFileSize (syncer_tree f) s' = t_MaxFileSize (syncer_tree f) s \<and>
      (if e = None then good_path p \<and> int (length c) \<le> t_MaxFileSize (syncer_tree f) s
          \<and> (\<exists>m. tree (store s') = (tree (store s))(p \<mapsto> m) \<and> is_file m p c mode uid gid)
       else tree (store s') = tree (store s))"
    using local_step_view(1-4) [OF inv step] local_step_contents [of "fst f" s ?x] step
      PutFile_contract [OF inv, of "fst f" p c mode uid gid s']
    by (auto simp: Service_MaxFileSize_def split: if_splits)
next
  fix s p mode uid gid e s' and f :: "dbfault \<times> int"
  assume inv: "sound_service s" and run: "t_PutDir (syncer_tree f) s p mode uid gid = (e, s')"
  let ?x = "LPutDir p mode uid gid"
  have step: "local_step (fst f) s ?x = (e, s')" using run by simp
  show "sound_service s' \<and> contents_of s' \<subseteq> contents_of s
      \<and> t_MaxFileSize (syncer_tree f) s' = t_MaxFileSize (syncer_tree f) s \<and>
      (if e = None then good_path p \<and> (\<exists>m. tree (store s') = (tree (store s))(p \<mapsto> m) \<and> is_dir m p mode uid gid)
       else tree (store s') = tree (store s))"
    using local_step_view(1-4) [OF inv step] local_step_contents [of "fst f" s ?x] step
      PutDir_contract [OF inv, of "fst f" p mode uid gid s']
    by (auto simp: Service_MaxFileSize_def split: if_splits)
next
  fix s p mode uid gid e s' and f :: "dbfault \<times> int"
  assume inv: "sound_service s" and run: "t_SetAttr (syncer_tree f) s p mode uid gid = (e, s')"
  let ?x = "LSetAttr p mode uid gid"
  have step: "local_step (fst f) s ?x = (e, s')" using run by simp
  have "e = None \<Longrightarrow> \<exists>m m'. tree (store s) p = Some m \<and> \<not> Deleted m \<and> tree (store s') = (tree (store s))(p \<mapsto> m')
          \<and> Kind m' = Kind m \<and> Hash m' = Hash m \<and> Size m' = Size m \<and> \<not> Deleted m' \<and> has_attrs m' mode uid gid"
    using SetAttr_contract [OF inv, of "fst f" p mode uid gid s'] step by simp
  then show "sound_service s' \<and> contents_of s' \<subseteq> contents_of s
      \<and> t_MaxFileSize (syncer_tree f) s' = t_MaxFileSize (syncer_tree f) s \<and>
      (if e = None then \<exists>m m'. tree (store s) p = Some m \<and> \<not> Deleted m \<and> tree (store s') = (tree (store s))(p \<mapsto> m')
          \<and> Kind m' = Kind m \<and> Hash m' = Hash m \<and> Size m' = Size m \<and> \<not> Deleted m' \<and> has_attrs m' mode uid gid
       else tree (store s') = tree (store s))"
    using local_step_view(1-3) [OF inv step] local_step_contents [of "fst f" s ?x] step
    by (simp add: Service_MaxFileSize_def)
next
  fix s p e s' and f :: "dbfault \<times> int"
  assume inv: "sound_service s" and run: "t_Delete (syncer_tree f) s p = (e, s')"
  let ?x = "LDelete (snd f) p"
  have step: "local_step (fst f) s ?x = (e, s')" using run by simp
  show "sound_service s' \<and> contents_of s' \<subseteq> contents_of s
      \<and> t_MaxFileSize (syncer_tree f) s' = t_MaxFileSize (syncer_tree f) s \<and>
      (if e = None \<and> live_in (tree (store s)) p then \<exists>m. tree (store s') = (tree (store s))(p \<mapsto> m) \<and> Deleted m
       else tree (store s') = tree (store s))"
    using local_step_view(1,2) [OF inv step] local_step_contents [of "fst f" s ?x] step
      Delete_contract [OF inv step]
    by (simp add: Service_MaxFileSize_def)
qed

end
