(* ===== verification/Fusefs.thy ===== *)
theory Fusefs
  imports Tree_Interface "HOL-Library.Signed_Division"
begin

unbundle bit_operations_syntax

text \<open>
  \<^verbatim>\<open>internal/fusefs/fusefs.go\<close>: the mounted projection. A node of the mount is its path, the empty path the
  root; an operation takes the interface \<^verbatim>\<open>Tree\<close>, its state and the arguments the kernel sends, and
  returns an errno or a result and the new state. Where the code would panic the result is None. The calls an operation
  makes on the tree run one after the other; each of them is atomic, the operation is not.
\<close>

section \<open>Attributes\<close>

datatype errno = EIO | ENOENT | EPERM | EFBIG | EISDIR | ENOTDIR | ENOTEMPTY | EINVAL | EXDEV

definition S_IFREG :: uint32 where
  "S_IFREG = 0x8000"

definition S_IFDIR :: uint32 where
  "S_IFDIR = 0x4000"

definition O_WRONLY :: uint32 where
  "O_WRONLY = 1"

definition O_RDWR :: uint32 where
  "O_RDWR = 2"

definition O_TRUNC :: uint32 where
  "O_TRUNC = 0x200"

section \<open>Mounting\<close>

text \<open>What \<^verbatim>\<open>Mount\<close> asks of go-fuse; the timeouts, in nanoseconds, are how long the kernel may keep an answer.\<close>

definition cacheTimeout :: int where
  "cacheTimeout = 1000000000"

record mount_options =
  fo_FsName :: string
  fo_Name :: string
  fo_AllowOther :: bool
  fo_EntryTimeout :: int
  fo_AttrTimeout :: int

text \<open>\<open>fsMount\<close> is \<^verbatim>\<open>fs.Mount\<close>: whether mounting the node with the given path there succeeds. The result is the path of the root node.\<close>

definition Mount :: "(string \<Rightarrow> string \<Rightarrow> mount_options \<Rightarrow> bool) \<Rightarrow> string \<Rightarrow> err + string" where
  "Mount fsMount mountpoint =
     (let root = '''';
          options = \<lparr>fo_FsName = ''dcfs'', fo_Name = ''dcfs'', fo_AllowOther = False, fo_EntryTimeout = cacheTimeout, fo_AttrTimeout = cacheTimeout\<rparr>
      in if fsMount mountpoint root options then Inr root else Inl ErrInvalid)"

section \<open>Nodes\<close>

definition child :: "string \<Rightarrow> string \<Rightarrow> string" where
  "child path name = (if path = '''' then name else path @ ''/'' @ name)"

text \<open>The 64 bit FNV-1a hash.\<close>

definition fnv_step :: "64 word \<Rightarrow> char \<Rightarrow> 64 word" where
  "fnv_step h c = (h XOR of_nat (of_char c)) * 1099511628211"

definition inoOf :: "string \<Rightarrow> 64 word" where
  "inoOf p = foldl fnv_step 14695981039346656037 p"

record Attr =
  a_Ino :: "64 word"
  a_Size :: "64 word"
  a_Blocks :: "64 word"
  a_Mtime :: "64 word"
  a_Mode :: uint32
  a_Nlink :: uint32
  a_Uid :: uint32
  a_Gid :: uint32

text \<open>The three times of an entry are the same number of seconds. Division truncates towards zero.\<close>

definition attrOf :: "Meta \<Rightarrow> Attr" where
  "attrOf m =
     \<lparr>a_Ino = inoOf (Path m), a_Size = word_of_int (Size m),
      a_Blocks = word_of_int (wrap64 (Size m + 511) sdiv 512),
      a_Mtime = word_of_int (Wall (HLC (Ver m)) sdiv 1000000000),
      a_Mode = (if Kind m = KindDir then Mode m OR S_IFDIR else Mode m OR S_IFREG),
      a_Nlink = (if Kind m = KindDir then 2 else 1), a_Uid = UID m, a_Gid = GID m\<rparr>"

definition stableOf :: "Meta \<Rightarrow> uint32 \<times> 64 word" where
  "stableOf m = (if Kind m = KindDir then S_IFDIR else S_IFREG, inoOf (Path m))"

definition errnoOf :: "err \<Rightarrow> errno" where
  "errnoOf e =
     (if e = ErrTooLarge then EFBIG else if e = ErrBadPath then EINVAL
      else if e = ErrNotFound then ENOENT else EIO)"

section \<open>Handles\<close>

record readHandle =
  rh_data :: bytes

record writeHandle =
  h_path :: string
  h_buf :: bytes
  h_mode :: uint32
  h_uid :: uint32
  h_gid :: uint32
  h_dirty :: bool

datatype handle = RHandle readHandle | WHandle writeHandle

text \<open>The Go slice expression \<^verbatim>\<open>b[i:j]\<close>, which panics out of range, and \<^verbatim>\<open>copy(b[i:], data)\<close>.\<close>

definition slice :: "bytes \<Rightarrow> int \<Rightarrow> int \<Rightarrow> bytes option" where
  "slice b i j =
     (if 0 \<le> i \<and> i \<le> j \<and> j \<le> int (length b) then Some (take (nat (j - i)) (drop (nat i) b)) else None)"

definition copy_at :: "bytes \<Rightarrow> int \<Rightarrow> bytes \<Rightarrow> bytes option" where
  "copy_at b i data =
     (if 0 \<le> i \<and> i \<le> int (length b)
      then Some (take (nat i) b @ take (length b - nat i) data @ drop (nat i + length data) b) else None)"

text \<open>\<^verbatim>\<open>make([]byte, n)\<close> followed by \<^verbatim>\<open>copy\<close> of a shorter slice; a negative length panics.\<close>

definition grow :: "bytes \<Rightarrow> int \<Rightarrow> bytes option" where
  "grow b n = (if 0 \<le> n then Some (take (nat n) b @ replicate (nat n - length b) (CHR 0x00)) else None)"

text \<open>Both handles read the same way; \<open>n\<close> is the length of the destination.\<close>

definition read_at :: "bytes \<Rightarrow> int \<Rightarrow> nat \<Rightarrow> bytes option" where
  "read_at data off n =
     (if off < 0 \<or> off > int (length data) then Some []
      else slice data off (min (wrap64 (off + int n)) (int (length data))))"

fun Read :: "handle \<Rightarrow> int \<Rightarrow> nat \<Rightarrow> bytes option" where
  "Read (RHandle h) off n = read_at (rh_data h) off n"
| "Read (WHandle h) off n = read_at (h_buf h) off n"

definition Write :: "int \<Rightarrow> writeHandle \<Rightarrow> bytes \<Rightarrow> int \<Rightarrow> ((errno + nat) \<times> writeHandle) option" where
  "Write limit h data off =
     (let end_off = wrap64 (off + int (length data)) in
      if end_off > limit then Some (Inl EFBIG, h)
      else case (if end_off > int (length (h_buf h)) then grow (h_buf h) end_off else Some (h_buf h)) of
        None \<Rightarrow> None
      | Some buf \<Rightarrow>
          (case copy_at buf off data of
             None \<Rightarrow> None
           | Some buf \<Rightarrow> Some (Inr (length data), h\<lparr>h_buf := buf, h_dirty := True\<rparr>)))"

definition Flush :: "'s Tree \<Rightarrow> 's \<Rightarrow> writeHandle \<Rightarrow> errno option \<times> writeHandle \<times> 's" where
  "Flush T s h =
     (if \<not> h_dirty h then (None, h, s)
      else case t_PutFile T s (h_path h) (h_buf h) (h_mode h) (h_uid h) (h_gid h) of
        (Some e, s) \<Rightarrow> (Some (errnoOf e), h, s)
      | (None, s) \<Rightarrow> (None, h\<lparr>h_dirty := False\<rparr>, s))"

section \<open>Reading the tree\<close>

text \<open>The entry an operation works on: an error and a tombstone are both \<^verbatim>\<open>ENOENT\<close>.\<close>

definition live_entry :: "'s Tree \<Rightarrow> 's \<Rightarrow> string \<Rightarrow> Meta option" where
  "live_entry T s p =
     (case t_Get T s p of Inl e \<Rightarrow> None | Inr m \<Rightarrow> if Deleted m then None else Some m)"

definition Lookup :: "'s Tree \<Rightarrow> 's \<Rightarrow> string \<Rightarrow> string \<Rightarrow> errno + (string \<times> (uint32 \<times> 64 word) \<times> Attr)" where
  "Lookup T s path name =
     (let p = child path name in
      case SanitizePath p of
        Inl e \<Rightarrow> Inl ENOENT
      | Inr _ \<Rightarrow>
          (case live_entry T s p of
             None \<Rightarrow> Inl ENOENT
           | Some m \<Rightarrow> Inr (p, stableOf m, attrOf m)))"

record DirEntry =
  d_Name :: string
  d_Mode :: uint32
  d_Ino :: "64 word"

fun list_children :: "string \<Rightarrow> Meta list \<Rightarrow> DirEntry list" where
  "list_children prefix [] = []"
| "list_children prefix (m # ms) =
     (if \<not> HasPrefix (Path m) prefix then list_children prefix ms
      else
        let rest = drop (length prefix) (Path m) in
        if rest = '''' \<or> CHR ''/'' \<in> set rest then list_children prefix ms
        else \<lparr>d_Name = rest, d_Mode = (if Kind m = KindDir then S_IFDIR else S_IFREG), d_Ino = inoOf (Path m)\<rparr>
             # list_children prefix ms)"

definition Readdir :: "'s Tree \<Rightarrow> 's \<Rightarrow> string \<Rightarrow> errno + DirEntry list" where
  "Readdir T s path =
     (case t_Live T s of
        Inl e \<Rightarrow> Inl EIO
      | Inr es \<Rightarrow>
          Inr (list_children (if path \<noteq> '''' then path @ ''/'' else '''') es))"

text \<open>\<open>euid\<close> and \<open>egid\<close> own the root. Of a write handle only some attributes are set.\<close>

definition Getattr :: "'s Tree \<Rightarrow> uint32 \<Rightarrow> uint32 \<Rightarrow> 's \<Rightarrow> string \<Rightarrow> handle option \<Rightarrow> errno + Attr" where
  "Getattr T euid egid s path f =
     (case f of
        Some (WHandle h) \<Rightarrow>
          Inr \<lparr>a_Ino = inoOf (h_path h), a_Size = of_nat (length (h_buf h)), a_Blocks = 0, a_Mtime = 0,
               a_Mode = h_mode h OR S_IFREG, a_Nlink = 1, a_Uid = h_uid h, a_Gid = h_gid h\<rparr>
      | _ \<Rightarrow>
          if path = ''''
          then Inr \<lparr>a_Ino = inoOf '''', a_Size = 0, a_Blocks = 0, a_Mtime = 0,
                    a_Mode = S_IFDIR OR 0x1ED, a_Nlink = 2, a_Uid = euid, a_Gid = egid\<rparr>
          else (case live_entry T s path of None \<Rightarrow> Inl ENOENT | Some m \<Rightarrow> Inr (attrOf m)))"

definition Open :: "'s Tree \<Rightarrow> 's \<Rightarrow> string \<Rightarrow> uint32 \<Rightarrow> errno + handle" where
  "Open T s path flags =
     (case live_entry T s path of
        None \<Rightarrow> Inl ENOENT
      | Some m \<Rightarrow>
          if Kind m \<noteq> KindFile then Inl EISDIR
          else if flags AND (O_WRONLY OR O_RDWR) = 0
          then (case t_Content T s (Hash m) of Inl e \<Rightarrow> Inl EIO | Inr c \<Rightarrow> Inr (RHandle \<lparr>rh_data = c\<rparr>))
          else
            let open_with = (\<lambda>buf. Inr (WHandle \<lparr>h_path = path, h_buf = buf, h_mode = Mode m,
                                      h_uid = UID m, h_gid = GID m, h_dirty = False\<rparr>))
            in if flags AND O_TRUNC = 0
               then (case t_Content T s (Hash m) of Inl e \<Rightarrow> Inl EIO | Inr c \<Rightarrow> open_with c)
               else open_with [])"

section \<open>Changing the tree\<close>

record SetAttrIn =
  in_Size :: "64 word option"
  in_Mode :: "uint32 option"
  in_UID :: "uint32 option"
  in_GID :: "uint32 option"

text \<open>Truncation of a file: the new content, None when the conversion of the size panics in \<^verbatim>\<open>make\<close>.\<close>

definition resized :: "bytes \<Rightarrow> 64 word \<Rightarrow> bytes option" where
  "resized content sz =
     (if length content > unat sz then Some (take (unat sz) content)
      else if length content < unat sz then grow content (sint sz)
      else Some content)"

definition Setattr_size ::
  "'s Tree \<Rightarrow> 's \<Rightarrow> string \<Rightarrow> Meta \<Rightarrow> 64 word \<Rightarrow> ((errno + Meta) \<times> 's) option" where
  "Setattr_size T s path m sz =
     (if sint sz > t_MaxFileSize T s then Some (Inl EFBIG, s)
      else case t_Content T s (Hash m) of
        Inl e \<Rightarrow> Some (Inl EIO, s)
      | Inr content \<Rightarrow>
          (case resized content sz of
             None \<Rightarrow> None
           | Some content \<Rightarrow>
               (case t_PutFile T s path content (Mode m) (UID m) (GID m) of
                  (Some e, s) \<Rightarrow> Some (Inl (errnoOf e), s)
                | (None, s) \<Rightarrow> Some (Inr (m\<lparr>Size := int (length content)\<rparr>), s))))"

definition Setattr_attrs :: "'s Tree \<Rightarrow> 's \<Rightarrow> string \<Rightarrow> Meta \<Rightarrow> SetAttrIn \<Rightarrow> (errno + Attr) \<times> 's" where
  "Setattr_attrs T s path m req =
     (let mode = (case in_Mode req of None \<Rightarrow> Mode m | Some v \<Rightarrow> SanitizeMode v);
          uid = (case in_UID req of None \<Rightarrow> UID m | Some v \<Rightarrow> v);
          gid = (case in_GID req of None \<Rightarrow> GID m | Some v \<Rightarrow> v)
      in if mode \<noteq> Mode m \<or> uid \<noteq> UID m \<or> gid \<noteq> GID m
         then (case t_SetAttr T s path mode uid gid of
                 (Some e, s) \<Rightarrow> (Inl (errnoOf e), s)
               | (None, s) \<Rightarrow> (Inr (attrOf (m\<lparr>Mode := mode, UID := uid, GID := gid\<rparr>)), s))
         else (Inr (attrOf m), s))"

text \<open>The handle the request came through is an argument of the method; the code does not use it.\<close>

definition Setattr ::
  "'s Tree \<Rightarrow> 's \<Rightarrow> string \<Rightarrow> handle option \<Rightarrow> SetAttrIn \<Rightarrow> ((errno + Attr) \<times> 's) option" where
  "Setattr T s path f req =
     (if path = '''' then Some (Inl EPERM, s)
      else case live_entry T s path of
        None \<Rightarrow> Some (Inl ENOENT, s)
      | Some m \<Rightarrow>
          (case in_Size req of
             None \<Rightarrow> Some (Setattr_attrs T s path m req)
           | Some sz \<Rightarrow>
               if Kind m = KindFile
               then (case Setattr_size T s path m sz of
                       None \<Rightarrow> None
                     | Some (Inl e, s) \<Rightarrow> Some (Inl e, s)
                     | Some (Inr m, s) \<Rightarrow> Some (Setattr_attrs T s path m req))
               else Some (Setattr_attrs T s path m req)))"

definition Create ::
  "'s Tree \<Rightarrow> 's \<Rightarrow> string \<Rightarrow> string \<Rightarrow> uint32 \<Rightarrow> uint32 \<Rightarrow> uint32
   \<Rightarrow> (errno + (string \<times> (uint32 \<times> 64 word) \<times> Attr \<times> handle)) \<times> 's" where
  "Create T s path name mode callerUid callerGid =
     (let p = child path name in
      case SanitizePath p of
        Inl e \<Rightarrow> (Inl EINVAL, s)
      | Inr _ \<Rightarrow>
          let perm = SanitizeMode mode in
          case t_PutFile T s p [] perm callerUid callerGid of
            (Some e, s) \<Rightarrow> (Inl (errnoOf e), s)
          | (None, s) \<Rightarrow>
              (case t_Get T s p of
                 Inl e \<Rightarrow> (Inl EIO, s)
               | Inr m \<Rightarrow>
                   (Inr (p, stableOf m, attrOf m,
                         WHandle \<lparr>h_path = p, h_buf = [], h_mode = perm, h_uid = callerUid,
                                  h_gid = callerGid, h_dirty = False\<rparr>), s)))"

definition Mkdir ::
  "'s Tree \<Rightarrow> 's \<Rightarrow> string \<Rightarrow> string \<Rightarrow> uint32 \<Rightarrow> uint32 \<Rightarrow> uint32
   \<Rightarrow> (errno + (string \<times> (uint32 \<times> 64 word) \<times> Attr)) \<times> 's" where
  "Mkdir T s path name mode callerUid callerGid =
     (let p = child path name in
      case SanitizePath p of
        Inl e \<Rightarrow> (Inl EINVAL, s)
      | Inr _ \<Rightarrow>
          (case t_PutDir T s p (SanitizeMode mode) callerUid callerGid of
             (Some e, s) \<Rightarrow> (Inl (errnoOf e), s)
           | (None, s) \<Rightarrow>
               (case t_Get T s p of
                  Inl e \<Rightarrow> (Inl EIO, s)
                | Inr m \<Rightarrow> (Inr (p, stableOf m, attrOf m), s))))"

definition remove :: "'s Tree \<Rightarrow> 's \<Rightarrow> string \<Rightarrow> string \<Rightarrow> uint8 \<Rightarrow> errno option \<times> 's" where
  "remove T s path name kind =
     (let p = child path name in
      case live_entry T s p of
        None \<Rightarrow> (Some ENOENT, s)
      | Some m \<Rightarrow>
          if Kind m \<noteq> kind then (Some (if kind = KindFile then EISDIR else ENOTDIR), s)
          else (case t_Delete T s p of
                  (Some e, s) \<Rightarrow> (Some (errnoOf e), s)
                | (None, s) \<Rightarrow> (None, s)))"

definition Unlink :: "'s Tree \<Rightarrow> 's \<Rightarrow> string \<Rightarrow> string \<Rightarrow> errno option \<times> 's" where
  "Unlink T s path name = remove T s path name KindFile"

definition Rmdir :: "'s Tree \<Rightarrow> 's \<Rightarrow> string \<Rightarrow> string \<Rightarrow> errno option \<times> 's" where
  "Rmdir T s path name =
     (let p = child path name in
      case t_Live T s of
        Inl e \<Rightarrow> (Some EIO, s)
      | Inr es \<Rightarrow>
          if \<exists>m \<in> set es. HasPrefix (Path m) (p @ ''/'') then (Some ENOTEMPTY, s)
          else remove T s path name KindDir)"

text \<open>\<open>newParent\<close> is the path of the new parent, None when it is not a node of this mount.\<close>

definition Rename_copy :: "'s Tree \<Rightarrow> 's \<Rightarrow> string \<Rightarrow> string \<Rightarrow> Meta \<Rightarrow> errno option \<times> 's" where
  "Rename_copy T s source target m =
     (if Kind m = KindDir
      then (case t_Live T s of
              Inl e \<Rightarrow> (Some EIO, s)
            | Inr es \<Rightarrow>
                if \<exists>e \<in> set es. HasPrefix (Path e) (source @ ''/'') then (Some ENOTEMPTY, s)
                else (case t_PutDir T s target (Mode m) (UID m) (GID m) of
                        (Some e, s) \<Rightarrow> (Some (errnoOf e), s)
                      | (None, s) \<Rightarrow> (None, s)))
      else if Kind m = KindFile
      then (case t_Content T s (Hash m) of
              Inl e \<Rightarrow> (Some EIO, s)
            | Inr content \<Rightarrow>
                (case t_PutFile T s target content (Mode m) (UID m) (GID m) of
                   (Some e, s) \<Rightarrow> (Some (errnoOf e), s)
                 | (None, s) \<Rightarrow> (None, s)))
      else (None, s))"

definition Rename ::
  "'s Tree \<Rightarrow> 's \<Rightarrow> string \<Rightarrow> string \<Rightarrow> string option \<Rightarrow> string \<Rightarrow> uint32 \<Rightarrow> errno option \<times> 's" where
  "Rename T s path name newParent newName flags =
     (case newParent of
        None \<Rightarrow> (Some EXDEV, s)
      | Some target \<Rightarrow>
          let source = child path name; dest = child target newName in
          case SanitizePath dest of
            Inl e \<Rightarrow> (Some EINVAL, s)
          | Inr _ \<Rightarrow>
              (case live_entry T s source of
                 None \<Rightarrow> (Some ENOENT, s)
               | Some m \<Rightarrow>
                   (case Rename_copy T s source dest m of
                      (Some e, s) \<Rightarrow> (Some e, s)
                    | (None, s) \<Rightarrow>
                        (case t_Delete T s source of
                           (Some e, s) \<Rightarrow> (Some (errnoOf e), s)
                         | (None, s) \<Rightarrow> (None, s)))))"

end
