(* ===== verification/Fusefs_Props.thy ===== *)
theory Fusefs_Props
  imports Fusefs
begin

text \<open>
  What the mount promises. The facts about operations on the tree are proved once for any tree that keeps
  the contract and reach the syncer through its interpretation.
\<close>

section \<open>Handles\<close>

text \<open>What \<^verbatim>\<open>pwrite(2)\<close> does to a file held as a list of bytes.\<close>

definition pwrite :: "bytes \<Rightarrow> nat \<Rightarrow> bytes \<Rightarrow> bytes" where
  "pwrite buf off data =
     map (\<lambda>i. if off \<le> i \<and> i < off + length data then data ! (i - off)
              else if i < length buf then buf ! i else CHR 0x00)
       [0 ..< max (length buf) (off + length data)]"

lemma length_pwrite [simp]: "length (pwrite buf off data) = max (length buf) (off + length data)"
  by (simp add: pwrite_def)

lemma nth_pwrite: "i < max (length buf) (off + length data) \<Longrightarrow>
  pwrite buf off data ! i = (if off \<le> i \<and> i < off + length data then data ! (i - off)
              else if i < length buf then buf ! i else CHR 0x00)"
  by (simp add: pwrite_def)

lemma wrap64_nonneg: "0 \<le> n \<Longrightarrow> n \<le> max_int64 \<Longrightarrow> wrap64 n = n"
  by (simp add: int64_defs)

lemma pwrite_padded:
  "length buf + k \<le> off + length data \<Longrightarrow> pwrite (buf @ replicate k (CHR 0x00)) off data = pwrite buf off data"
  by (rule nth_equalityI) (auto simp: nth_pwrite nth_append)

lemma copy_inside:
  assumes "off + length data \<le> length buf"
  shows "copy_at buf (int off) data = Some (pwrite buf off data)"
proof -
  have "take off buf @ data @ drop (off + length data) buf = pwrite buf off data"
    using assms by (intro nth_equalityI) (auto simp: nth_pwrite nth_append)
  then show ?thesis using assms by (simp add: copy_at_def)
qed

lemma copy_grown:
  assumes "off + length data = n" and "length buf < n"
  shows "copy_at (buf @ replicate (n - length buf) (CHR 0x00)) (int off) data = Some (pwrite buf off data)"
  using assms by (simp add: copy_inside pwrite_padded)

lemma Write_ok:
  assumes "int (off + length data) \<le> limit" and "int (off + length data) \<le> max_int64"
  shows "Write limit h data (int off) =
    Some (Inr (length data), h\<lparr>h_buf := pwrite (h_buf h) off data, h_dirty := True\<rparr>)"
proof -
  have w: "wrap64 (int off + int (length data)) = int (off + length data)"
    using assms(2) wrap64_nonneg [of "int (off + length data)"] by simp
  show ?thesis
  proof (cases "off + length data \<le> length (h_buf h)")
    case True
    then show ?thesis using assms(1) copy_inside [OF True] by (simp add: Write_def Let_def w)
  next
    case False
    have "grow (h_buf h) (int (off + length data))
        = Some (h_buf h @ replicate (off + length data - length (h_buf h)) (CHR 0x00))"
      using False by (simp add: grow_def)
    then show ?thesis using False assms(1) copy_grown [of off data "off + length data" "h_buf h"]
      by (simp add: Write_def Let_def w)
  qed
qed

lemma Write_too_big:
  assumes "int (off + length data) > limit" and "int (off + length data) \<le> max_int64"
  shows "Write limit h data (int off) = Some (Inl EFBIG, h)"
  using assms wrap64_nonneg [of "int (off + length data)"] by (simp add: Write_def Let_def)

lemma read_at_eq:
  assumes "int (off + n) \<le> max_int64"
  shows "read_at data (int off) n = Some (take n (drop off data))"
proof (cases "off \<le> length data")
  case True
  have "wrap64 (int off + int n) = int (off + n)"
    using assms wrap64_nonneg [of "int (off + n)"] by simp
  moreover have "nat (int (length data) - int off) = length data - off" "nat (int off + int n - int off) = n"
    by linarith+
  ultimately show ?thesis using True
    by (auto simp: read_at_def slice_def min_def split: if_splits)
qed (simp add: read_at_def)

lemma drop_pwrite: "take (length data) (drop off (pwrite buf off data)) = data"
  by (auto intro!: nth_equalityI simp: nth_pwrite)

section \<open>Operations over a tree that keeps its contract\<close>

lemma errnoOf_not_found: "errnoOf e = ENOENT \<longleftrightarrow> e = ErrNotFound"
  by (simp add: errnoOf_def)

lemma live_entry_Some: "live_entry T s p = Some m \<longleftrightarrow> t_Get T s p = Inr m \<and> \<not> Deleted m"
  by (auto simp: live_entry_def split: sum.splits)

lemma attrOf_replicated [simp]: "attrOf (replicated m) = attrOf m"
  by (simp add: attrOf_def)

lemma stableOf_replicated [simp]: "stableOf (replicated m) = stableOf m"
  by (simp add: stableOf_def)

definition child_of :: "string \<Rightarrow> Meta \<Rightarrow> bool" where
  "child_of prefix m \<longleftrightarrow> (\<exists>name. Path m = prefix @ name \<and> name \<noteq> '''' \<and> CHR ''/'' \<notin> set name)"

lemma list_children_eq:
  "list_children prefix ms =
     map (\<lambda>m. \<lparr>d_Name = drop (length prefix) (Path m), d_Mode = fst (stableOf m), d_Ino = snd (stableOf m)\<rparr>)
       (filter (child_of prefix) ms)"
proof (induction ms)
  case (Cons m ms)
  show ?case
  proof (cases "\<exists>name. Path m = prefix @ name")
    case True
    then obtain name where "Path m = prefix @ name" ..
    then show ?thesis using Cons by (auto simp: child_of_def stableOf_def)
  next
    case False
    then have "\<not> child_of prefix m" by (auto simp: child_of_def)
    then show ?thesis using Cons False by (simp add: HasPrefix_iff)
  qed
qed simp

lemma list_children_set:
  "d \<in> set (list_children prefix ms) \<longleftrightarrow>
     (\<exists>m \<in> set ms. Path m = prefix @ d_Name d \<and> d_Name d \<noteq> '''' \<and> CHR ''/'' \<notin> set (d_Name d)
        \<and> (d_Mode d, d_Ino d) = stableOf m)"
proof
  assume "d \<in> set (list_children prefix ms)"
  then show "\<exists>m \<in> set ms. Path m = prefix @ d_Name d \<and> d_Name d \<noteq> '''' \<and> CHR ''/'' \<notin> set (d_Name d)
        \<and> (d_Mode d, d_Ino d) = stableOf m"
    by (auto simp: list_children_eq child_of_def)
next
  assume "\<exists>m \<in> set ms. Path m = prefix @ d_Name d \<and> d_Name d \<noteq> '''' \<and> CHR ''/'' \<notin> set (d_Name d)
        \<and> (d_Mode d, d_Ino d) = stableOf m"
  then obtain m where m: "m \<in> set ms" "Path m = prefix @ d_Name d" "d_Name d \<noteq> ''''"
    "CHR ''/'' \<notin> set (d_Name d)" "(d_Mode d, d_Ino d) = stableOf m" by blast
  then have "child_of prefix m"
    "d = \<lparr>d_Name = drop (length prefix) (Path m), d_Mode = fst (stableOf m), d_Ino = snd (stableOf m)\<rparr>"
    by (auto simp: child_of_def) (metis DirEntry.surjective fst_conv snd_conv unit.exhaust)
  then show "d \<in> set (list_children prefix ms)" using m(1) unfolding list_children_eq by auto
qed

lemma list_children_distinct:
  assumes "distinct (map Path ms)"
  shows "distinct (map d_Name (list_children prefix ms))"
proof -
  have "inj_on (\<lambda>m. drop (length prefix) (Path m)) (set (filter (child_of prefix) ms))"
    using assms by (auto simp: inj_on_def child_of_def distinct_map)
  then show ?thesis
    using assms by (simp add: list_children_eq comp_def distinct_map inj_on_def)
qed

lemma child_prefix: "(if path \<noteq> '''' then path @ ''/'' else '''') @ name = child path name"
  by (simp add: child_def)

context tree_contract
begin

lemma live_entry_view: "inv s \<Longrightarrow> live_entry (T f) s p = Some m \<Longrightarrow> view s p = Some (replicated m) \<and> \<not> Deleted m"
  using Get_Inr by (auto simp: live_entry_Some)

lemma live_entry_up:
  assumes "inv s" and "up f" and "view s p = Some m" and "\<not> Deleted m"
  shows "\<exists>m'. live_entry (T f) s p = Some m' \<and> replicated m' = m"
proof (cases "t_Get (T f) s p")
  case (Inl e)
  then show ?thesis using Get_up [OF assms(1,2)] assms(3) by force
next
  case (Inr m')
  then show ?thesis using Get_Inr [OF assms(1) Inr] assms(3,4) by (auto simp: live_entry_Some)
qed

lemma live_entry_None: "inv s \<Longrightarrow> up f \<Longrightarrow> live_entry (T f) s p = None \<longleftrightarrow> \<not> live_in (view s) p"
  using live_entry_up live_entry_view unfolding live_in_def
  by (metis not_Some_eq option.distinct(1) replicated_simps(10))

lemma Readdir_set:
  assumes "inv s" and "Readdir (T f) s path = Inr ds"
  shows "distinct (map d_Name ds)"
    and "d \<in> set ds \<longleftrightarrow> d_Name d \<noteq> '''' \<and> CHR ''/'' \<notin> set (d_Name d)
           \<and> (\<exists>m. view s (child path (d_Name d)) = Some m \<and> \<not> Deleted m \<and> (d_Mode d, d_Ino d) = stableOf m)"
proof -
  obtain ms where ms: "t_Live (T f) s = Inr ms"
    and ds: "ds = list_children (if path \<noteq> '''' then path @ ''/'' else '''') ms"
    using assms(2) by (auto simp: Readdir_def split: sum.splits)
  show "distinct (map d_Name ds)" using Live_Inr [OF assms(1) ms] by (simp add: ds list_children_distinct)
  have "(\<exists>m \<in> set ms. Path m = p \<and> st = stableOf m) \<longleftrightarrow> (\<exists>m. view s p = Some m \<and> \<not> Deleted m \<and> st = stableOf m)"
    for p st
  proof
    assume "\<exists>m \<in> set ms. Path m = p \<and> st = stableOf m"
    then show "\<exists>m. view s p = Some m \<and> \<not> Deleted m \<and> st = stableOf m"
      using Live_view [OF assms(1) ms] by (metis replicated_simps(10) stableOf_replicated)
  next
    assume "\<exists>m. view s p = Some m \<and> \<not> Deleted m \<and> st = stableOf m"
    then obtain m where m: "view s p = Some m" "\<not> Deleted m" "st = stableOf m" by blast
    then have "m \<in> replicated ` set ms" using Live_Inr [OF assms(1) ms] view_path [OF assms(1)] by auto
    then show "\<exists>m \<in> set ms. Path m = p \<and> st = stableOf m" using m view_path [OF assms(1) m(1)] by auto
  qed
  note iff = this [of "child path (d_Name d)" "(d_Mode d, d_Ino d)"]
  show "d \<in> set ds \<longleftrightarrow> d_Name d \<noteq> '''' \<and> CHR ''/'' \<notin> set (d_Name d)
           \<and> (\<exists>m. view s (child path (d_Name d)) = Some m \<and> \<not> Deleted m \<and> (d_Mode d, d_Ino d) = stableOf m)"
    unfolding ds list_children_set child_prefix iff [symmetric] by blast
qed

lemma Readdir_Lookup:
  assumes "inv s" and "up f" and "name \<noteq> ''''" and "CHR ''/'' \<notin> set name" and "Readdir (T f) s path = Inr ds"
  shows "case Lookup (T f) s path name of
           Inl e \<Rightarrow> e = ENOENT \<and> (name \<in> d_Name ` set ds \<longrightarrow> \<not> good_path (child path name))
         | Inr (p, (md, ino), at) \<Rightarrow>
             p = child path name \<and> a_Ino at = ino \<and> \<lparr>d_Name = name, d_Mode = md, d_Ino = ino\<rparr> \<in> set ds"
proof (cases "good_path (child path name)")
  case False
  then show ?thesis by (simp add: Lookup_def SanitizePath_bad Let_def)
next
  case True
  show ?thesis
  proof (cases "live_entry (T f) s (child path name)")
    case None
    then have "\<not> live_in (view s) (child path name)" using live_entry_None [OF assms(1,2)] by simp
    then have "name \<notin> d_Name ` set ds" using Readdir_set(2) [OF assms(1,5)] by (auto simp: live_in_def)
    then show ?thesis using True None by (simp add: Lookup_def Let_def)
  next
    case (Some m)
    then have v: "view s (child path name) = Some (replicated m)" "\<not> Deleted m"
      using live_entry_view [OF assms(1) Some] by simp_all
    then have "\<lparr>d_Name = name, d_Mode = fst (stableOf m), d_Ino = snd (stableOf m)\<rparr> \<in> set ds"
      using Readdir_set(2) [OF assms(1,5), of "\<lparr>d_Name = name, d_Mode = fst (stableOf m), d_Ino = snd (stableOf m)\<rparr>"] assms(3,4) by auto
    then show ?thesis using True Some
      by (simp add: Lookup_def Let_def stableOf_def attrOf_def)
  qed
qed

lemma Flush_step:
  assumes "inv s" and "Flush (T f) s h = (e, h', s')"
  shows "inv s'" and "held s' \<subseteq> insert (h_buf h) (held s)" and "e \<noteq> None \<Longrightarrow> view s' = view s"
    and "\<not> h_dirty h \<Longrightarrow> e = None \<and> h' = h \<and> s' = s"
    and "h_dirty h \<Longrightarrow> e = None \<Longrightarrow> h' = h\<lparr>h_dirty := False\<rparr> \<and> good_path (h_path h)
           \<and> (\<exists>m. view s' = (view s)(h_path h \<mapsto> m) \<and> is_file m (h_path h) (h_buf h) (h_mode h) (h_uid h) (h_gid h))"
proof -
  obtain e1 s1 where put: "t_PutFile (T f) s (h_path h) (h_buf h) (h_mode h) (h_uid h) (h_gid h) = (e1, s1)"
    by fastforce
  note step = PutFile_step [OF assms(1) put]
  show "inv s'" using assms step put by (auto simp: Flush_def split: if_splits option.splits)
  show "held s' \<subseteq> insert (h_buf h) (held s)" using assms step put by (auto simp: Flush_def split: if_splits option.splits)
  show "e \<noteq> None \<Longrightarrow> view s' = view s" using assms step put by (auto simp: Flush_def split: if_splits option.splits)
  show "\<not> h_dirty h \<Longrightarrow> e = None \<and> h' = h \<and> s' = s" using assms(2) by (simp add: Flush_def)
  show "h_dirty h \<Longrightarrow> e = None \<Longrightarrow> h' = h\<lparr>h_dirty := False\<rparr> \<and> good_path (h_path h)
           \<and> (\<exists>m. view s' = (view s)(h_path h \<mapsto> m) \<and> is_file m (h_path h) (h_buf h) (h_mode h) (h_uid h) (h_gid h))"
    using assms step put by (auto simp: Flush_def split: option.splits)
qed

lemma needs_blob_file: "is_file m p c mode uid gid \<Longrightarrow> needs_blob m"
  by (auto simp: is_file_def needs_blob_def)

lemma Open_reads:
  assumes "inv s" and "up f" and "view s p = Some m" and "is_file m p c mode uid gid"
    and "\<forall>b \<in> held s. HashContent b = HashContent c \<longrightarrow> b = c"
  shows "Open (T f) s p 0 = Inr (RHandle \<lparr>rh_data = c\<rparr>)"
proof -
  have m: "\<not> Deleted m" "Kind m = KindFile" "Hash m = HashContent c" using assms(4) by (simp_all add: is_file_def)
  obtain m' where m': "live_entry (T f) s p = Some m'" "replicated m' = m"
    using live_entry_up [OF assms(1-3) m(1)] by blast
  obtain d where d: "t_Content (T f) s (HashContent c) = Inr d"
    using Content_up [OF assms(1-3) needs_blob_file [OF assms(4)]] m(3) by auto
  have "Kind m' = KindFile" "Hash m' = HashContent c" using m m'(2) by auto
  then show ?thesis using m'(1) d Content_is [OF assms(1) d assms(5)] by (simp add: Open_def)
qed

lemma Flush_read_back:
  assumes "inv s" and "h_dirty h" and "Flush (T f) s h = (None, h', s')" and "up g"
    and "\<forall>b \<in> held s. HashContent b = HashContent (h_buf h) \<longrightarrow> b = h_buf h"
  shows "Open (T g) s' (h_path h) 0 = Inr (RHandle \<lparr>rh_data = h_buf h\<rparr>)"
    and "Flush (T g) s' h' = (None, h', s')"
proof -
  note step = Flush_step [OF assms(1,3)]
  obtain m where m: "view s' (h_path h) = Some m" "is_file m (h_path h) (h_buf h) (h_mode h) (h_uid h) (h_gid h)"
    using step(5) [OF assms(2)] by auto
  show "Open (T g) s' (h_path h) 0 = Inr (RHandle \<lparr>rh_data = h_buf h\<rparr>)"
    by (rule Open_reads [OF step(1) assms(4) m]) (use step(2) assms(5) in auto)
  show "Flush (T g) s' h' = (None, h', s')" using step(5) [OF assms(2)] by (simp add: Flush_def)
qed

lemma Create_step:
  assumes "inv s" and "Create (T f) s path name mode uid gid = (r, s')"
  shows "inv s'" and "view s' = view s \<or> good_path (child path name)
      \<and> (\<exists>m. view s' = (view s)(child path name \<mapsto> m) \<and> is_file m (child path name) [] (SanitizeMode mode) uid gid)"
    and "held s' \<subseteq> insert [] (held s)"
    and "r = Inr x \<Longrightarrow> \<exists>m. view s' = (view s)(child path name \<mapsto> m) \<and> is_file m (child path name) [] (SanitizeMode mode) uid gid
           \<and> snd (snd (snd x)) = WHandle \<lparr>h_path = child path name, h_buf = [], h_mode = SanitizeMode mode, h_uid = uid,
                                  h_gid = gid, h_dirty = False\<rparr>"
proof -
  let ?p = "child path name"
  obtain e1 s1 where put: "t_PutFile (T f) s ?p [] (SanitizeMode mode) uid gid = (e1, s1)" by fastforce
  note step = PutFile_step [OF assms(1) put]
  have s': "s' = s \<or> s' = s1"
    using assms(2) put by (auto simp: Create_def Let_def split: sum.splits option.splits)
  show "inv s'" using s' assms(1) step by auto
  show "held s' \<subseteq> insert [] (held s)" using s' step by auto
  show "view s' = view s \<or> good_path ?p
      \<and> (\<exists>m. view s' = (view s)(?p \<mapsto> m) \<and> is_file m ?p [] (SanitizeMode mode) uid gid)"
    using s' step by (auto split: if_splits)
  assume r: "r = Inr x"
  then have ok: "e1 = None" "s' = s1" "snd (snd (snd x)) = WHandle \<lparr>h_path = ?p, h_buf = [], h_mode = SanitizeMode mode,
      h_uid = uid, h_gid = gid, h_dirty = False\<rparr>"
    using assms(2) put by (auto simp: Create_def Let_def split: sum.splits option.splits)
  then show "\<exists>m. view s' = (view s)(?p \<mapsto> m) \<and> is_file m ?p [] (SanitizeMode mode) uid gid
           \<and> snd (snd (snd x)) = WHandle \<lparr>h_path = ?p, h_buf = [], h_mode = SanitizeMode mode, h_uid = uid,
                                  h_gid = gid, h_dirty = False\<rparr>"
    using step by auto
qed

lemma Mkdir_step:
  assumes "inv s" and "Mkdir (T f) s path name mode uid gid = (r, s')"
  shows "inv s'" and "view s' = view s \<or> good_path (child path name)
      \<and> (\<exists>m. view s' = (view s)(child path name \<mapsto> m) \<and> is_dir m (child path name) (SanitizeMode mode) uid gid)"
proof -
  let ?p = "child path name"
  obtain e1 s1 where put: "t_PutDir (T f) s ?p (SanitizeMode mode) uid gid = (e1, s1)" by fastforce
  note step = PutDir_step [OF assms(1) put]
  have s': "s' = s \<or> s' = s1"
    using assms(2) put by (auto simp: Mkdir_def Let_def split: sum.splits option.splits)
  show "inv s'" using s' assms(1) step by auto
  show "view s' = view s \<or> good_path ?p
      \<and> (\<exists>m. view s' = (view s)(?p \<mapsto> m) \<and> is_dir m ?p (SanitizeMode mode) uid gid)"
    using s' step by (auto split: if_splits)
qed

lemma remove_step:
  assumes "inv s" and "remove (T f) s path name kind = (e, s')"
  shows "inv s'" and "held s' \<subseteq> held s"
    and "view s' = view s \<or> (\<exists>m m'. view s (child path name) = Some m \<and> Kind m = kind \<and> \<not> Deleted m
           \<and> view s' = (view s)(child path name \<mapsto> m') \<and> Deleted m')"
    and "e = None \<Longrightarrow> \<exists>m. view s' = (view s)(child path name \<mapsto> m) \<and> Deleted m"
proof -
  let ?p = "child path name"
  obtain e1 s1 where del: "t_Delete (T f) s ?p = (e1, s1)" by fastforce
  note step = Delete_step [OF assms(1) del]
  have run: "e \<noteq> None \<and> s' = s \<or> (\<exists>m. live_entry (T f) s ?p = Some m \<and> Kind m = kind \<and> (e = None \<longleftrightarrow> e1 = None) \<and> s' = s1)"
    using assms(2) del by (auto simp: remove_def Let_def split: option.splits if_splits)
  have live: "live_entry (T f) s ?p = Some m \<Longrightarrow> view s ?p = Some (replicated m) \<and> \<not> Deleted m \<and> live_in (view s) ?p" for m
    using live_entry_view [OF assms(1)] by (force simp: live_in_def)
  show "inv s'" "held s' \<subseteq> held s" using run assms(1) step by auto
  show "view s' = view s \<or> (\<exists>m m'. view s ?p = Some m \<and> Kind m = kind \<and> \<not> Deleted m
           \<and> view s' = (view s)(?p \<mapsto> m') \<and> Deleted m')"
    using run live step by (auto split: if_splits)
  show "e = None \<Longrightarrow> \<exists>m. view s' = (view s)(?p \<mapsto> m) \<and> Deleted m"
    using run live step by (auto split: if_splits)
qed

lemma no_children:
  assumes "inv s" and "t_Live (T f) s = Inr es" and "\<not> (\<exists>m \<in> set es. HasPrefix (Path m) (p @ ''/''))"
  shows "\<not> live_in (view s) (p @ CHR ''/'' # q)"
proof
  assume "live_in (view s) (p @ CHR ''/'' # q)"
  then obtain m where "m \<in> set es" "Path m = (p @ ''/'') @ q" using Live_iff [OF assms(1,2)] by auto
  then show False using assms(3) HasPrefix_append by metis
qed

lemma Rmdir_step:
  assumes "inv s" and "Rmdir (T f) s path name = (e, s')"
  shows "inv s'"
    and "view s' = view s \<or> (\<forall>q. \<not> live_in (view s) (child path name @ CHR ''/'' # q))
           \<and> (\<exists>m'. view s' = (view s)(child path name \<mapsto> m') \<and> Deleted m')"
proof -
  show "inv s'" using assms remove_step(1) [OF assms(1)]
    by (auto simp: Rmdir_def Let_def split: sum.splits if_splits)
  show "view s' = view s \<or> (\<forall>q. \<not> live_in (view s) (child path name @ CHR ''/'' # q))
           \<and> (\<exists>m'. view s' = (view s)(child path name \<mapsto> m') \<and> Deleted m')"
  proof (cases "s' = s")
    case False
    then obtain es where es: "t_Live (T f) s = Inr es" "\<not> (\<exists>m \<in> set es. HasPrefix (Path m) (child path name @ ''/''))"
      and rm: "remove (T f) s path name KindDir = (e, s')"
      using assms(2) by (auto simp: Rmdir_def Let_def split: sum.splits if_splits)
    show ?thesis using remove_step(3) [OF assms(1) rm] no_children [OF assms(1) es] by blast
  qed simp
qed

lemma Rename_copy_dir:
  assumes "inv s" and "Kind m = KindDir" and "Rename_copy (T f) s source dest m = (e, s')"
  shows "inv s' \<and> (if e = None then (\<forall>q. \<not> live_in (view s) (source @ CHR ''/'' # q))
           \<and> (\<exists>m'. view s' = (view s)(dest \<mapsto> m') \<and> is_dir m' dest (Mode m) (UID m) (GID m))
         else view s' = view s)"
proof -
  obtain e1 s1 where put: "t_PutDir (T f) s dest (Mode m) (UID m) (GID m) = (e1, s1)" by fastforce
  show ?thesis
  proof (cases "s' = s \<and> e \<noteq> None")
    case True
    then show ?thesis using assms(1) by auto
  next
    case False
    then obtain es where es: "t_Live (T f) s = Inr es" "\<not> (\<exists>m \<in> set es. HasPrefix (Path m) (source @ ''/''))"
      and s1: "s' = s1" "e = None \<longleftrightarrow> e1 = None"
      using assms(2,3) put by (auto simp: Rename_copy_def split: sum.splits if_splits option.splits)
    show ?thesis
      using s1 PutDir_step [OF assms(1) put] no_children [OF assms(1) es] by (auto split: if_splits)
  qed
qed

lemma Rename_copy_file:
  assumes "inv s" and "Kind m = KindFile" and "Rename_copy (T f) s source dest m = (e, s')"
  shows "inv s' \<and> (if e = None then \<exists>c m'. Hash m = HashContent c
           \<and> view s' = (view s)(dest \<mapsto> m') \<and> is_file m' dest c (Mode m) (UID m) (GID m)
         else view s' = view s)"
proof -
  have kinds: "KindFile \<noteq> KindDir" by (simp add: KindDir_def KindFile_def)
  show ?thesis
  proof (cases "t_Content (T f) s (Hash m)")
    case (Inl x)
    then show ?thesis using assms kinds by (auto simp: Rename_copy_def)
  next
    case (Inr c)
    obtain e1 s1 where put: "t_PutFile (T f) s dest c (Mode m) (UID m) (GID m) = (e1, s1)" by fastforce
    then have "s' = s1" "e = None \<longleftrightarrow> e1 = None"
      using assms(2,3) Inr kinds by (auto simp: Rename_copy_def split: option.splits)
    then show ?thesis
      using PutFile_step [OF assms(1) put] Content_Inr [OF assms(1) Inr]
      by (auto split: if_splits intro!: exI [of _ c])
  qed
qed

lemma Rename_runs:
  assumes "Rename (T f) s path name (Some target) newName flags = (e, s')"
  shows "e \<noteq> None \<and> s' = s
       \<or> (\<exists>m e1 s1. live_entry (T f) s (child path name) = Some m \<and> good_path (child target newName)
            \<and> Rename_copy (T f) s (child path name) (child target newName) m = (e1, s1)
            \<and> (if e1 \<noteq> None then e = e1 \<and> s' = s1
               else \<exists>e2. t_Delete (T f) s1 (child path name) = (e2, s') \<and> (e = None \<longleftrightarrow> e2 = None)))"
proof (cases "good_path (child target newName)")
  case False
  then show ?thesis using assms by (auto simp: Rename_def Let_def SanitizePath_bad)
next
  case True
  then show ?thesis using assms
    by (auto simp: Rename_def Let_def split: option.splits prod.splits)
qed

lemma Setattr_attrs_step:
  assumes "inv s" and "Setattr_attrs (T f) s p m req = (r, s')"
  shows "inv s'" and "view s' = view s \<or> (\<exists>m0 m1. view s p = Some m0 \<and> \<not> Deleted m0
      \<and> view s' = (view s)(p \<mapsto> m1) \<and> \<not> Deleted m1 \<and> Kind m1 = Kind m0 \<and> Hash m1 = Hash m0)"
proof -
  have run: "s' = s \<or> (\<exists>mode uid gid e1. t_SetAttr (T f) s p mode uid gid = (e1, s'))"
    using assms(2) unfolding Setattr_attrs_def Let_def by (simp split: if_splits prod.splits option.splits) blast+
  show "inv s'" using run assms(1) SetAttr_step [OF assms(1)] by blast
  show "view s' = view s \<or> (\<exists>m0 m1. view s p = Some m0 \<and> \<not> Deleted m0
      \<and> view s' = (view s)(p \<mapsto> m1) \<and> \<not> Deleted m1 \<and> Kind m1 = Kind m0 \<and> Hash m1 = Hash m0)"
    using run SetAttr_step [OF assms(1)] by (metis (no_types, lifting))
qed

lemma Setattr_size_step:
  assumes "inv s" and "Setattr_size (T f) s p m sz = Some (r, s')"
  shows "inv s'" and "r = Inl e \<Longrightarrow> view s' = view s"
    and "r = Inr m' \<Longrightarrow> \<exists>c d. t_Content (T f) s (Hash m) = Inr c \<and> resized c sz = Some d
           \<and> (\<exists>m1. view s' = (view s)(p \<mapsto> m1) \<and> is_file m1 p d (Mode m) (UID m) (GID m))"
    and "r = Inr m' \<Longrightarrow> m' = m\<lparr>Size := Size m'\<rparr>"
  using assms(2)
proof (atomize (full), goal_cases)
  case 1
  show ?case
  proof (cases "\<exists>c d. t_Content (T f) s (Hash m) = Inr c \<and> resized c sz = Some d \<and> \<not> sint sz > t_MaxFileSize (T f) s")
    case True
    then obtain c d where cd: "t_Content (T f) s (Hash m) = Inr c" "resized c sz = Some d" "\<not> sint sz > t_MaxFileSize (T f) s"
      by blast
    obtain e1 s1 where put: "t_PutFile (T f) s p d (Mode m) (UID m) (GID m) = (e1, s1)" by fastforce
    then show ?thesis using assms cd PutFile_step [OF assms(1) put]
      by (auto simp: Setattr_size_def split: option.splits if_splits)
  next
    case False
    then show ?thesis using assms by (auto simp: Setattr_size_def split: sum.splits option.splits if_splits)
  qed
qed

end

section \<open>The namespace\<close>

text \<open>
  Every live entry is a file or a directory and has a live directory above it. The kernel calls an operation only on a directory it has
  looked up, refuses to replace a directory by a file and to move a directory below itself: those are the
  guards of \<open>mount_step\<close>. The guard of a flush is not one the kernel gives: the file may have been
  unlinked since it was opened.
\<close>

definition live_dir :: "(string \<Rightarrow> Meta option) \<Rightarrow> string \<Rightarrow> bool" where
  "live_dir v p \<longleftrightarrow> (\<exists>m. v p = Some m \<and> \<not> Deleted m \<and> Kind m = KindDir)"

definition parent_ok :: "(string \<Rightarrow> Meta option) \<Rightarrow> string \<Rightarrow> bool" where
  "parent_ok v path \<longleftrightarrow> path = '''' \<or> live_dir v path"

definition namespace_ok :: "(string \<Rightarrow> Meta option) \<Rightarrow> bool" where
  "namespace_ok v \<longleftrightarrow>
     (\<forall>p m. v p = Some m \<longrightarrow> \<not> Deleted m \<longrightarrow> Valid (Kind m))
     \<and> (\<forall>path name. path \<noteq> '''' \<longrightarrow> CHR ''/'' \<notin> set name \<longrightarrow> live_in v (path @ CHR ''/'' # name) \<longrightarrow> live_dir v path)"

inductive mount_step :: "('f \<Rightarrow> 's Tree) \<Rightarrow> ('s \<Rightarrow> string \<Rightarrow> Meta option) \<Rightarrow> 's \<Rightarrow> 's \<Rightarrow> bool" for T view where
  ms_create: "parent_ok (view s) path \<Longrightarrow> CHR ''/'' \<notin> set name \<Longrightarrow> \<not> live_dir (view s) (child path name) \<Longrightarrow>
    mount_step T view s (snd (Create (T f) s path name mode uid gid))"
| ms_mkdir: "parent_ok (view s) path \<Longrightarrow> CHR ''/'' \<notin> set name \<Longrightarrow>
    mount_step T view s (snd (Mkdir (T f) s path name mode uid gid))"
| ms_unlink: "mount_step T view s (snd (Unlink (T f) s path name))"
| ms_rmdir: "mount_step T view s (snd (Rmdir (T f) s path name))"
| ms_rename: "parent_ok (view s) target \<Longrightarrow> CHR ''/'' \<notin> set newName \<Longrightarrow> target \<noteq> child path name \<Longrightarrow>
    (live_dir (view s) (child target newName) \<Longrightarrow> live_dir (view s) (child path name)) \<Longrightarrow>
    mount_step T view s (snd (Rename (T f) s path name (Some target) newName flags))"
| ms_setattr: "Setattr (T f) s path fh req = Some (r, s') \<Longrightarrow> mount_step T view s s'"
| ms_flush: "h_path h = child path name \<Longrightarrow> parent_ok (view s) path \<Longrightarrow> CHR ''/'' \<notin> set name \<Longrightarrow>
    \<not> live_dir (view s) (h_path h) \<Longrightarrow> mount_step T view s (snd (snd (Flush (T f) s h)))"

lemma last_element_unique:
  assumes "CHR ''/'' \<notin> set name" and "CHR ''/'' \<notin> set name'"
  shows "path @ CHR ''/'' # name = path' @ CHR ''/'' # name' \<longleftrightarrow> path = path' \<and> name = name'"
  using assms by (auto simp: append_eq_append_conv2 Cons_eq_append_conv append_eq_Cons_conv)

lemma child_slash:
  assumes "CHR ''/'' \<notin> set name" and "CHR ''/'' \<notin> set name'" and "path' \<noteq> ''''"
  shows "child path name = path' @ CHR ''/'' # name' \<longleftrightarrow> path = path' \<and> name = name'"
  using assms last_element_unique [OF assms(1,2)] by (auto simp: child_def)

lemma namespace_put:
  assumes "namespace_ok v" and "parent_ok v path" and "CHR ''/'' \<notin> set name" and "\<not> Deleted m"
    and "Kind m = KindDir \<or> Kind m = KindFile \<and> \<not> live_dir v (child path name)"
  shows "namespace_ok (v(child path name \<mapsto> m))"
  unfolding namespace_ok_def
proof (intro allI impI conjI)
  fix p m'
  show "(v(child path name \<mapsto> m)) p = Some m' \<Longrightarrow> \<not> Deleted m' \<Longrightarrow> Valid (Kind m')"
    using assms(1,5) by (auto simp: namespace_ok_def Valid_def split: if_splits)
next
  fix path' name'
  assume p': "path' \<noteq> ''''" "CHR ''/'' \<notin> set name'" "live_in (v(child path name \<mapsto> m)) (path' @ CHR ''/'' # name')"
  have "live_dir v path'"
  proof (cases "child path name = path' @ CHR ''/'' # name'")
    case True
    then show ?thesis using child_slash [OF assms(3) p'(2,1)] assms(2) p'(1) by (simp add: parent_ok_def)
  next
    case False
    then have "live_in v (path' @ CHR ''/'' # name')" using p'(3) by (auto simp: live_in_def)
    then show ?thesis using assms(1) p'(1,2) by (simp add: namespace_ok_def)
  qed
  then show "live_dir (v(child path name \<mapsto> m)) path'"
    using assms(4,5) by (auto simp: live_dir_def)
qed

lemma namespace_delete:
  assumes "namespace_ok v" and "Deleted m" 
    and "\<And>name. p \<noteq> '''' \<Longrightarrow> CHR ''/'' \<notin> set name \<Longrightarrow> \<not> live_in v (p @ CHR ''/'' # name)"
  shows "namespace_ok (v(p \<mapsto> m))"
  using assms by (fastforce simp: namespace_ok_def live_dir_def live_in_def split: if_splits)

lemma namespace_same:
  assumes "namespace_ok v" and "v p = Some m0" and "\<not> Deleted m0" and "\<not> Deleted m" and "Kind m = Kind m0"
  shows "namespace_ok (v(p \<mapsto> m))"
proof -
  have "live_dir (v(p \<mapsto> m)) q = live_dir v q" "live_in (v(p \<mapsto> m)) q = live_in v q" for q
    using assms(2-5) by (auto simp: live_dir_def live_in_def)
  then show ?thesis using assms by (auto simp: namespace_ok_def)
qed

lemma namespace_kind: "namespace_ok v \<Longrightarrow> v p = Some m \<Longrightarrow> \<not> Deleted m \<Longrightarrow> Kind m = KindFile \<or> Kind m = KindDir"
  by (simp add: namespace_ok_def Valid_def)

lemma file_has_no_children:
  assumes "namespace_ok v" and "v p = Some m" and "Kind m \<noteq> KindDir" and "p \<noteq> ''''" and "CHR ''/'' \<notin> set name"
  shows "\<not> live_in v (p @ CHR ''/'' # name)"
  using assms by (auto simp: namespace_ok_def live_dir_def)

context tree_contract
begin

lemma Rename_namespace:
  assumes "inv s" and "namespace_ok (view s)" and "parent_ok (view s) target" and "CHR ''/'' \<notin> set newName"
    and "target \<noteq> child path name" and "live_dir (view s) (child target newName) \<Longrightarrow> live_dir (view s) (child path name)"
    and "Rename (T f) s path name (Some target) newName flags = (e, s')"
  shows "inv s' \<and> namespace_ok (view s')"
  using Rename_runs [OF assms(7)]
proof (elim disjE conjE exE)
  fix m e1 s1
  let ?p = "child path name" and ?q = "child target newName"
  assume live: "live_entry (T f) s ?p = Some m" and cp: "Rename_copy (T f) s ?p ?q m = (e1, s1)"
    and rest: "if e1 \<noteq> None then e = e1 \<and> s' = s1
               else \<exists>e2. t_Delete (T f) s1 ?p = (e2, s') \<and> (e = None \<longleftrightarrow> e2 = None)"
  have m: "view s ?p = Some (replicated m)" "\<not> Deleted m" using live_entry_view [OF assms(1) live] by simp_all
  then have k: "Kind m = KindFile \<or> Kind m = KindDir" using namespace_kind [OF assms(2) m(1)] by simp
  have kinds: "KindFile \<noteq> KindDir" by (simp add: KindFile_def KindDir_def)
  have nodir: "Kind m = KindFile \<Longrightarrow> \<not> live_dir (view s) ?q"
    using assms(6) m kinds by (auto simp: live_dir_def)
  have inv1: "inv s1" and v1: "e1 \<noteq> None \<Longrightarrow> view s1 = view s"
    and v2: "e1 = None \<Longrightarrow> \<exists>m'. view s1 = (view s)(?q \<mapsto> m') \<and> \<not> Deleted m' \<and> Kind m' = Kind m"
    and empty: "e1 = None \<Longrightarrow> Kind m = KindDir \<Longrightarrow> \<not> live_in (view s) (?p @ CHR ''/'' # n)" for n
    using k Rename_copy_dir [OF assms(1) _ cp] Rename_copy_file [OF assms(1) _ cp] kinds
    by (auto simp: is_file_def is_dir_def split: if_splits)
  have alone: "\<not> live_in (view s) (?p @ CHR ''/'' # n)" if "e1 = None" "?p \<noteq> ''''" "CHR ''/'' \<notin> set n" for n
    using k empty [OF that(1)] file_has_no_children [OF assms(2) m(1)] that kinds by auto
  show ?thesis
  proof (cases e1)
    case None
    then obtain m' where m': "view s1 = (view s)(?q \<mapsto> m')" "\<not> Deleted m'" "Kind m' = Kind m" using v2 by blast
    have ns1: "namespace_ok (view s1)"
      unfolding m'(1) by (rule namespace_put [OF assms(2,3,4) m'(2)]) (use m'(3) k nodir in auto)
    obtain e2 where del: "t_Delete (T f) s1 ?p = (e2, s')" using rest None by auto
    have "\<not> live_in (view s1) (?p @ CHR ''/'' # n)" if "?p \<noteq> ''''" "CHR ''/'' \<notin> set n" for n
      using alone [OF None that] child_slash [OF assms(4) that(2,1), of target] assms(5) by (auto simp: m'(1) live_in_def)
    then have "Deleted d \<Longrightarrow> namespace_ok ((view s1)(?p \<mapsto> d))" for d
      using namespace_delete [OF ns1] by blast
    then show ?thesis using Delete_step [OF inv1 del] ns1 by (auto split: if_splits)
  qed (use rest inv1 v1 assms(2) in auto)
qed (use assms in auto)

lemma Setattr_namespace:
  assumes "inv s" and "namespace_ok (view s)" and "Setattr (T f) s path fh req = Some (r, s')"
  shows "inv s' \<and> namespace_ok (view s')"
proof -
  have attrs: "inv s' \<and> namespace_ok (view s')"
    if "inv s1" "namespace_ok (view s1)" "Setattr_attrs (T f) s1 path m req = (r, s')" for s1 m
    using Setattr_attrs_step [OF that(1,3)] namespace_same [OF that(2)] that(2) by auto
  consider "s' = s" | m where "Setattr_attrs (T f) s path m req = (r, s')"
    | m sz r1 s1 where "live_entry (T f) s path = Some m" "Kind m = KindFile"
        "Setattr_size (T f) s path m sz = Some (r1, s1)"
        "case r1 of Inl e \<Rightarrow> s' = s1 | Inr m1 \<Rightarrow> Setattr_attrs (T f) s1 path m1 req = (r, s')"
    using assms(3) by (auto simp: Setattr_def split: if_splits option.splits sum.splits prod.splits)
  then show ?thesis
  proof cases
    case (3 m sz r1 s1)
    note step = Setattr_size_step [OF assms(1) 3(3)]
    have m: "view s path = Some (replicated m)" "\<not> Deleted m"
      using live_entry_view [OF assms(1) 3(1)] by simp_all
    have "namespace_ok (view s1)"
    proof (cases r1)
      case (Inr m1)
      then obtain m2 where "view s1 = (view s)(path \<mapsto> m2)" "Kind m2 = KindFile" "\<not> Deleted m2"
        using step(3) by (auto simp: is_file_def)
      then show ?thesis using namespace_same [OF assms(2) m(1)] m 3(2) by simp
    qed (use step(2) assms(2) in simp)
    then show ?thesis using 3(4) attrs [OF step(1)] step(1) by (cases r1) auto
  qed (use assms attrs in auto)
qed

lemma mount_step_namespace:
  assumes "mount_step T view s s'" and "inv s" and "namespace_ok (view s)"
  shows "inv s' \<and> namespace_ok (view s')"
  using assms(1)
proof cases
  case (ms_create path name f mode uid gid)
  obtain r where run: "Create (T f) s path name mode uid gid = (r, s')" using ms_create(1) by (metis prod.collapse)
  show ?thesis using Create_step [OF assms(2) run] namespace_put [OF assms(3) ms_create(2,3)] ms_create(4) assms(3)
    by (auto simp: is_file_def)
next
  case (ms_mkdir path name f mode uid gid)
  obtain r where run: "Mkdir (T f) s path name mode uid gid = (r, s')" using ms_mkdir(1) by (metis prod.collapse)
  show ?thesis using Mkdir_step [OF assms(2) run] namespace_put [OF assms(3) ms_mkdir(2,3)] assms(3)
    by (auto simp: is_dir_def)
next
  case (ms_unlink f path name)
  obtain e where run: "remove (T f) s path name KindFile = (e, s')" using ms_unlink by (metis Unlink_def prod.collapse)
  have "KindFile \<noteq> KindDir" by (simp add: KindFile_def KindDir_def)
  then show ?thesis using remove_step(1,3) [OF assms(2) run] namespace_delete [OF assms(3)]
    file_has_no_children [OF assms(3)] assms(3) by fastforce
next
  case (ms_rmdir f path name)
  obtain e where run: "Rmdir (T f) s path name = (e, s')" using ms_rmdir by (metis prod.collapse)
  show ?thesis using Rmdir_step [OF assms(2) run] namespace_delete [OF assms(3)] assms(3) by auto
next
  case (ms_rename target newName path name f flags)
  obtain e where run: "Rename (T f) s path name (Some target) newName flags = (e, s')" using ms_rename(1) by (metis prod.collapse)
  show ?thesis using Rename_namespace [OF assms(2,3) ms_rename(2,3,4) _ run] ms_rename(5) by blast
next
  case (ms_setattr f path fh req r)
  then show ?thesis using Setattr_namespace [OF assms(2,3)] by blast
next
  case (ms_flush h path name f)
  obtain e h' where run: "Flush (T f) s h = (e, h', s')" using ms_flush(1) by (metis prod.collapse)
  show ?thesis
  proof (cases "h_dirty h \<and> e = None")
    case True
    then show ?thesis using Flush_step(1,5) [OF assms(2) run] namespace_put [OF assms(3) ms_flush(3,4)] ms_flush(2,5)
      by (auto simp: is_file_def)
  next
    case False
    then show ?thesis using Flush_step(1,3,4) [OF assms(2) run] assms(3) by auto
  qed
qed

end

section \<open>Renaming\<close>

definition moved :: "Meta \<Rightarrow> Meta \<Rightarrow> string \<Rightarrow> bool" where
  "moved m m' p \<longleftrightarrow> Path m' = p \<and> \<not> Deleted m' \<and> Kind m' = Kind m \<and> (Kind m = KindFile \<longrightarrow> Hash m' = Hash m)
     \<and> has_attrs m' (Mode m) (UID m) (GID m)"

context tree_contract
begin

lemma Rename_copy_moved:
  assumes "inv s" and "Valid (Kind m)" and "Rename_copy (T f) s source dest m = (e, s')"
  shows "inv s' \<and> (if e = None then \<exists>m'. view s' = (view s)(dest \<mapsto> m') \<and> moved m m' dest else view s' = view s)"
proof (cases "Kind m = KindDir")
  case True
  then show ?thesis using Rename_copy_dir [OF assms(1) True assms(3)]
    by (auto simp: moved_def is_dir_def KindFile_def KindDir_def split: if_splits)
next
  case False
  then have k: "Kind m = KindFile" using assms(2) by (simp add: Valid_def)
  then show ?thesis using Rename_copy_file [OF assms(1) k assms(3)]
    by (auto simp: moved_def is_file_def split: if_splits)
qed

lemma Rename_effect:
  assumes "inv s" and "\<forall>m. view s (child path name) = Some m \<longrightarrow> Valid (Kind m)"
    and "child path name \<noteq> child target newName"
    and "Rename (T f) s path name (Some target) newName flags = (e, s')"
  shows "inv s' \<and> (if e = None then \<exists>m m' d. view s (child path name) = Some m \<and> \<not> Deleted m
               \<and> view s' = (view s)(child target newName \<mapsto> m', child path name \<mapsto> d)
               \<and> moved m m' (child target newName) \<and> Deleted d
             else view s' = view s \<or> (\<exists>m m'. view s (child path name) = Some m
               \<and> view s' = (view s)(child target newName \<mapsto> m') \<and> moved m m' (child target newName)))"
  using Rename_runs [OF assms(4)]
proof (elim disjE conjE exE)
  fix m e1 s1
  let ?p = "child path name" and ?q = "child target newName"
  assume live: "live_entry (T f) s ?p = Some m" and cp: "Rename_copy (T f) s ?p ?q m = (e1, s1)"
    and rest: "if e1 \<noteq> None then e = e1 \<and> s' = s1
               else \<exists>e2. t_Delete (T f) s1 ?p = (e2, s') \<and> (e = None \<longleftrightarrow> e2 = None)"
  have m: "view s ?p = Some (replicated m)" "\<not> Deleted m" using live_entry_view [OF assms(1) live] by simp_all
  then have copied: "inv s1 \<and> (if e1 = None then \<exists>m'. view s1 = (view s)(?q \<mapsto> m') \<and> moved m m' ?q else view s1 = view s)"
    using Rename_copy_moved [OF assms(1) _ cp] assms(2) by force
  show ?thesis
  proof (cases e1)
    case None
    then obtain m' where m': "view s1 = (view s)(?q \<mapsto> m')" "moved (replicated m) m' ?q"
      using copied by (auto simp: moved_def)
    obtain e2 where del: "t_Delete (T f) s1 ?p = (e2, s')" "e = None \<longleftrightarrow> e2 = None" using rest None by auto
    have "live_in (view s1) ?p" using m m'(1) assms(3) by (auto simp: live_in_def)
    moreover have "inv s1" using copied by simp
    ultimately show ?thesis
      using Delete_step [OF _ del(1)] del(2) m m' by (auto split: if_splits)
  qed (use rest copied in auto)
qed (use assms(1) in auto)

lemma Rename_then_Flush:
  assumes "inv s" and "view s (h_path h) = Some m" and "Kind m = KindFile" and "h_dirty h"
    and "h_path h = child path name" and "h_path h \<noteq> child target newName"
    and "Rename (T f) s path name (Some target) newName flags = (None, s1)"
    and "Flush (T g) s1 h = (None, h', s2)"
  shows "\<exists>m' m1. view s2 (child target newName) = Some m' \<and> moved m m' (child target newName)
      \<and> view s2 (h_path h) = Some m1 \<and> is_file m1 (h_path h) (h_buf h) (h_mode h) (h_uid h) (h_gid h)"
proof -
  have "inv s1 \<and> (\<exists>m' d. view s1 = (view s)(child target newName \<mapsto> m', h_path h \<mapsto> d) \<and> moved m m' (child target newName))"
    using Rename_effect [OF assms(1) _ _ assms(7)] assms(2,3,5,6) by (auto simp: Valid_def)
  then show ?thesis using Flush_step(5) [OF _ assms(8,4)] assms(6) by fastforce
qed

lemma truncate_then_Flush:
  assumes "inv s" and "Open (T f) s p flags = Inr (WHandle h)" and "flags AND O_TRUNC = 0"
    and "Setattr (T f) s p (Some (WHandle h)) \<lparr>in_Size = Some 0, in_Mode = None, in_UID = None, in_GID = None\<rparr> = Some (Inr at, s1)"
    and "data \<noteq> []" and "int (length data) \<le> limit" and "int (length data) \<le> max_int64"
    and "Write limit h data 0 = Some (Inr n, h')" and "Flush (T g) s1 h' = (None, h'', s2)"
  shows "\<exists>old m m1. view s p = Some m \<and> Hash m = HashContent old
      \<and> view s1 p = Some m1 \<and> Hash m1 = HashContent []
      \<and> (\<exists>m2. view s2 p = Some m2 \<and> \<not> Deleted m2 \<and> Hash m2 = HashContent (data @ drop (length data) old))"
proof -
  obtain m c where m: "live_entry (T f) s p = Some m" "Kind m = KindFile" "t_Content (T f) s (Hash m) = Inr c"
    and h: "h_buf h = c" "h_path h = p" "h_mode h = Mode m" "h_uid h = UID m" "h_gid h = GID m"
    using assms(2,3) by (auto simp: Open_def Let_def split: option.splits if_splits sum.splits)
  have v: "view s p = Some (replicated m)" "Hash m = HashContent c"
    using live_entry_view [OF assms(1) m(1)] Content_Inr [OF assms(1) m(3)] by simp_all
  have "p \<noteq> ''''" using assms(4) by (auto simp: Setattr_def)
  then obtain m' where sz: "Setattr_size (T f) s p m 0 = Some (Inr m', s1)"
    using assms(4) m(1,2) by (auto simp: Setattr_def Setattr_attrs_def split: option.splits sum.splits prod.splits if_splits)
  note step = Setattr_size_step [OF assms(1) sz]
  have "resized c 0 = Some []" by (simp add: resized_def)
  then obtain m1 where m1: "view s1 = (view s)(p \<mapsto> m1)" "Hash m1 = HashContent []"
    using step(3) [of m'] m(3) by (auto simp: is_file_def)
  have "pwrite c 0 data = data @ drop (length data) c"
    by (rule nth_equalityI) (auto simp: nth_pwrite nth_append)
  then have h': "h' = h\<lparr>h_buf := data @ drop (length data) c, h_dirty := True\<rparr>"
    using Write_ok [of 0 data limit h] assms(6-8) h(1) by simp
  obtain m2 where m2: "view s2 = (view s1)(p \<mapsto> m2)" "is_file m2 p (data @ drop (length data) c) (Mode m) (UID m) (GID m)"
    using Flush_step(5) [OF step(1) assms(9)] h h' by auto
  show ?thesis using v m1 m2 by (auto simp: is_file_def)
qed

end

section \<open>Properties\<close>

text \<open>C23. Listing a directory and looking up a name in it agree: \<^verbatim>\<open>Readdir\<close> lists every name once, what \<^verbatim>\<open>Lookup\<close>
  finds is listed with the same inode number and type, and a listed name is found unless its path is one
  that the tree does not take, which for a stored entry is the overlong name of a conflict copy.\<close>

theorem Readdir_agrees_with_Lookup:
  assumes "sound_service s" and "reads_up env" and "name \<noteq> ''''" and "CHR ''/'' \<notin> set name"
  shows "\<exists>ds. Readdir (syncer_tree env) s path = Inr ds \<and> distinct (map d_Name ds)
      \<and> (case Lookup (syncer_tree env) s path name of
           Inl e \<Rightarrow> e = ENOENT \<and> (name \<in> d_Name ` set ds \<longrightarrow> \<not> good_path (child path name))
         | Inr (p, (md, ino), at) \<Rightarrow>
             p = child path name \<and> a_Ino at = ino \<and> \<lparr>d_Name = name, d_Mode = md, d_Ino = ino\<rparr> \<in> set ds)"
proof -
  obtain ms where "t_Live (syncer_tree env) s = Inr ms" using syncer_tree.Live_up [OF assms(2)] by blast
  then obtain ds where "Readdir (syncer_tree env) s path = Inr ds" by (simp add: Readdir_def)
  then show ?thesis using syncer_tree.Readdir_set(1) [OF assms(1)] syncer_tree.Readdir_Lookup [OF assms]
    by blast
qed

abbreviation no_faults :: "dbfault \<times> int" where
  "no_faults \<equiv> (\<lambda>_. False, 5000)"

lemma example_sound [simp]: "sound_service example_service" "reads_up no_faults"
  using example_service_inv by (simp_all add: sound_service_def reads_up_def)

theorem Readdir_agrees_with_Lookup_witness:
  "\<exists>ds. Readdir (syncer_tree no_faults) example_service '''' = Inr ds \<and> ''d'' \<in> d_Name ` set ds"
proof -
  have "\<exists>x. Lookup (syncer_tree no_faults) example_service '''' ''d'' = Inr x"
    by (simp add: Lookup_def child_def live_entry_def Service_Get_def Get_eq example_rows)
      (simp add: example_store_def rowOf_def)
  then show ?thesis
    using Readdir_agrees_with_Lookup [OF example_sound, of "''d''" "''''"] by force
qed

text \<open>C22. \<^verbatim>\<open>Write\<close> refines \<^verbatim>\<open>pwrite\<close>: a write that would end past the size limit is refused with \<^verbatim>\<open>EFBIG\<close> and changes
  nothing; any other write puts the data at the offset, fills a gap with zero bytes, leaves every other byte, reports its full
  length, and reading the same range of the handle gives the data back. No slice expression panics while
  offset plus length fits 63 bits.\<close>

theorem Write_refines_pwrite:
  assumes "int (off + length data) \<le> max_int64"
  shows "Write limit h data (int off) =
           (if int (off + length data) > limit then Some (Inl EFBIG, h)
            else Some (Inr (length data), h\<lparr>h_buf := pwrite (h_buf h) off data, h_dirty := True\<rparr>))
       \<and> Read (WHandle (h\<lparr>h_buf := pwrite (h_buf h) off data\<rparr>)) (int off) (length data) = Some data"
  using Write_ok [OF _ assms, of limit h] Write_too_big [OF _ assms, of limit h] read_at_eq [OF assms] drop_pwrite
  by (simp add: not_less)

definition example_handle :: writeHandle where
  "example_handle = \<lparr>h_path = ''f'', h_buf = ''abcdef'', h_mode = 420, h_uid = 0, h_gid = 0, h_dirty = True\<rparr>"

theorem Write_refines_pwrite_witness:
  "Write 100 example_handle ''XY'' 7 =
     Some (Inr 2, example_handle\<lparr>h_buf := ''abcdef'' @ [CHR 0x00] @ ''XY'', h_dirty := True\<rparr>)
   \<and> Write 8 example_handle ''XY'' 7 = Some (Inl EFBIG, example_handle)"
proof -
  have "pwrite ''abcdef'' 7 ''XY'' = ''abcdef'' @ [CHR 0x00] @ ''XY''" by (simp add: pwrite_def upt_rec)
  then show ?thesis
    using Write_refines_pwrite [of 7 "''XY''" 100 example_handle] Write_refines_pwrite [of 7 "''XY''" 8 example_handle]
    by (simp add: max_int64_def example_handle_def)
qed

text \<open>C21. What was written is read after close: once \<^verbatim>\<open>Flush\<close> of a written handle returns without error, opening
  the path for reading gives exactly the buffer of the handle, and the further flushes of the same handle,
  one per descriptor closed, change nothing.\<close>

theorem Flush_then_Open_reads_buffer:
  assumes "sound_service s" and "h_dirty h" and "Flush (syncer_tree env) s h = (None, h', s')" and "reads_up env'"
    and "\<forall>b \<in> contents_of s. HashContent b = HashContent (h_buf h) \<longrightarrow> b = h_buf h"
  shows "Open (syncer_tree env') s' (h_path h) 0 = Inr (RHandle \<lparr>rh_data = h_buf h\<rparr>)
       \<and> Flush (syncer_tree env') s' h' = (None, h', s')"
  using syncer_tree.Flush_read_back [OF assms] by blast

lemma healthy_step:
  assumes "sound_service s" and "op_refused (\<lambda>_. False) s x = None" and "local_seq (store s) < max_int64"
  shows "\<exists>s'. local_step (\<lambda>_. False) s x = (None, s') \<and> sound_service s' \<and> cfg s' = cfg s
           \<and> local_seq (store s') \<le> local_seq (store s) + 1"
proof -
  obtain s' where step: "local_step (\<lambda>_. False) s x = (None, s')"
    using local_step_succeeds [of s "\<lambda>_. False" x] assms by (metis prod.collapse sound_service_def)
  then show ?thesis
    using local_step_view(1,2) [OF assms(1) step] idle_or_written [OF _ _ step] assms(1)
    by (auto simp: sound_service_def wrote_def)
qed

lemma healthy_Flush:
  assumes "sound_service s" and "local_seq (store s) < max_int64" and "h_dirty h" and "good_path (h_path h)"
    and "int (length (h_buf h)) \<le> MaxFileSize (cfg s)"
  shows "\<exists>s'. Flush (syncer_tree (\<lambda>_. False, w)) s h = (None, h\<lparr>h_dirty := False\<rparr>, s')"
  using healthy_step [OF assms(1) _ assms(2), of "LPutFile (h_path h) (h_buf h) (h_mode h) (h_uid h) (h_gid h)"] assms(3-5)
  by (auto simp: Flush_def)

theorem Flush_then_Open_reads_buffer_witness:
  "\<exists>s'. Flush (syncer_tree no_faults) example_service example_handle = (None, example_handle\<lparr>h_dirty := False\<rparr>, s')
     \<and> Open (syncer_tree no_faults) s' ''f'' 0 = Inr (RHandle \<lparr>rh_data = ''abcdef''\<rparr>)"
proof -
  have "contents_of example_service = {}" by (simp add: contents_of_def) (simp add: example_store_def)
  moreover obtain s' where s': "Flush (syncer_tree no_faults) example_service example_handle = (None, example_handle\<lparr>h_dirty := False\<rparr>, s')"
    using healthy_Flush [of example_service example_handle 5000] example_seq
    by (auto simp: example_handle_def max_int64_def)
  ultimately show ?thesis
    using Flush_then_Open_reads_buffer [OF example_sound(1) _ s' example_sound(2)] s'
    by (auto simp: example_handle_def)
qed

text \<open>C24. \<^verbatim>\<open>Rename\<close> moves: without error the old path holds a tombstone, the new one a live entry of the same
  kind, content, owner and sanitized mode, and no other path has changed. With an error either nothing
  has changed or only the copy has been made. This is so for every value of the flags, which the code
  ignores: a request to exchange two files overwrites one of them.\<close>

theorem Rename_moves:
  assumes "sound_service s" and "\<forall>m. tree (store s) (child path name) = Some m \<longrightarrow> Valid (Kind m)"
    and "child path name \<noteq> child target newName"
    and "Rename (syncer_tree env) s path name (Some target) newName flags = (e, s')"
  shows "if e = None then \<exists>m m' d. tree (store s) (child path name) = Some m \<and> \<not> Deleted m
               \<and> tree (store s') = (tree (store s))(child target newName \<mapsto> m', child path name \<mapsto> d)
               \<and> moved m m' (child target newName) \<and> Deleted d
         else tree (store s') = tree (store s) \<or> (\<exists>m m'. tree (store s) (child path name) = Some m
               \<and> tree (store s') = (tree (store s))(child target newName \<mapsto> m') \<and> moved m m' (child target newName))"
  by (rule conjunct2 [OF syncer_tree.Rename_effect [OF assms]])

theorem Rename_moves_witness:
  "let r = Rename (syncer_tree no_faults) example_service '''' ''d'' (Some '''') ''e'' 0
   in fst r = None \<and> live_in (tree (store (snd r))) ''e'' \<and> \<not> live_in (tree (store (snd r))) ''d''"
proof -
  let ?r = "Rename (syncer_tree no_faults) example_service '''' ''d'' (Some '''') ''e'' 0"
  have ok: "fst ?r = None" by code_simp
  then have run: "?r = (None, snd ?r)" by (metis prod.collapse)
  have "\<forall>m. tree (store example_service) (child '''' ''d'') = Some m \<longrightarrow> Valid (Kind m)"
    by (simp add: tree_def child_def example_rows) (simp add: example_store_def Valid_def rowOf_def)
  then show ?thesis
    using Rename_moves [OF example_sound(1) _ _ run] ok
    by (auto simp: child_def live_in_def moved_def Let_def)
qed

lemma healthy_Rename_file:
  assumes "sound_service s" and "tree (store s) (child path name) = Some m" and "Kind m = KindFile" and "\<not> Deleted m"
    and "good_path (child path name)" and "good_path (child target newName)"
    and "\<forall>b \<in> contents_of s. int (length b) \<le> MaxFileSize (cfg s)" and "local_seq (store s) + 1 < max_int64"
    and "Hash m \<noteq> ''''"
  shows "\<exists>s'. Rename (syncer_tree (\<lambda>_. False, w)) s path name (Some target) newName flags = (None, s')
           \<and> sound_service s' \<and> cfg s' = cfg s \<and> local_seq (store s') \<le> local_seq (store s) + 2"
proof -
  let ?T = "syncer_tree (\<lambda>_. False, w)"
  have up: "reads_up (\<lambda>_. False, w)" by (simp add: reads_up_def)
  obtain n where n: "live_entry ?T s (child path name) = Some n" "replicated n = m"
    using syncer_tree.live_entry_up [OF assms(1) up assms(2,4)] by blast
  have kind: "Kind n = KindFile" "Hash n = Hash m" using n(2) assms(3) by auto
  obtain c where c: "t_Content ?T s (Hash n) = Inr c"
    using syncer_tree.Content_up [OF assms(1) up assms(2)] assms(3,4,9) kind by (auto simp: needs_blob_def)
  then have "int (length c) \<le> MaxFileSize (cfg s)" using syncer_tree.Content_Inr [OF assms(1) c] assms(7) by blast
  then obtain s1 where s1: "t_PutFile ?T s (child target newName) c (Mode n) (UID n) (GID n) = (None, s1)"
    "sound_service s1" "cfg s1 = cfg s" "local_seq (store s1) \<le> local_seq (store s) + 1"
    using healthy_step [OF assms(1), of "LPutFile (child target newName) c (Mode n) (UID n) (GID n)"] assms(6,8) by auto
  obtain s2 where s2: "t_Delete ?T s1 (child path name) = (None, s2)"
    "sound_service s2" "cfg s2 = cfg s1" "local_seq (store s2) \<le> local_seq (store s1) + 1"
    using healthy_step [OF s1(2), of "LDelete w (child path name)"] assms(5,8) s1(4) by auto
  have "Rename ?T s path name (Some target) newName flags = (None, s2)"
    using n(1) kind c s1(1) s2(1) assms(6)
    by (simp add: Rename_def Rename_copy_def Let_def KindFile_def KindDir_def)
  then show ?thesis using s1 s2 by auto
qed

text \<open>A service with one live file.\<close>

definition with_file :: Service where
  "with_file = snd (local_step (\<lambda>_. False) example_service (LPutFile ''f'' ''abc'' 420 0 0))"

lemma with_file_run: "local_step (\<lambda>_. False) example_service (LPutFile ''f'' ''abc'' 420 0 0) = (None, with_file)"
  and with_file_facts: "sound_service with_file" "cfg with_file = cfg example_service"
    "local_seq (store with_file) \<le> 3" "contents_of with_file \<subseteq> {''abc''}"
  and with_file_entry: "\<exists>m. tree (store with_file) ''f'' = Some m \<and> is_file m ''f'' ''abc'' 420 0 0"
proof -
  let ?x = "LPutFile ''f'' ''abc'' 420 0 0"
  obtain s' where s': "local_step (\<lambda>_. False) example_service ?x = (None, s')" "sound_service s'"
    "cfg s' = cfg example_service" "local_seq (store s') \<le> local_seq (store example_service) + 1"
    using healthy_step [OF example_sound(1), of ?x] example_seq by (auto simp: max_int64_def)
  then have eq: "s' = with_file" by (simp add: with_file_def)
  show run: "local_step (\<lambda>_. False) example_service ?x = (None, with_file)" using s'(1) eq by simp
  show "sound_service with_file" "cfg with_file = cfg example_service" "local_seq (store with_file) \<le> 3"
    using s' eq example_seq by simp_all
  have "contents_of example_service = {}" by (simp add: contents_of_def) (simp add: example_store_def)
  then show "contents_of with_file \<subseteq> {''abc''}"
    using local_step_contents [of "\<lambda>_. False" example_service ?x] by (simp add: with_file_def)
  show "\<exists>m. tree (store with_file) ''f'' = Some m \<and> is_file m ''f'' ''abc'' 420 0 0"
    using PutFile_contract [OF example_sound(1) run] by auto
qed

text \<open>Closing a file after it was renamed undoes the rename and loses the data: a handle commits its buffer
  under the path it was opened with. When a written file is renamed before it is closed, the new name
  keeps the content that was committed before the write, and the old name is live again with the new content.\<close>

theorem close_after_rename_restores_old_name:
  assumes "sound_service s" and "tree (store s) (h_path h) = Some m" and "Kind m = KindFile" and "h_dirty h"
    and "h_path h = child path name" and "h_path h \<noteq> child target newName"
    and "Rename (syncer_tree env) s path name (Some target) newName flags = (None, s1)"
    and "Flush (syncer_tree env') s1 h = (None, h', s2)"
  shows "\<exists>m' m1. tree (store s2) (child target newName) = Some m' \<and> moved m m' (child target newName)
      \<and> tree (store s2) (h_path h) = Some m1 \<and> is_file m1 (h_path h) (h_buf h) (h_mode h) (h_uid h) (h_gid h)"
  by (rule syncer_tree.Rename_then_Flush [OF assms])

lemma good_path_g [simp]: "good_path ''g''"
  by (simp add: good_path_def good_element_def plain_element_def MaxPathLen_def MaxNameLen_def)

theorem close_after_rename_restores_old_name_witness:
  "\<exists>s1 s2 m. Rename (syncer_tree no_faults) with_file '''' ''f'' (Some '''') ''g'' 0 = (None, s1)
     \<and> Flush (syncer_tree no_faults) s1 example_handle = (None, example_handle\<lparr>h_dirty := False\<rparr>, s2)
     \<and> tree (store s2) ''g'' = Some m \<and> Hash m = HashContent ''abc'' \<and> live_in (tree (store s2)) ''f''"
proof -
  obtain m where m: "tree (store with_file) ''f'' = Some m" "is_file m ''f'' ''abc'' 420 0 0" using with_file_entry by blast
  then have k: "Kind m = KindFile" "\<not> Deleted m" "Hash m = HashContent ''abc''" by (simp_all add: is_file_def)
  have small: "\<forall>b \<in> contents_of with_file. int (length b) \<le> MaxFileSize (cfg with_file)"
    using with_file_facts(2,4) by auto
  obtain s1 where s1: "Rename (syncer_tree no_faults) with_file '''' ''f'' (Some '''') ''g'' 0 = (None, s1)"
    "sound_service s1" "cfg s1 = cfg example_service" "local_seq (store s1) \<le> 5"
    using healthy_Rename_file [OF with_file_facts(1), of "''''" "''f''" m "''''" "''g''" 5000 0] m(1) k with_file_facts(2,3) small
    by (auto simp: child_def max_int64_def)
  obtain s2 where s2: "Flush (syncer_tree no_faults) s1 example_handle = (None, example_handle\<lparr>h_dirty := False\<rparr>, s2)"
    using healthy_Flush [OF s1(2), of example_handle 5000] s1(3,4) by (auto simp: example_handle_def max_int64_def)
  have "tree (store with_file) (h_path example_handle) = Some m" "h_dirty example_handle"
    "h_path example_handle = child '''' ''f''" "h_path example_handle \<noteq> child '''' ''g''"
    using m(1) by (simp_all add: example_handle_def child_def)
  then show ?thesis
    using close_after_rename_restores_old_name [OF with_file_facts(1) _ k(1) _ _ _ s1(1) s2] s1(1) s2 k
    by (fastforce simp: child_def moved_def is_file_def live_in_def example_handle_def)
qed

text \<open>Truncating a file that is open for writing does not reach its handle: after opening, truncating to
  zero through the handle, writing at the start and closing, the file holds the written bytes followed by the tail of the old
  content.\<close>

theorem truncate_is_undone_by_close:
  assumes "sound_service s" and "Open (syncer_tree env) s p flags = Inr (WHandle h)" and "flags AND O_TRUNC = 0"
    and "Setattr (syncer_tree env) s p (Some (WHandle h)) \<lparr>in_Size = Some 0, in_Mode = None, in_UID = None, in_GID = None\<rparr> = Some (Inr at, s1)"
    and "data \<noteq> []" and "int (length data) \<le> limit" and "int (length data) \<le> max_int64"
    and "Write limit h data 0 = Some (Inr n, h')" and "Flush (syncer_tree env') s1 h' = (None, h'', s2)"
  shows "\<exists>old m m1. tree (store s) p = Some m \<and> Hash m = HashContent old
      \<and> tree (store s1) p = Some m1 \<and> Hash m1 = HashContent []
      \<and> (\<exists>m2. tree (store s2) p = Some m2 \<and> \<not> Deleted m2 \<and> Hash m2 = HashContent (data @ drop (length data) old))"
  by (rule syncer_tree.truncate_then_Flush [OF assms])

theorem truncate_is_undone_by_close_witness:
  "\<exists>h h' at s1 s2 m. Open (syncer_tree no_faults) with_file ''f'' O_RDWR = Inr (WHandle h)
     \<and> Setattr (syncer_tree no_faults) with_file ''f'' (Some (WHandle h))
         \<lparr>in_Size = Some 0, in_Mode = None, in_UID = None, in_GID = None\<rparr> = Some (Inr at, s1)
     \<and> Write 100 h ''X'' 0 = Some (Inr 1, h') \<and> Flush (syncer_tree no_faults) s1 h' = (None, h'\<lparr>h_dirty := False\<rparr>, s2)
     \<and> tree (store s2) ''f'' = Some m \<and> (\<exists>old. HashContent old = HashContent ''abc'' \<and> Hash m = HashContent (''X'' @ drop 1 old))"
proof -
  let ?T = "syncer_tree no_faults"
  obtain m where m: "tree (store with_file) ''f'' = Some m" "is_file m ''f'' ''abc'' 420 0 0" using with_file_entry by blast
  then have k: "Kind m = KindFile" "\<not> Deleted m" "Hash m = HashContent ''abc''" by (simp_all add: is_file_def)
  obtain n where n: "live_entry ?T with_file ''f'' = Some n" "replicated n = m"
    using syncer_tree.live_entry_up [OF with_file_facts(1) example_sound(2) m(1) k(2)] by blast
  have kn: "Kind n = KindFile" "Hash n = HashContent ''abc''" using n(2) k by auto
  obtain c where c: "t_Content ?T with_file (Hash n) = Inr c"
    using syncer_tree.Content_up [OF with_file_facts(1) example_sound(2) m(1)] k kn by (auto simp: needs_blob_def)
  then have abc: "c = ''abc''" using syncer_tree.Content_Inr [OF with_file_facts(1) c] with_file_facts(4) by blast
  let ?h = "\<lparr>h_path = ''f'', h_buf = ''abc'', h_mode = Mode n, h_uid = UID n, h_gid = GID n, h_dirty = False\<rparr>"
  have op: "Open ?T with_file ''f'' O_RDWR = Inr (WHandle ?h)"
    using n(1) kn c abc by (simp add: Open_def O_RDWR_def O_WRONLY_def O_TRUNC_def Let_def)
  obtain s1 where s1: "t_PutFile ?T with_file ''f'' [] (Mode n) (UID n) (GID n) = (None, s1)" "sound_service s1"
    "cfg s1 = cfg example_service" "local_seq (store s1) \<le> 4"
    using healthy_step [OF with_file_facts(1), of "LPutFile ''f'' [] (Mode n) (UID n) (GID n)"] with_file_facts(2,3)
    by (auto simp: max_int64_def)
  have "resized ''abc'' 0 = Some []" by (simp add: resized_def)
  then have st: "Setattr ?T with_file ''f'' (Some (WHandle ?h)) \<lparr>in_Size = Some 0, in_Mode = None, in_UID = None, in_GID = None\<rparr>
      = Some (Inr (attrOf (n\<lparr>Size := 0\<rparr>)), s1)"
    using n(1) kn c abc s1(1) with_file_facts(2)
    by (simp add: Setattr_def Setattr_size_def Setattr_attrs_def Service_MaxFileSize_def)
  let ?h' = "?h\<lparr>h_buf := pwrite ''abc'' 0 ''X'', h_dirty := True\<rparr>"
  have wr: "Write 100 ?h ''X'' 0 = Some (Inr 1, ?h')"
    using Write_ok [of 0 "''X''" 100 ?h] by (simp add: max_int64_def)
  obtain s2 where fl: "Flush ?T s1 ?h' = (None, ?h'\<lparr>h_dirty := False\<rparr>, s2)"
    using healthy_Flush [OF s1(2), of ?h' 5000] s1(3,4) by (auto simp: max_int64_def)
  show ?thesis
    using truncate_is_undone_by_close [OF with_file_facts(1) op _ st _ _ _ wr fl] op st wr fl m(1) k(3)
    by (auto simp: max_int64_def O_RDWR_def O_TRUNC_def)
qed




end
