(* ===== verification/Disk.thy ===== *)
theory Disk
  imports Core_Path
begin

unbundle bit_operations_syntax

text \<open>
  The directory a mirror writes to, and the operations of \<^verbatim>\<open>os.Root\<close> and \<^verbatim>\<open>io/fs\<close> that \<^verbatim>\<open>internal/mirror\<close> calls on
  it. A disk lists the nodes below the root with their slash-separated paths; every call can also fail for
  a reason of its own, given by the set of failing calls. Symbolic links, sockets and devices are nodes of type
  \<open>Other\<close>: they can be seen, replaced and removed, and a path through one does not resolve.
\<close>

datatype ftype = Regular | Directory | Other

record Inode =
  f_type :: ftype
  f_data :: bytes
  f_mode :: uint32
  f_uid :: uint32
  f_gid :: uint32
  f_mtime :: int

type_synonym Disk = "(string \<times> Inode) list"

datatype iocall =
    IoLstat string | IoReadDir string | IoReadFile string | IoMkdir string | IoOpen string | IoWrite string
  | IoSync string | IoClose string | IoRename string | IoRemove string | IoChmod string | IoLchown string
  | IoNewWatcher | IoWatch string

datatype oserr = NotExist | Exist | OsFault

text \<open>The surroundings of a call: which calls fail, the time, and the process's mask and owner.\<close>

record os_env =
  io :: "iocall \<Rightarrow> bool"
  os_now :: int
  umask :: uint32
  euid :: uint32
  egid :: uint32

definition disk_at :: "Disk \<Rightarrow> string \<Rightarrow> Inode option" where
  "disk_at d p = map_of d p"

definition disk_put :: "Disk \<Rightarrow> string \<Rightarrow> Inode \<Rightarrow> Disk" where
  "disk_put d p n = (p, n) # filter (\<lambda>x. fst x \<noteq> p) d"

definition disk_del :: "Disk \<Rightarrow> string \<Rightarrow> Disk" where
  "disk_del d p = filter (\<lambda>x. fst x \<noteq> p) d"

lemma disk_at_del [simp]: "disk_at (disk_del d p) = (disk_at d)(p := None)"
  by (induction d) (auto simp: disk_at_def disk_del_def fun_eq_iff)

lemma disk_at_put [simp]: "disk_at (disk_put d p n) = (disk_at d)(p \<mapsto> n)"
  using disk_at_del [of d p] by (auto simp: disk_at_def disk_put_def disk_del_def fun_eq_iff)

text \<open>The directories above a path, the outermost first.\<close>

definition ancestors :: "string \<Rightarrow> string list" where
  "ancestors p =
     (let els = split_on CHR ''/'' p in map (\<lambda>k. join_on CHR ''/'' (take k els)) [1 ..< length els])"

definition type_at :: "Disk \<Rightarrow> string \<Rightarrow> ftype option" where
  "type_at d p = map_option f_type (disk_at d p)"

definition blocked :: "Disk \<Rightarrow> string \<Rightarrow> bool" where
  "blocked d p \<longleftrightarrow> (\<exists>q \<in> set (ancestors p). type_at d q \<noteq> None \<and> type_at d q \<noteq> Some Directory)"

definition dir_ready :: "Disk \<Rightarrow> string \<Rightarrow> bool" where
  "dir_ready d p \<longleftrightarrow> (\<forall>q \<in> set (ancestors p). type_at d q = Some Directory)"

definition NameMax :: nat where
  "NameMax = 255"

text \<open>A change of a directory's entries sets its modification time.\<close>

definition touch :: "os_env \<Rightarrow> Disk \<Rightarrow> string \<Rightarrow> Disk" where
  "touch env d p =
     (case disk_at d (Dir p) of
        None \<Rightarrow> d
      | Some n \<Rightarrow> if f_type n = Directory then disk_put d (Dir p) (n\<lparr>f_mtime := os_now env\<rparr>) else d)"

definition Lstat :: "os_env \<Rightarrow> Disk \<Rightarrow> string \<Rightarrow> oserr + Inode" where
  "Lstat env d p =
     (if io env (IoLstat p) \<or> blocked d p then Inl OsFault
      else case disk_at d p of None \<Rightarrow> Inl NotExist | Some n \<Rightarrow> Inr n)"

definition ReadFile :: "os_env \<Rightarrow> Disk \<Rightarrow> string \<Rightarrow> oserr + bytes" where
  "ReadFile env d p =
     (if io env (IoReadFile p) \<or> blocked d p then Inl OsFault
      else case disk_at d p of
        None \<Rightarrow> Inl NotExist
      | Some n \<Rightarrow> if f_type n = Regular then Inr (f_data n) else Inl OsFault)"

definition new_node :: "os_env \<Rightarrow> ftype \<Rightarrow> uint32 \<Rightarrow> Inode" where
  "new_node env ty perm =
     \<lparr>f_type = ty, f_data = [], f_mode = perm AND mode_mask AND NOT (umask env),
      f_uid = euid env, f_gid = egid env, f_mtime = os_now env\<rparr>"

definition Mkdir_one :: "os_env \<Rightarrow> uint32 \<Rightarrow> Disk \<Rightarrow> string \<Rightarrow> oserr option \<times> Disk" where
  "Mkdir_one env perm d p =
     (case type_at d p of
        Some ty \<Rightarrow> (if ty = Directory then None else Some OsFault, d)
      | None \<Rightarrow>
          if io env (IoMkdir p) \<or> length (Base p) > NameMax then (Some OsFault, d)
          else (None, touch env (disk_put d p (new_node env Directory perm)) p))"

fun Mkdir_each :: "os_env \<Rightarrow> uint32 \<Rightarrow> Disk \<Rightarrow> string list \<Rightarrow> oserr option \<times> Disk" where
  "Mkdir_each env perm d [] = (None, d)"
| "Mkdir_each env perm d (p # ps) =
     (case Mkdir_one env perm d p of
        (Some e, d) \<Rightarrow> (Some e, d)
      | (None, d) \<Rightarrow> Mkdir_each env perm d ps)"

text \<open>\<^verbatim>\<open>Root.MkdirAll\<close>: when the last element exists and is not a directory the error is \<^verbatim>\<open>EEXIST\<close>.\<close>

definition MkdirAll :: "os_env \<Rightarrow> Disk \<Rightarrow> string \<Rightarrow> uint32 \<Rightarrow> oserr option \<times> Disk" where
  "MkdirAll env d p perm =
     (case Mkdir_each env perm d (ancestors p) of
        (Some e, d) \<Rightarrow> (Some e, d)
      | (None, d) \<Rightarrow>
          if type_at d p \<noteq> None \<and> type_at d p \<noteq> Some Directory then (Some Exist, d)
          else Mkdir_one env perm d p)"

text \<open>\<^verbatim>\<open>OpenFile\<close> with \<^verbatim>\<open>O_WRONLY|O_CREATE|O_TRUNC\<close>, and the write of the whole content.\<close>

definition OpenTrunc :: "os_env \<Rightarrow> Disk \<Rightarrow> string \<Rightarrow> uint32 \<Rightarrow> oserr option \<times> Disk" where
  "OpenTrunc env d p perm =
     (if io env (IoOpen p) \<or> length (Base p) > NameMax \<or> \<not> dir_ready d p then (Some OsFault, d)
      else case disk_at d p of
        None \<Rightarrow> (None, touch env (disk_put d p (new_node env Regular perm)) p)
      | Some n \<Rightarrow>
          if f_type n = Regular then (None, disk_put d p (n\<lparr>f_data := [], f_mtime := os_now env\<rparr>))
          else (Some OsFault, d))"

definition WriteTo :: "os_env \<Rightarrow> Disk \<Rightarrow> string \<Rightarrow> bytes \<Rightarrow> oserr option \<times> Disk" where
  "WriteTo env d p content =
     (case disk_at d p of
        None \<Rightarrow> (Some OsFault, d)
      | Some n \<Rightarrow>
          if io env (IoWrite p) then (Some OsFault, d)
          else (None, disk_put d p (n\<lparr>f_data := content, f_mtime := os_now env\<rparr>)))"

definition Rename_to :: "os_env \<Rightarrow> Disk \<Rightarrow> string \<Rightarrow> string \<Rightarrow> oserr option \<times> Disk" where
  "Rename_to env d a b =
     (if io env (IoRename b) \<or> \<not> dir_ready d b \<or> type_at d b = Some Directory then (Some OsFault, d)
      else case disk_at d a of
        None \<Rightarrow> (Some NotExist, d)
      | Some n \<Rightarrow> (None, touch env (disk_put (disk_del d a) b n) b))"

definition Remove :: "os_env \<Rightarrow> Disk \<Rightarrow> string \<Rightarrow> oserr option \<times> Disk" where
  "Remove env d p =
     (if io env (IoRemove p) then (Some OsFault, d)
      else case type_at d p of
        None \<Rightarrow> (Some NotExist, d)
      | Some ty \<Rightarrow>
          if ty = Directory \<and> (\<exists>x \<in> set d. HasPrefix (fst x) (p @ ''/'')) then (Some OsFault, d)
          else (None, touch env (disk_del d p) p))"

definition Chmod :: "os_env \<Rightarrow> Disk \<Rightarrow> string \<Rightarrow> uint32 \<Rightarrow> oserr option \<times> Disk" where
  "Chmod env d p mode =
     (case disk_at d p of
        None \<Rightarrow> (Some NotExist, d)
      | Some n \<Rightarrow>
          if io env (IoChmod p) \<or> f_type n = Other then (Some OsFault, d)
          else (None, disk_put d p (n\<lparr>f_mode := mode AND mode_mask\<rparr>)))"

definition Lchown :: "os_env \<Rightarrow> Disk \<Rightarrow> string \<Rightarrow> uint32 \<Rightarrow> uint32 \<Rightarrow> oserr option \<times> Disk" where
  "Lchown env d p uid gid =
     (case disk_at d p of
        None \<Rightarrow> (Some NotExist, d)
      | Some n \<Rightarrow>
          if io env (IoLchown p) then (Some OsFault, d)
          else (None, disk_put d p (n\<lparr>f_uid := uid, f_gid := gid\<rparr>)))"

text \<open>
  The order in which \<^verbatim>\<open>fs.WalkDir\<close> reaches the nodes below a directory: depth first, the entries of a
  directory by name, which is the order of the lists of elements.
\<close>

definition walk_order :: "Disk \<Rightarrow> (string \<times> Inode) list" where
  "walk_order d = sort_key (\<lambda>x. split_on CHR ''/'' (fst x)) d"

definition below :: "string \<Rightarrow> string \<Rightarrow> bool" where
  "below dir p \<longleftrightarrow> HasPrefix p (dir @ ''/'')"

section \<open>What an operation leaves alone\<close>

text \<open>A node that is not a directory stays as it is under every operation on other paths.\<close>

definition file_at :: "Disk \<Rightarrow> string \<Rightarrow> Inode \<Rightarrow> bool" where
  "file_at d q n \<longleftrightarrow> disk_at d q = Some n \<and> f_type n \<noteq> Directory"

lemma file_at_put [simp]: "p \<noteq> q \<Longrightarrow> file_at (disk_put d p n') q n = file_at d q n"
  by (simp add: file_at_def)

lemma file_at_del [simp]: "p \<noteq> q \<Longrightarrow> file_at (disk_del d p) q n = file_at d q n"
  by (simp add: file_at_def)

lemma file_at_touch [simp]: "file_at d q n \<Longrightarrow> file_at (touch env d p) q n"
  by (auto simp: file_at_def touch_def split: option.splits)

lemma type_at_touch [simp]: "type_at (touch env d p) q = type_at d q"
  by (auto simp: type_at_def touch_def split: option.splits)

lemma type_at_put [simp]: "type_at (disk_put d p n) = (type_at d)(p \<mapsto> f_type n)"
  by (auto simp: type_at_def fun_eq_iff)

lemma type_at_del [simp]: "type_at (disk_del d p) = (type_at d)(p := None)"
  by (auto simp: type_at_def fun_eq_iff)

lemma file_at_type: "file_at d q n \<Longrightarrow> type_at d q = Some (f_type n) \<and> f_type n \<noteq> Directory"
  by (simp add: file_at_def type_at_def)

lemma Mkdir_one_file: "file_at d q n \<Longrightarrow> file_at (snd (Mkdir_one env perm d p)) q n"
  by (cases "p = q") (auto simp: Mkdir_one_def dest: file_at_type split: option.splits)

lemma Mkdir_each_file: "file_at d q n \<Longrightarrow> file_at (snd (Mkdir_each env perm d ps)) q n"
proof (induction ps arbitrary: d)
  case (Cons p ps)
  then show ?case using Mkdir_one_file [OF Cons.prems, of env perm p]
    by (cases "Mkdir_one env perm d p") (auto split: option.splits)
qed simp

lemma MkdirAll_file: "file_at d q n \<Longrightarrow> file_at (snd (MkdirAll env d p perm)) q n"
  using Mkdir_each_file [of d q n env perm "ancestors p"] Mkdir_one_file
  by (auto simp: MkdirAll_def split: prod.splits option.splits)

lemma OpenTrunc_file: "p \<noteq> q \<Longrightarrow> file_at d q n \<Longrightarrow> file_at (snd (OpenTrunc env d p perm)) q n"
  by (auto simp: OpenTrunc_def split: option.splits)

lemma WriteTo_file: "p \<noteq> q \<Longrightarrow> file_at d q n \<Longrightarrow> file_at (snd (WriteTo env d p c)) q n"
  by (auto simp: WriteTo_def split: option.splits)

lemma Rename_to_file: "a \<noteq> q \<Longrightarrow> b \<noteq> q \<Longrightarrow> file_at d q n \<Longrightarrow> file_at (snd (Rename_to env d a b)) q n"
  by (auto simp: Rename_to_def split: option.splits)

lemma Remove_file: "p \<noteq> q \<Longrightarrow> file_at d q n \<Longrightarrow> file_at (snd (Remove env d p)) q n"
  by (auto simp: Remove_def split: option.splits)

lemma Chmod_file: "p \<noteq> q \<Longrightarrow> file_at d q n \<Longrightarrow> file_at (snd (Chmod env d p mode)) q n"
  by (auto simp: Chmod_def split: option.splits)

lemma Lchown_file: "p \<noteq> q \<Longrightarrow> file_at d q n \<Longrightarrow> file_at (snd (Lchown env d p uid gid)) q n"
  by (auto simp: Lchown_def split: option.splits)

lemmas disk_frame = MkdirAll_file OpenTrunc_file WriteTo_file Rename_to_file Remove_file Chmod_file Lchown_file

section \<open>Plain paths\<close>

definition plain_path :: "string \<Rightarrow> bool" where
  "plain_path p \<longleftrightarrow> p \<noteq> '''' \<and> (\<forall>el \<in> set (split_on CHR ''/'' p). plain_element el)"

lemma good_path_plain: "good_path p \<Longrightarrow> plain_path p"
  by (simp add: good_path_def plain_path_def good_element_def)

lemma Base_plain:
  assumes "plain_path p"
  shows "Base p = last (split_on CHR ''/'' p)"
proof -
  have el: "plain_element (last (split_on CHR ''/'' p))" using assms by (simp add: plain_path_def)
  have "last p \<noteq> CHR ''/''"
  proof
    assume "last p = CHR ''/''"
    then have "p = butlast p @ [CHR ''/'']" using assms by (metis append_butlast_last_id plain_path_def)
    then have "split_on CHR ''/'' p = split_on CHR ''/'' (butlast p) @ [[]]"
      using split_on_append_both [of "CHR ''/''" "butlast p" "[]"] by simp
    then show False using el by (simp add: plain_element_def)
  qed
  then show ?thesis using assms el by (simp add: Base_no_trailing plain_path_def plain_element_def Let_def)
qed

lemma Dir_plain:
  assumes "plain_path p"
  shows "Dir p = (if butlast (split_on CHR ''/'' p) = [] then ''.'' else join_on CHR ''/'' (butlast (split_on CHR ''/'' p)))"
proof (cases "butlast (split_on CHR ''/'' p) = []")
  case True
  then show ?thesis by (simp add: Dir_def Clean_def)
next
  case False
  let ?els = "butlast (split_on CHR ''/'' p)" and ?j = "join_on CHR ''/'' (butlast (split_on CHR ''/'' p))"
  have el: "plain_element el" "CHR ''/'' \<notin> set el" if "el \<in> set ?els" for el
    using assms that in_set_butlastD split_on_no_sep by (fastforce simp: plain_path_def)+
  have sp: "split_on CHR ''/'' ?j = ?els" using False el(2) by (rule split_join)
  have pj: "plain_path ?j" using sp el(1) False join_split [of "CHR ''/''" ?j]
    by (auto simp: plain_path_def) (metis plain_element_def split_on.simps(1) list.set_intros(1))
  then have "Clean ?j = ?j" by (intro Clean_plain) (auto simp: plain_path_def)
  moreover have "Clean (?j @ ''/'') = Clean ?j"
    using pj split_on_append_both [of "CHR ''/''" ?j "[]"] by (simp add: Clean_def Let_def plain_path_def clean_step_def)
  ultimately show ?thesis using False by (simp add: Dir_def)
qed

end
