(* ===== verification/Mirror.thy ===== *)
theory Mirror
  imports Disk Tree_Interface
begin

unbundle bit_operations_syntax

text \<open>
  \<^verbatim>\<open>internal/mirror\<close>: the projection of the tree onto a directory and the promotion of local edits. The state of a
  mirror is the tree it uses, the disk, what it knows of its right to change owners, and the paths with an
  event not yet acted on. Log lines are left out; an error that is only logged is dropped where the code
  goes on.
\<close>

section \<open>State\<close>

definition tmpPrefix :: string where
  "tmpPrefix = ''.dcfs-tmp-''"

record 's Mirror =
  m_tree :: 's
  disk :: Disk
  canChown :: bool
  warnedChown :: bool
  inflight :: "string list"

text \<open>\<^verbatim>\<open>Open\<close>, once the directory exists and is open.\<close>

definition Open_mirror :: "os_env \<Rightarrow> 's \<Rightarrow> Disk \<Rightarrow> 's Mirror" where
  "Open_mirror env t d =
     \<lparr>m_tree = t, disk = d, canChown = (euid env = 0), warnedChown = False, inflight = []\<rparr>"

text \<open>The directory may fail to be made or to be opened.\<close>

definition Open_dir :: "bool \<Rightarrow> bool \<Rightarrow> os_env \<Rightarrow> 's \<Rightarrow> Disk \<Rightarrow> err + 's Mirror" where
  "Open_dir mkdirFails openRootFails env t d =
     (if mkdirFails then Inl ErrInvalid
      else if openRootFails then Inl ErrInvalid
      else Inr (Open_mirror env t d))"

definition markInflight :: "string \<Rightarrow> 's Mirror \<Rightarrow> 's Mirror" where
  "markInflight p m = m\<lparr>inflight := List.insert p (inflight m)\<rparr>"

definition clearInflight :: "string \<Rightarrow> 's Mirror \<Rightarrow> 's Mirror" where
  "clearInflight p m = m\<lparr>inflight := removeAll p (inflight m)\<rparr>"

definition isInflight :: "'s Mirror \<Rightarrow> string \<Rightarrow> bool" where
  "isInflight m p \<longleftrightarrow> p \<in> set (inflight m)"

text \<open>An operation on the disk that returns an error or not.\<close>

definition on_disk :: "(Disk \<Rightarrow> 'e option \<times> Disk) \<Rightarrow> 's Mirror \<Rightarrow> 'e option \<times> 's Mirror" where
  "on_disk f m = (case f (disk m) of (e, d) \<Rightarrow> (e, m\<lparr>disk := d\<rparr>))"

section \<open>Writing the tree out\<close>

definition applyMeta :: "os_env \<Rightarrow> 's Mirror \<Rightarrow> Meta \<Rightarrow> oserr option \<times> 's Mirror" where
  "applyMeta env m e =
     (case on_disk (\<lambda>d. Chmod env d (Path e) (Mode e)) m of
        (Some x, m) \<Rightarrow> (Some x, m)
      | (None, m) \<Rightarrow>
          if \<not> canChown m then (None, m)
          else (case on_disk (\<lambda>d. Lchown env d (Path e) (UID e) (GID e)) m of
                  (Some x, m) \<Rightarrow> (None, m\<lparr>canChown := False, warnedChown := True\<rparr>)
                | (None, m) \<Rightarrow> (None, m)))"

definition renderDir :: "os_env \<Rightarrow> 's Mirror \<Rightarrow> Meta \<Rightarrow> oserr option \<times> 's Mirror" where
  "renderDir env m e =
     (case on_disk (\<lambda>d. MkdirAll env d (Path e) (Mode e)) m of
        (x, m) \<Rightarrow> if x \<noteq> None \<and> x \<noteq> Some Exist then (x, m) else applyMeta env m e)"

definition tmp_of :: "string \<Rightarrow> string" where
  "tmp_of p = Join (Dir p) (tmpPrefix @ Base p)"

text \<open>Every failure after the scratch file was made removes it; the error of that removal is ignored.\<close>

definition discard :: "os_env \<Rightarrow> string \<Rightarrow> Disk \<Rightarrow> oserr option \<times> Disk" where
  "discard env tmp d = (Some OsFault, snd (Remove env d tmp))"

definition writeAtomic :: "os_env \<Rightarrow> string \<Rightarrow> bytes \<Rightarrow> uint32 \<Rightarrow> Disk \<Rightarrow> oserr option \<times> Disk" where
  "writeAtomic env p content mode d =
     (let dir = Dir p; tmp = tmp_of p;
          (made, d) = (if dir = ''.'' then (None, d) else MkdirAll env d dir 0x1ED)
      in if made \<noteq> None \<and> made \<noteq> Some Exist then (made, d)
         else case OpenTrunc env d tmp mode of
           (Some e, d) \<Rightarrow> (Some e, d)
         | (None, d) \<Rightarrow>
             (case WriteTo env d tmp content of
                (Some e, d) \<Rightarrow> discard env tmp d
              | (None, d) \<Rightarrow>
                  if io env (IoSync tmp) then discard env tmp d
                  else if io env (IoClose tmp) then discard env tmp d
                  else (case Rename_to env d tmp p of
                          (Some e, d) \<Rightarrow> discard env tmp d
                        | (None, d) \<Rightarrow> (None, d))))"

record localFile =
  lf_hash :: string
  lf_mode :: uint32
  lf_uid :: uint32
  lf_gid :: uint32

definition ownerOf :: "Inode \<Rightarrow> uint32 \<times> uint32" where
  "ownerOf info = (f_uid info, f_gid info)"

definition Perm :: "uint32 \<Rightarrow> uint32" where
  "Perm mode = mode AND 0x1FF"

definition readLocal :: "os_env \<Rightarrow> Disk \<Rightarrow> string \<Rightarrow> oserr + localFile" where
  "readLocal env d p =
     (case Lstat env d p of
        Inl e \<Rightarrow> Inl e
      | Inr info \<Rightarrow>
          if f_type info \<noteq> Regular then Inl OsFault
          else (case ReadFile env d p of
                  Inl e \<Rightarrow> Inl e
                | Inr content \<Rightarrow>
                    let (uid, gid) = ownerOf info
                    in Inr \<lparr>lf_hash = HashContent content, lf_mode = Perm (f_mode info), lf_uid = uid, lf_gid = gid\<rparr>))"

definition renderFile :: "os_env \<Rightarrow> 's Tree \<Rightarrow> 's Mirror \<Rightarrow> Meta \<Rightarrow> oserr option \<times> 's Mirror" where
  "renderFile env T m e =
     (let write =
        (case t_Content T (m_tree m) (Hash e) of
           Inl x \<Rightarrow> (Some OsFault, m)
         | Inr content \<Rightarrow>
             (case on_disk (writeAtomic env (Path e) content (Mode e)) m of
                (Some x, m) \<Rightarrow> (Some x, m)
              | (None, m) \<Rightarrow> applyMeta env m e))
      in case readLocal env (disk m) (Path e) of
           Inr onDisk \<Rightarrow> if lf_hash onDisk = Hash e then applyMeta env m e else write
         | Inl x \<Rightarrow> if x \<noteq> NotExist then (Some x, m) else write)"

text \<open>One turn of the loop over the live entries; errors are logged and the loop goes on.\<close>

definition render_entry :: "os_env \<Rightarrow> 's Tree \<Rightarrow> Meta \<Rightarrow> 's Mirror \<Rightarrow> 's Mirror" where
  "render_entry env T e m =
     (if isInflight m (Path e) then m
      else if Kind e = KindDir then snd (renderDir env m e)
      else if Kind e = KindFile then snd (renderFile env T m e)
      else m)"

text \<open>
  \<^verbatim>\<open>walk\<close>: the paths visited and whether each is a directory. \<open>skip\<close> are the directories not descended into,
  because their listing failed or the callback returned \<^verbatim>\<open>fs.SkipDir\<close>.
\<close>

fun walk_list :: "os_env \<Rightarrow> string list \<Rightarrow> (string \<times> Inode) list \<Rightarrow> (string \<times> bool) list" where
  "walk_list env skip [] = []"
| "walk_list env skip ((p, n) # rest) =
     (if \<exists>dir \<in> set skip. below dir p then walk_list env skip rest
      else
        let isDir = (f_type n = Directory);
            skip = (if isDir \<and> io env (IoReadDir p) then p # skip else skip)
        in if HasPrefix (Base p) tmpPrefix then walk_list env skip rest
           else if \<not> isDir \<and> f_type n \<noteq> Regular then walk_list env skip rest
           else case SanitizePath p of
             Inl e \<Rightarrow> walk_list env (if isDir then p # skip else skip) rest
           | Inr _ \<Rightarrow> (p, isDir) # walk_list env skip rest)"

definition walk :: "os_env \<Rightarrow> Disk \<Rightarrow> (string \<times> bool) list" where
  "walk env d = (if io env (IoReadDir ''.'') then [] else walk_list env [] (walk_order d))"

definition doomed :: "os_env \<Rightarrow> 's Tree \<Rightarrow> 's Mirror \<Rightarrow> Meta list \<Rightarrow> string list" where
  "doomed env T m live =
     filter (\<lambda>p. p \<notin> Path ` set live \<and> \<not> isInflight m p
                 \<and> (case t_Get T (m_tree m) p of Inl e \<Rightarrow> False | Inr entry \<Rightarrow> Deleted entry))
       (map fst (walk env (disk m)))"

definition remove_path :: "os_env \<Rightarrow> string \<Rightarrow> 's Mirror \<Rightarrow> 's Mirror" where
  "remove_path env p m = snd (on_disk (\<lambda>d. Remove env d p) m)"

definition removeTombstoned :: "os_env \<Rightarrow> 's Tree \<Rightarrow> 's Mirror \<Rightarrow> err option \<times> 's Mirror" where
  "removeTombstoned env T m =
     (case t_Live T (m_tree m) of
        Inl e \<Rightarrow> (Some e, m)
      | Inr live \<Rightarrow> (None, fold (remove_path env) (rev (sort (doomed env T m live))) m))"

definition render :: "os_env \<Rightarrow> 's Tree \<Rightarrow> 's Mirror \<Rightarrow> err option \<times> 's Mirror" where
  "render env T m =
     (case t_Live T (m_tree m) of
        Inl e \<Rightarrow> (Some e, m)
      | Inr es \<Rightarrow> removeTombstoned env T (fold (render_entry env T) (sort_key Path es) m))"

section \<open>Promoting local changes\<close>

definition stored :: "'s Tree \<Rightarrow> 's \<Rightarrow> string \<Rightarrow> Meta \<times> bool" where
  "stored T s p = (case t_Get T s p of Inl e \<Rightarrow> (zero_Meta, False) | Inr m \<Rightarrow> (m, True))"

definition diskIsNewer :: "Meta \<Rightarrow> bool \<Rightarrow> int \<Rightarrow> bool" where
  "diskIsNewer st known modTime =
     (if \<not> known then True else if Deleted st then False else modTime > Wall (HLC (Ver st)))"

definition ownershipFor :: "bool \<Rightarrow> Inode \<Rightarrow> Meta \<Rightarrow> bool \<Rightarrow> uint32 \<times> uint32" where
  "ownershipFor can info st known = (if \<not> can \<and> known then (UID st, GID st) else ownerOf info)"

definition promote :: "os_env \<Rightarrow> 's Tree \<Rightarrow> string \<Rightarrow> bool \<Rightarrow> 's Mirror \<Rightarrow> 's Mirror" where
  "promote env T p isDir m =
     (case Lstat env (disk m) p of
        Inl e \<Rightarrow> m
      | Inr info \<Rightarrow>
          let (st, known) = stored T (m_tree m) p in
          if \<not> diskIsNewer st known (f_mtime info) then m
          else
            let (uid, gid) = ownershipFor (canChown m) info st known;
                mode = Perm (f_mode info)
            in if isDir then m\<lparr>m_tree := snd (t_PutDir T (m_tree m) p mode uid gid)\<rparr>
               else if int (length (f_data info)) > t_MaxFileSize T (m_tree m) then m
               else (case ReadFile env (disk m) p of
                       Inl e \<Rightarrow> m
                     | Inr content \<Rightarrow> m\<lparr>m_tree := snd (t_PutFile T (m_tree m) p content mode uid gid)\<rparr>))"

definition scan :: "os_env \<Rightarrow> 's Tree \<Rightarrow> 's Mirror \<Rightarrow> 's Mirror" where
  "scan env T m = fold (\<lambda>(p, isDir). promote env T p isDir) (walk env (disk m)) m"

section \<open>The watcher\<close>

record event =
  ev_Path :: string
  ev_Removed :: bool

text \<open>
  The pending changes of the watcher's goroutine, whether its timer runs, and the directories with a watch. The pending
  changes are a map, as the list of its bindings; the order of a batch is the order of this list, and Go's iteration order is any.
\<close>

record pump =
  pending :: "(string \<times> bool) list"
  timer :: bool
  watched :: "string list"

definition note_change :: "string \<Rightarrow> bool \<Rightarrow> (string \<times> bool) list \<Rightarrow> (string \<times> bool) list" where
  "note_change p removed ps = (p, removed) # filter (\<lambda>x. fst x \<noteq> p) ps"

text \<open>\<^verbatim>\<open>filepath.Rel\<close> of the mirror directory: None also where its result begins with \<^verbatim>\<open>..\<close>, which no sanitized path does.\<close>

definition relative :: "string \<Rightarrow> string \<Rightarrow> string option" where
  "relative dir name =
     (let base = Clean dir; targ = Clean name;
          prefix = (if base = ''/'' then ''/'' else if base = ''.'' then '''' else base @ ''/'')
      in if targ = base then None
         else if \<not> HasPrefix targ prefix then None
         else
           let rel = drop (length prefix) targ in
           if HasPrefix (Base rel) tmpPrefix then None
           else case SanitizePath rel of Inl e \<Rightarrow> None | Inr _ \<Rightarrow> Some rel)"

text \<open>The paths \<^verbatim>\<open>enqueueTree\<close> reaches from a directory: the directory, and what is below it.\<close>

fun enqueue_list :: "os_env \<Rightarrow> string list \<Rightarrow> (string \<times> Inode) list \<Rightarrow> string list" where
  "enqueue_list env skip [] = []"
| "enqueue_list env skip ((p, n) # rest) =
     (if \<exists>dir \<in> set skip. below dir p then enqueue_list env skip rest
      else
        let isDir = (f_type n = Directory);
            skip = (if isDir \<and> io env (IoReadDir p) then p # skip else skip)
        in if HasPrefix (Base p) tmpPrefix then enqueue_list env (if isDir then p # skip else skip) rest
           else p # enqueue_list env skip rest)"

definition enqueueTree :: "os_env \<Rightarrow> string \<Rightarrow> pump \<times> 's Mirror \<Rightarrow> pump \<times> 's Mirror" where
  "enqueueTree env dir =
     (\<lambda>(w, m). fold (\<lambda>p (w, m). (w\<lparr>pending := note_change p False (pending w)\<rparr>, markInflight p m))
       (enqueue_list env [] (filter (\<lambda>x. fst x = dir \<or> below dir (fst x)) (walk_order (disk m)))) (w, m))"

text \<open>
  \<^verbatim>\<open>addWatches\<close>: the directories it reaches from \<open>dir\<close>, itself first, and the watches after adding them; a watch that cannot be added
  is logged.
\<close>

fun watch_list :: "os_env \<Rightarrow> string list \<Rightarrow> (string \<times> Inode) list \<Rightarrow> string list" where
  "watch_list env skip [] = []"
| "watch_list env skip ((p, n) # rest) =
     (if \<exists>dir \<in> set skip. below dir p then watch_list env skip rest
      else if f_type n \<noteq> Directory then watch_list env skip rest
      else if HasPrefix (Base p) tmpPrefix then watch_list env (p # skip) rest
      else p # watch_list env (if io env (IoReadDir p) then p # skip else skip) rest)"

definition addWatches :: "os_env \<Rightarrow> string \<Rightarrow> Disk \<Rightarrow> string list \<Rightarrow> string list" where
  "addWatches env dir d ws =
     (let dirs =
        (if dir = ''.'' then ''.'' # (if io env (IoReadDir ''.'') then [] else watch_list env [] (walk_order d))
         else watch_list env [] (filter (\<lambda>x. fst x = dir \<or> below dir (fst x)) (walk_order d)))
      in fold List.insert (filter (\<lambda>p. \<not> io env (IoWatch p)) dirs) ws)"

text \<open>\<^verbatim>\<open>watch\<close>: the watcher's goroutine as it starts; None when no watcher can be made, and the run loop goes on without one.\<close>

definition watch :: "os_env \<Rightarrow> Disk \<Rightarrow> pump option" where
  "watch env d =
     (if io env IoNewWatcher then None
      else Some \<lparr>pending = [], timer = False, watched = addWatches env ''.'' d []\<rparr>)"

text \<open>A raw event: the name, whether it is a creation, and whether it is a removal or a renaming away.\<close>

definition pump_event ::
  "os_env \<Rightarrow> string \<Rightarrow> string \<Rightarrow> bool \<Rightarrow> bool \<Rightarrow> pump \<times> 's Mirror \<Rightarrow> pump \<times> 's Mirror" where
  "pump_event env root name created removed wm =
     (case relative root name of
        None \<Rightarrow> wm
      | Some rel \<Rightarrow>
          let isDir = (case Lstat env (disk (snd wm)) rel of Inl e \<Rightarrow> False | Inr info \<Rightarrow> f_type info = Directory);
              (w, m) = (if created \<and> isDir
                        then enqueueTree env rel ((fst wm)\<lparr>watched := addWatches env rel (disk (snd wm)) (watched (fst wm))\<rparr>, snd wm)
                        else wm)
          in (w\<lparr>pending := note_change rel removed (pending w), timer := True\<rparr>, markInflight rel m))"

text \<open>The timer fires: the batch sent to the run loop, None when nothing is pending.\<close>

definition pump_flush :: "pump \<Rightarrow> event list option \<times> pump" where
  "pump_flush w =
     (let w = w\<lparr>timer := False\<rparr> in
      if pending w = [] then (None, w)
      else (Some (map (\<lambda>(p, removed). \<lparr>ev_Path = p, ev_Removed = removed\<rparr>) (pending w)), w\<lparr>pending := []\<rparr>))"

definition deleteLocal :: "'s Tree \<Rightarrow> string \<Rightarrow> 's Mirror \<Rightarrow> 's Mirror" where
  "deleteLocal T p m = m\<lparr>m_tree := snd (t_Delete T (m_tree m) p)\<rparr>"

definition apply_event :: "os_env \<Rightarrow> 's Tree \<Rightarrow> event \<Rightarrow> 's Mirror \<Rightarrow> 's Mirror" where
  "apply_event env T ev m =
     (if \<not> ev_Removed ev
      then (case Lstat env (disk m) (ev_Path ev) of
              Inl e \<Rightarrow> if e = NotExist then deleteLocal T (ev_Path ev) m else m
            | Inr info \<Rightarrow>
                if f_type info \<noteq> Directory \<and> f_type info \<noteq> Regular then m
                else promote env T (ev_Path ev) (f_type info = Directory) m)
      else (case Lstat env (disk m) (ev_Path ev) of
              Inr info \<Rightarrow> promote env T (ev_Path ev) False m
            | Inl e \<Rightarrow> deleteLocal T (ev_Path ev) m))"

definition release :: "event list \<Rightarrow> 's Mirror \<Rightarrow> 's Mirror" where
  "release batch m = fold (\<lambda>ev. clearInflight (ev_Path ev)) batch m"

definition applyEvents :: "os_env \<Rightarrow> 's Tree \<Rightarrow> event list \<Rightarrow> 's Mirror \<Rightarrow> 's Mirror" where
  "applyEvents env T batch m = release batch (fold (apply_event env T) batch m)"

section \<open>The loop\<close>

datatype mirror_event = MChanged | MBatch "event list" | MTick

definition mirror_turn :: "os_env \<Rightarrow> 's Tree \<Rightarrow> mirror_event \<Rightarrow> 's Mirror \<Rightarrow> 's Mirror" where
  "mirror_turn env T ev m =
     (case ev of
        MChanged \<Rightarrow> snd (render env T m)
      | MBatch batch \<Rightarrow> applyEvents env T batch m
      | MTick \<Rightarrow> snd (render env T (scan env T m)))"

text \<open>The start of \<^verbatim>\<open>Run\<close>; scanning never reports an error.\<close>

definition mirror_start :: "os_env \<Rightarrow> 's Tree \<Rightarrow> 's Mirror \<Rightarrow> err option \<times> 's Mirror" where
  "mirror_start env T m = render env T (scan env T m)"

end
