(* ===== verification/Mirror_Props.thy ===== *)
theory Mirror_Props
  imports Mirror Fusefs_Props
begin

text \<open>
  What the mirror does to the directory and to the tree: which files rendering leaves alone and which it writes, that
  scanning never deletes, and where the two directions get in each other's way.
\<close>

section \<open>Scratch files\<close>

lemma join_on_snoc: "ws \<noteq> [] \<Longrightarrow> join_on c (ws @ [w]) = join_on c ws @ c # w"
  by (induction c ws rule: join_on.induct) auto

lemma tmpPrefix_props [simp]: "tmpPrefix \<noteq> ''''" "CHR ''/'' \<notin> set tmpPrefix" "length tmpPrefix = 10"
  "plain_element (tmpPrefix @ x)" "HasPrefix (tmpPrefix @ x) tmpPrefix"
  by (auto simp: tmpPrefix_def plain_element_def HasPrefix_def)

lemma tmp_of_split:
  assumes "plain_path p"
  shows "split_on CHR ''/'' (tmp_of p) = butlast (split_on CHR ''/'' p) @ [tmpPrefix @ Base p]" and "plain_path (tmp_of p)"
proof -
  let ?els = "split_on CHR ''/'' p" and ?x = "tmpPrefix @ Base p"
  have els: "\<And>el. el \<in> set (butlast ?els) \<Longrightarrow> plain_element el \<and> CHR ''/'' \<notin> set el"
    using assms split_on_no_sep by (fastforce simp: plain_path_def dest: in_set_butlastD)
  have x: "plain_element ?x" "CHR ''/'' \<notin> set ?x" "?x \<noteq> ''''"
    using split_on_no_sep [of "last ?els" "CHR ''/''" p] by (simp_all add: Base_plain [OF assms])
  let ?j = "join_on CHR ''/'' (butlast ?els @ [?x])"
  have sp: "split_on CHR ''/'' ?j = butlast ?els @ [?x]"
    by (rule split_join) (use els x in auto)
  then have pj: "plain_path ?j" using els x by (auto simp: plain_path_def)
  have "tmp_of p = ?j"
  proof (cases "butlast ?els = []")
    case True
    then have "Clean (''.'' @ ''/'' @ ?x) = ?x"
      using x by (simp add: Clean_def Let_def clean_step_def split_on_plain plain_element_def)
    then show ?thesis using True x Dir_plain [OF assms] by (simp add: tmp_of_def Join_def)
  next
    case False
    let ?d = "join_on CHR ''/'' (butlast ?els)"
    have "?j = ?d @ ''/'' @ ?x" using join_on_snoc [OF False] by simp
    moreover have "Clean ?j = ?j" by (rule Clean_plain) (use pj in \<open>auto simp: plain_path_def\<close>)
    moreover have "?d \<noteq> ''''"
    proof
      assume "?d = ''''"
      moreover have "split_on CHR ''/'' ?d = butlast ?els" by (rule split_join) (use False els in auto)
      ultimately have "'''' \<in> set (butlast ?els)" by (metis list.set_intros(1) split_on.simps(1))
      then show False using els by (auto simp: plain_element_def)
    qed
    ultimately show ?thesis using False x Dir_plain [OF assms] by (simp add: tmp_of_def Join_def)
  qed
  then show "split_on CHR ''/'' (tmp_of p) = butlast ?els @ [?x]" "plain_path (tmp_of p)" using sp pj by simp_all
qed

lemma tmp_of_Base: "plain_path p \<Longrightarrow> Base (tmp_of p) = tmpPrefix @ Base p"
  using tmp_of_split [of p] Base_plain [of "tmp_of p"] by simp

lemma tmp_of_other: "plain_path p \<Longrightarrow> \<not> HasPrefix (Base q) tmpPrefix \<Longrightarrow> tmp_of p \<noteq> q"
  using tmp_of_Base [of p] by auto

lemma tmp_of_ancestors: "plain_path p \<Longrightarrow> ancestors (tmp_of p) = ancestors p"
proof -
  assume p: "plain_path p"
  have "length (split_on CHR ''/'' (tmp_of p)) = length (split_on CHR ''/'' p)"
    using tmp_of_split [OF p] by (simp add: Suc_leI Suc_pred)
  moreover have "take k (split_on CHR ''/'' (tmp_of p)) = take k (split_on CHR ''/'' p)"
    if "k < length (split_on CHR ''/'' p)" for k
    using that tmp_of_split [OF p] by (simp add: take_butlast)
  ultimately show ?thesis by (auto simp: ancestors_def Let_def)
qed

section \<open>What rendering leaves alone\<close>

lemma on_disk_simps [simp]: "on_disk f m = (fst (f (disk m)), m\<lparr>disk := snd (f (disk m))\<rparr>)"
  by (simp add: on_disk_def split_beta)

lemma applyMeta_frame [simp]:
  "inflight (snd (applyMeta env m e)) = inflight m" "m_tree (snd (applyMeta env m e)) = m_tree m"
  by (auto simp: applyMeta_def split: option.splits)

lemma applyMeta_file:
  "Path e \<noteq> q \<Longrightarrow> file_at (disk m) q n \<Longrightarrow> file_at (disk (snd (applyMeta env m e))) q n"
  using disk_frame by (auto simp: applyMeta_def split: option.splits)

lemma renderDir_file:
  assumes "Path e \<noteq> q" and "file_at (disk m) q n"
  shows "file_at (disk (snd (renderDir env m e))) q n"
  using disk_frame(1) [OF assms(2)] applyMeta_file [OF assms(1), of "m\<lparr>disk := snd (MkdirAll env (disk m) (Path e) (Mode e))\<rparr>"]
  by (simp add: renderDir_def)

lemma writeAtomic_induct:
  assumes "P d" and "\<And>d. P d \<Longrightarrow> P (snd (MkdirAll env d (Dir p) 0x1ED))"
    and "\<And>d. P d \<Longrightarrow> P (snd (OpenTrunc env d (tmp_of p) mode))" and "\<And>d. P d \<Longrightarrow> P (snd (WriteTo env d (tmp_of p) c))"
    and "\<And>d. P d \<Longrightarrow> P (snd (Rename_to env d (tmp_of p) p))" and "\<And>d. P d \<Longrightarrow> P (snd (Remove env d (tmp_of p)))"
  shows "P (snd (writeAtomic env p c mode d))"
proof -
  obtain e1 d1 where s1: "(if Dir p = ''.'' then (None, d) else MkdirAll env d (Dir p) 0x1ED) = (e1, d1)" by fastforce
  obtain e2 d2 where s2: "OpenTrunc env d1 (tmp_of p) mode = (e2, d2)" by fastforce
  obtain e3 d3 where s3: "WriteTo env d2 (tmp_of p) c = (e3, d3)" by fastforce
  obtain e4 d4 where s4: "Rename_to env d3 (tmp_of p) p = (e4, d4)" by fastforce
  have "P d1" using assms(1) assms(2) [OF assms(1)] s1 by (auto split: if_splits)
  moreover from this have "P d2" using assms(3) [of d1] s2 by simp
  moreover from this have "P d3" using assms(4) [of d2] s3 by simp
  moreover from this have "P d4" using assms(5) [of d3] s4 by simp
  ultimately have ps: "P d1" "P d2" "P (snd (Remove env d3 (tmp_of p)))" "P d4" "P (snd (Remove env d4 (tmp_of p)))"
    using assms(6) by blast+
  show ?thesis
    unfolding writeAtomic_def Let_def s1 prod.case s2
    using ps by (cases e2; cases e3; cases e4) (simp_all add: s3 s4 discard_def)
qed

lemma writeAtomic_file:
  assumes "p \<noteq> q" and "tmp_of p \<noteq> q" and "file_at d q n"
  shows "file_at (snd (writeAtomic env p c mode d)) q n"
  by (rule writeAtomic_induct) (use assms disk_frame in auto)

lemma renderFile_file:
  assumes "Path e \<noteq> q" and "tmp_of (Path e) \<noteq> q" and "file_at (disk m) q n"
  shows "file_at (disk (snd (renderFile env T m e))) q n"
  using writeAtomic_file [OF assms] assms(3)
  by (auto simp: renderFile_def Let_def split: sum.splits option.splits intro!: applyMeta_file [OF assms(1)])

lemma render_entry_frame [simp]:
  "inflight (render_entry env T e m) = inflight m" "m_tree (render_entry env T e m) = m_tree m"
  by (simp_all add: render_entry_def renderDir_def renderFile_def Let_def split: sum.splits option.splits)

lemma fold_render_frame [simp]:
  "inflight (fold (render_entry env T) es m) = inflight m" "m_tree (fold (render_entry env T) es m) = m_tree m"
  by (induction es arbitrary: m) auto

lemma render_entry_file:
  assumes "Path e \<noteq> q \<or> isInflight m q" and "tmp_of (Path e) \<noteq> q" and "file_at (disk m) q n"
  shows "file_at (disk (render_entry env T e m)) q n"
  using assms renderDir_file [of e q m n env] renderFile_file [of e q m n env T] by (auto simp: render_entry_def)

lemma fold_render_file:
  assumes "\<forall>e \<in> set es. (Path e \<noteq> q \<or> isInflight m q) \<and> tmp_of (Path e) \<noteq> q" and "file_at (disk m) q n"
  shows "file_at (disk (fold (render_entry env T) es m)) q n"
  using assms
proof (induction es arbitrary: m)
  case (Cons e es)
  have "file_at (disk (render_entry env T e m)) q n"
    using Cons.prems by (intro render_entry_file) auto
  moreover have "\<forall>a \<in> set es. (Path a \<noteq> q \<or> isInflight (render_entry env T e m) q) \<and> tmp_of (Path a) \<noteq> q"
    using Cons.prems(1) by (simp add: isInflight_def)
  ultimately have "file_at (disk (fold (render_entry env T) es (render_entry env T e m))) q n"
    by (intro Cons.IH)
  then show ?case by simp
qed simp

lemma remove_path_frame [simp]: "inflight (remove_path env p m) = inflight m" "m_tree (remove_path env p m) = m_tree m"
  by (simp_all add: remove_path_def)

lemma fold_remove_frame [simp]:
  "inflight (fold (remove_path env) ps m) = inflight m" "m_tree (fold (remove_path env) ps m) = m_tree m"
  by (induction ps arbitrary: m) auto

lemma fold_remove_file: "q \<notin> set ps \<Longrightarrow> file_at (disk m) q n \<Longrightarrow> file_at (disk (fold (remove_path env) ps m)) q n"
  using Remove_file by (induction ps arbitrary: m) (auto simp: remove_path_def)

lemma render_frame [simp]: "m_tree (snd (render env T m)) = m_tree m" "inflight (snd (render env T m)) = inflight m"
  by (auto simp: render_def removeTombstoned_def split: sum.splits)

section \<open>Walking\<close>

lemma good_path_above:
  assumes "good_path p" and "below dir p"
  shows "good_path dir"
proof -
  obtain r where p: "p = dir @ CHR ''/'' # r" using assms(2) by (auto simp: below_def HasPrefix_iff)
  have "dir \<noteq> ''''" using assms good_path_not_rooted by (auto simp: below_def)
  then show ?thesis using assms(1) by (auto simp: good_path_def p split_on_append_both)
qed

lemma walk_list_sound:
  "(p, b) \<in> set (walk_list env skip xs) \<Longrightarrow>
     \<exists>n. (p, n) \<in> set xs \<and> good_path p \<and> \<not> HasPrefix (Base p) tmpPrefix \<and> b = (f_type n = Directory) \<and> f_type n \<noteq> Other"
proof (induction xs arbitrary: skip)
  case (Cons x xs)
  obtain q k where x: "x = (q, k)" by (cases x)
  have "(\<exists>skip'. (p, b) \<in> set (walk_list env skip' xs)) \<or> (p = q \<and> b = (f_type k = Directory)
      \<and> \<not> HasPrefix (Base q) tmpPrefix \<and> (f_type k = Directory \<or> f_type k = Regular) \<and> (\<exists>r. SanitizePath q = Inr r))"
    using Cons.prems x by (auto simp: Let_def split: if_splits sum.splits)
  then show ?case using Cons.IH x by (force simp: SanitizePath_iff)
qed simp

lemma walk_list_complete:
  assumes "(p, n) \<in> set xs" and "good_path p" and "\<not> HasPrefix (Base p) tmpPrefix" and "f_type n \<noteq> Other"
    and "\<forall>dir \<in> set skip. \<not> good_path dir" and "\<forall>q. \<not> io env (IoReadDir q)"
  shows "(p, f_type n = Directory) \<in> set (walk_list env skip xs)"
  using assms(1,5)
proof (induction xs arbitrary: skip)
  case (Cons x xs)
  obtain q k where x: "x = (q, k)" by (cases x)
  have seen: "\<not> (\<exists>dir \<in> set skip. below dir p)" using Cons.prems(2) good_path_above [OF assms(2)] by blast
  show ?case
  proof (cases "(p, n) = x")
    case True
    then show ?thesis using x seen assms(2-4,6) by (cases "f_type n") (auto simp: Let_def)
  next
    case False
    then have "(p, n) \<in> set xs" using Cons.prems(1) by auto
    note ih = Cons.IH [OF this]
    have "\<forall>dir \<in> set (q # skip). \<not> good_path dir" if "SanitizePath q = Inl e" for e
      using that Cons.prems(2) by (auto simp: SanitizePath_iff)
    then show ?thesis using x ih Cons.prems(2) assms(6) by (auto simp: Let_def split: sum.splits)
  qed
qed simp

lemma walk_iff:
  assumes "\<forall>q. \<not> io env (IoReadDir q)" and "distinct (map fst d)"
  shows "(p, b) \<in> set (walk env d) \<longleftrightarrow> good_path p \<and> \<not> HasPrefix (Base p) tmpPrefix
           \<and> (\<exists>n. disk_at d p = Some n \<and> b = (f_type n = Directory) \<and> f_type n \<noteq> Other)"
proof -
  have "(p, n) \<in> set (walk_order d) \<longleftrightarrow> disk_at d p = Some n" for n
    using assms(2) by (simp add: walk_order_def disk_at_def)
  then show ?thesis
    using walk_list_sound [of p b env "[]" "walk_order d"] walk_list_complete [of p _ "walk_order d" "[]" env] assms(1)
    by (auto simp: walk_def)
qed

section \<open>Paths that stay as they are\<close>

lemma ancestors_iff: "q \<in> set (ancestors p) \<longleftrightarrow> below q p"
proof
  assume "q \<in> set (ancestors p)"
  let ?els = "split_on CHR ''/'' p"
  obtain k where k: "1 \<le> k" "k < length ?els" "q = join_on CHR ''/'' (take k ?els)"
    using \<open>q \<in> set (ancestors p)\<close> by (auto simp: ancestors_def Let_def)
  have append: "xs \<noteq> [] \<Longrightarrow> ys \<noteq> [] \<Longrightarrow> join_on c (xs @ ys) = join_on c xs @ c # join_on c ys" for xs ys and c :: char
  proof (induction c xs rule: join_on.induct)
    case (2 c w)
    then show ?case by (cases ys) auto
  qed auto
  have "p = q @ CHR ''/'' # join_on CHR ''/'' (drop k ?els)"
    using append [of "take k ?els" "drop k ?els" "CHR ''/''"] k by simp
  then show "below q p" unfolding below_def HasPrefix_iff by (metis append.assoc append_Cons append_Nil)
next
  assume "below q p"
  then obtain r where p: "p = q @ CHR ''/'' # r" by (auto simp: below_def HasPrefix_iff)
  have "q = join_on CHR ''/'' (take (length (split_on CHR ''/'' q)) (split_on CHR ''/'' p))"
    by (simp add: p split_on_append_both)
  moreover have "1 \<le> length (split_on CHR ''/'' q)" "length (split_on CHR ''/'' q) < length (split_on CHR ''/'' p)"
    using split_on_nonempty by (auto simp: p split_on_append_both Suc_le_eq)
  ultimately show "q \<in> set (ancestors p)" by (auto simp: ancestors_def Let_def)
qed

lemma below_length: "below q p \<Longrightarrow> length q < length p"
  by (auto simp: below_def HasPrefix_iff)

lemma Dir_shorter:
  assumes "plain_path p" and "Dir p \<noteq> ''.''"
  shows "below (Dir p) p"
proof -
  let ?els = "split_on CHR ''/'' p"
  have "butlast ?els \<noteq> []" "Dir p = join_on CHR ''/'' (butlast ?els)" using assms Dir_plain by (auto split: if_splits)
  then have "Dir p \<in> set (ancestors p)"
    by (auto simp: ancestors_def Let_def butlast_conv_take intro!: image_eqI [of _ _ "length ?els - 1"])
  then show ?thesis by (simp add: ancestors_iff)
qed

text \<open>\<open>same q d d'\<close>: the path holds no directory and is the same on both disks.\<close>

definition same :: "string \<Rightarrow> Disk \<Rightarrow> Disk \<Rightarrow> bool" where
  "same q d d' \<longleftrightarrow> type_at d q \<noteq> Some Directory \<and> disk_at d' q = disk_at d q"

lemma same_trans: "same q d d' \<Longrightarrow> same q d' d'' \<Longrightarrow> same q d d''"
  by (simp add: same_def)

lemma same_type: "same q d d' \<Longrightarrow> type_at d' q = type_at d q \<and> type_at d q \<noteq> Some Directory"
  by (simp add: same_def type_at_def)

lemma same_touch: "type_at d q \<noteq> Some Directory \<Longrightarrow> same q d (touch env d p)"
  by (auto simp: same_def touch_def type_at_def split: option.splits)

lemma same_put: "p \<noteq> q \<Longrightarrow> type_at d q \<noteq> Some Directory \<Longrightarrow> same q d (disk_put d p n)"
  by (simp add: same_def)

lemma same_put_touch: "p \<noteq> q \<Longrightarrow> type_at d q \<noteq> Some Directory \<Longrightarrow> same q d (touch env (disk_put d p n) p')"
  by (rule same_trans [OF same_put]) (auto intro: same_touch)

lemma Mkdir_one_same: "p \<noteq> q \<Longrightarrow> type_at d q \<noteq> Some Directory \<Longrightarrow> same q d (snd (Mkdir_one env perm d p))"
  using same_put_touch [of p q d env _ p] by (auto simp: Mkdir_one_def same_def split: option.splits)

lemma Mkdir_each_same: "q \<notin> set ps \<Longrightarrow> type_at d q \<noteq> Some Directory \<Longrightarrow> same q d (snd (Mkdir_each env perm d ps))"
proof (induction ps arbitrary: d)
  case (Cons p ps)
  obtain e d1 where d1: "Mkdir_one env perm d p = (e, d1)" by fastforce
  then have s1: "same q d d1" using Mkdir_one_same [of p q d env perm] Cons.prems by auto
  then show ?case using d1 Cons.IH [of d1] Cons.prems same_type [OF s1] by (cases e) (auto intro: same_trans)
qed (simp add: same_def)

lemma MkdirAll_same:
  assumes "p \<noteq> q" and "\<not> below q p" and "type_at d q \<noteq> Some Directory"
  shows "same q d (snd (MkdirAll env d p perm))"
proof -
  obtain e d1 where d1: "Mkdir_each env perm d (ancestors p) = (e, d1)" by fastforce
  then have s1: "same q d d1" using Mkdir_each_same [of q "ancestors p" d env perm] assms ancestors_iff by simp
  then show ?thesis using d1 Mkdir_one_same [OF assms(1), of d1 env perm] same_type [OF s1]
    by (cases e) (auto simp: MkdirAll_def intro: same_trans)
qed

lemma OpenTrunc_same: "p \<noteq> q \<Longrightarrow> type_at d q \<noteq> Some Directory \<Longrightarrow> same q d (snd (OpenTrunc env d p perm))"
  using same_put_touch [of p q d env _ p] same_put [of p q d] by (auto simp: OpenTrunc_def same_def split: option.splits)

lemma WriteTo_same: "p \<noteq> q \<Longrightarrow> type_at d q \<noteq> Some Directory \<Longrightarrow> same q d (snd (WriteTo env d p c))"
  by (auto simp: WriteTo_def same_def split: option.splits)

lemma Remove_same: "p \<noteq> q \<Longrightarrow> type_at d q \<noteq> Some Directory \<Longrightarrow> same q d (snd (Remove env d p))"
  by (rule same_trans [of q d "if fst (Remove env d p) = None then disk_del d p else d"])
    (auto simp: Remove_def same_def touch_def type_at_def split: option.splits)

lemma tmp_of_not_self: "plain_path p \<Longrightarrow> tmp_of p \<noteq> p"
  using tmp_of_Base [of p] by (metis append_self_conv2 tmpPrefix_props(1))

text \<open>The outcome of an atomic write at its target.\<close>

lemma writeAtomic_outcome:
  assumes "plain_path p" and "type_at d p \<noteq> Some Directory" and "writeAtomic env p c mode d = (e, d')"
  shows "if e = None then length (Base p) + 10 \<le> NameMax
             \<and> (\<exists>n. disk_at d' p = Some n \<and> f_type n = Regular \<and> f_data n = c \<and> f_mtime n = os_now env)
         else disk_at d' p = disk_at d p"
proof -
  note tmp = tmp_of_not_self [OF assms(1)]
  obtain e1 d1 where s1: "(if Dir p = ''.'' then (None, d) else MkdirAll env d (Dir p) 0x1ED) = (e1, d1)" by fastforce
  obtain e2 d2 where s2: "OpenTrunc env d1 (tmp_of p) mode = (e2, d2)" by fastforce
  obtain e3 d3 where s3: "WriteTo env d2 (tmp_of p) c = (e3, d3)" by fastforce
  obtain e4 d4 where s4: "Rename_to env d3 (tmp_of p) p = (e4, d4)" by fastforce
  have "Dir p \<noteq> ''.'' \<Longrightarrow> Dir p \<noteq> p \<and> \<not> below p (Dir p)"
    using Dir_shorter [OF assms(1)] below_length [of "Dir p" p] below_length [of p "Dir p"] by auto
  then have "same p d d1" using s1 MkdirAll_same [of "Dir p" p d env] assms(2)
    by (auto simp: same_def split: if_splits) (metis snd_conv)
  moreover from this have "same p d1 d2" using s2 OpenTrunc_same [OF tmp, of d1 env mode] same_type by fastforce
  moreover from this have "same p d2 d3" using s3 WriteTo_same [OF tmp, of d2 env c] same_type by fastforce
  moreover from this have "same p d3 (snd (Remove env d3 (tmp_of p)))"
    using Remove_same [OF tmp, of d3 env] same_type by fastforce
  moreover have "e4 \<noteq> None \<Longrightarrow> d4 = d3" using s4 by (auto simp: Rename_to_def split: option.splits if_splits)
  ultimately have st: "disk_at d1 p = disk_at d p" "disk_at d2 p = disk_at d p"
    "disk_at (snd (Remove env d3 (tmp_of p))) p = disk_at d p" "e4 \<noteq> None \<Longrightarrow> d4 = d3"
    by (auto simp: same_def)
  have long: "e2 = None \<Longrightarrow> length (Base p) + 10 \<le> NameMax \<and> type_at d2 (tmp_of p) = Some Regular"
    using s2 by (auto simp: OpenTrunc_def tmp_of_Base [OF assms(1)] type_at_def new_node_def touch_def split: if_splits option.splits)
  moreover have "e2 = None \<Longrightarrow> e3 = None \<Longrightarrow> \<exists>n. disk_at d3 (tmp_of p) = Some n \<and> f_type n = Regular \<and> f_data n = c \<and> f_mtime n = os_now env"
    using s3 long by (auto simp: WriteTo_def type_at_def split: option.splits if_splits)
  ultimately have new: "e2 = None \<Longrightarrow> e3 = None \<Longrightarrow> e4 = None \<Longrightarrow> length (Base p) + 10 \<le> NameMax
      \<and> (\<exists>n. disk_at d4 p = Some n \<and> f_type n = Regular \<and> f_data n = c \<and> f_mtime n = os_now env)"
    using s4 by (auto simp: Rename_to_def touch_def split: option.splits if_splits)
  show ?thesis using assms(3) st new
    unfolding writeAtomic_def Let_def s1 prod.case s2
    by (cases e2; cases e3; cases e4) (auto simp: s3 s4 discard_def split: if_splits)
qed

section \<open>Rendering and promoting over a tree that keeps its contract\<close>

lemma Remove_absent: "disk_at d q = None \<Longrightarrow> disk_at (snd (Remove env d p)) q = None"
  by (auto simp: Remove_def touch_def split: option.splits)

lemma fold_remove_absent: "disk_at (disk m) q = None \<Longrightarrow> disk_at (disk (fold (remove_path env) ps m)) q = None"
  using Remove_absent by (induction ps arbitrary: m) (auto simp: remove_path_def)

lemma Remove_removes: "file_at d q n \<Longrightarrow> \<not> io env (IoRemove q) \<Longrightarrow> disk_at (snd (Remove env d q)) q = None"
  using file_at_type [of d q n] by (auto simp: Remove_def touch_def split: option.splits)

lemma fold_remove_removes:
  "q \<in> set ps \<Longrightarrow> file_at (disk m) q n \<Longrightarrow> \<not> io env (IoRemove q) \<Longrightarrow>
     disk_at (disk (fold (remove_path env) ps m)) q = None"
proof (induction ps arbitrary: m)
  case (Cons p ps)
  show ?case
  proof (cases "p = q")
    case True
    then have "disk_at (disk (remove_path env p m)) q = None"
      using Remove_removes [OF Cons.prems(2,3)] by (simp add: remove_path_def)
    then show ?thesis using fold_remove_absent by simp
  next
    case False
    then have "file_at (disk (remove_path env p m)) q n"
      using Remove_file [OF False Cons.prems(2)] by (simp add: remove_path_def)
    then show ?thesis using Cons False by simp
  qed
qed simp

context tree_contract
begin

lemma render_runs:
  assumes "inv (m_tree m)" and "t_Live (T f) (m_tree m) = Inr es"
  shows "snd (render env (T f) m) = (let m1 = fold (render_entry env (T f)) (sort_key Path es) m
           in fold (remove_path env) (rev (sort (doomed env (T f) m1 es))) m1)"
  using assms by (simp add: render_def removeTombstoned_def Let_def)

lemma render_leaves_file:
  assumes "inv (m_tree m)" and "file_at (disk m) q n" and "isInflight m q \<or> view (m_tree m) q = None"
    and "\<not> HasPrefix (Base q) tmpPrefix" and "\<forall>p. live_in (view (m_tree m)) p \<longrightarrow> plain_path p"
  shows "file_at (disk (snd (render env (T f) m))) q n"
proof (cases "t_Live (T f) (m_tree m)")
  case (Inl e)
  then show ?thesis using assms(2) by (simp add: render_def)
next
  case (Inr es)
  let ?m1 = "fold (render_entry env (T f)) (sort_key Path es) m"
  have live: "live_in (view (m_tree m)) (Path e)" if "e \<in> set es" for e
    using Live_iff [OF assms(1) Inr] that by blast
  have "(Path e \<noteq> q \<or> isInflight m q) \<and> tmp_of (Path e) \<noteq> q" if "e \<in> set es" for e
    using live [OF that] assms(3-5) tmp_of_other by (auto simp: live_in_def)
  then have "file_at (disk ?m1) q n" using assms(2) by (intro fold_render_file) auto
  moreover have "q \<notin> set (doomed env (T f) ?m1 es)"
    using assms(3) Get_Inr [OF assms(1)] by (auto simp: doomed_def isInflight_def split: sum.splits)
  ultimately show ?thesis by (simp add: render_runs [OF assms(1) Inr] Let_def fold_remove_file)
qed

lemma tombstone_wins:
  assumes "inv (m_tree m)" and "up f" and "view (m_tree m) q = Some t" and "Deleted t"
    and "file_at (disk m) q n" and "f_type n = Regular" and "good_path q" and "\<not> HasPrefix (Base q) tmpPrefix"
    and "\<not> isInflight m q" and "\<forall>p. \<not> io env (IoReadDir p)" and "\<not> io env (IoRemove q)"
    and "\<forall>p. live_in (view (m_tree m)) p \<longrightarrow> plain_path p"
  shows "promote env (T f) q b m = m" and "disk_at (disk (snd (render env (T f) m))) q = None"
proof -
  obtain t' where get: "t_Get (T f) (m_tree m) q = Inr t'"
    using Get_up [OF assms(1,2)] assms(3) by (cases "t_Get (T f) (m_tree m) q") auto
  then have del: "Deleted t'" using Get_Inr [OF assms(1) get] assms(3,4) by auto
  show "promote env (T f) q b m = m"
    using get del by (simp add: promote_def stored_def diskIsNewer_def split: sum.splits)
  obtain es where es: "t_Live (T f) (m_tree m) = Inr es" using Live_up [OF assms(2)] by blast
  let ?m1 = "fold (render_entry env (T f)) (sort_key Path es) m"
  have live: "live_in (view (m_tree m)) (Path e)" if "e \<in> set es" for e
    using Live_iff [OF assms(1) es] that by blast
  have other: "Path e \<noteq> q \<and> tmp_of (Path e) \<noteq> q" if "e \<in> set es" for e
    using live [OF that] assms(3,4,8,12) tmp_of_other by (auto simp: live_in_def)
  then have present: "file_at (disk ?m1) q n" using assms(5) by (intro fold_render_file) auto
  then have "(q, n) \<in> set (walk_order (disk ?m1))"
    by (auto simp: file_at_def disk_at_def walk_order_def dest: map_of_SomeD)
  then have "(q, False) \<in> set (walk env (disk ?m1))"
    using walk_list_complete [of q n "walk_order (disk ?m1)" "[]" env] assms(6-8,10) by (simp add: walk_def)
  then have "q \<in> set (doomed env (T f) ?m1 es)"
    using get del other assms(9) by (force simp: doomed_def isInflight_def)
  then show "disk_at (disk (snd (render env (T f) m))) q = None"
    using fold_remove_removes [OF _ present assms(11)] by (simp add: render_runs [OF assms(1) es] Let_def)
qed

lemma promote_step:
  assumes "inv (m_tree m)"
  shows "inv (m_tree (promote env (T f) p isDir m))"
    and "live_in (view (m_tree m)) q \<Longrightarrow> live_in (view (m_tree (promote env (T f) p isDir m))) q"
    and "disk (promote env (T f) p isDir m) = disk m"
proof -
  let ?m' = "promote env (T f) p isDir m"
  show "disk ?m' = disk m"
    by (auto simp: promote_def Let_def split: sum.splits prod.splits)
  have "m_tree ?m' = m_tree m
      \<or> (\<exists>mode uid gid. m_tree ?m' = snd (t_PutDir (T f) (m_tree m) p mode uid gid))
      \<or> (\<exists>c mode uid gid. m_tree ?m' = snd (t_PutFile (T f) (m_tree m) p c mode uid gid))"
    unfolding promote_def Let_def by (auto split: sum.splits prod.splits) blast
  then consider "m_tree ?m' = m_tree m"
    | mode uid gid e where "t_PutDir (T f) (m_tree m) p mode uid gid = (e, m_tree ?m')"
    | c mode uid gid e where "t_PutFile (T f) (m_tree m) p c mode uid gid = (e, m_tree ?m')"
    by (metis prod.collapse)
  then have "inv (m_tree ?m') \<and> (live_in (view (m_tree m)) q \<longrightarrow> live_in (view (m_tree ?m')) q)"
  proof cases
    case 2
    then show ?thesis using PutDir_step [OF assms 2] by (auto simp: live_in_def is_dir_def split: if_splits)
  next
    case 3
    then show ?thesis using PutFile_step [OF assms 3] by (auto simp: live_in_def is_file_def split: if_splits)
  qed (use assms in auto)
  then show "inv (m_tree ?m')" "live_in (view (m_tree m)) q \<Longrightarrow> live_in (view (m_tree ?m')) q" by blast+
qed

lemma scan_step:
  assumes "inv (m_tree m)"
  shows "inv (m_tree (scan env (T f) m)) \<and> disk (scan env (T f) m) = disk m
       \<and> (\<forall>q. live_in (view (m_tree m)) q \<longrightarrow> live_in (view (m_tree (scan env (T f) m))) q)"
proof -
  have "inv (m_tree (fold (\<lambda>(p, isDir). promote env (T f) p isDir) ps m))
      \<and> disk (fold (\<lambda>(p, isDir). promote env (T f) p isDir) ps m) = disk m
      \<and> (\<forall>q. live_in (view (m_tree m)) q \<longrightarrow> live_in (view (m_tree (fold (\<lambda>(p, isDir). promote env (T f) p isDir) ps m))) q)"
    for ps
    using assms
  proof (induction ps arbitrary: m)
    case (Cons x ps)
    obtain p b where x: "x = (p, b)" by (cases x)
    note step = promote_step [OF Cons.prems, where env = env and f = f and p = p and isDir = b]
    show ?case using Cons.IH [OF step(1)] step by (simp add: x)
  qed simp
  then show ?thesis by (simp add: scan_def)
qed

lemma late_removal_is_dropped:
  assumes "inv (m_tree m)" and "live_in (view (m_tree m)) p" and "Lstat env (disk m) p = Inr info"
  shows "live_in (view (m_tree (apply_event env (T f) \<lparr>ev_Path = p, ev_Removed = True\<rparr> m))) p"
  using promote_step(2) [OF assms(1,2)] assms(3) by (simp add: apply_event_def)

end

end
