(* ===== verification/Mirror_Render.thy ===== *)
theory Mirror_Render
  imports Mirror_Props
begin

text \<open>
  Rendering brings the disk to what the tree says: with no failing call, every live file whose place is free is on
  disk afterwards with its content, mode and owner.
\<close>

unbundle bit_operations_syntax

section \<open>Directories\<close>

lemma Mkdir_one_types:
  assumes "\<forall>c. \<not> io env c" and "length (Base p) \<le> NameMax" and "type_at d p = None \<or> type_at d p = Some Directory"
  shows "fst (Mkdir_one env perm d p) = None" "type_at (snd (Mkdir_one env perm d p)) = (type_at d)(p \<mapsto> Directory)"
  using assms by (auto simp: Mkdir_one_def new_node_def)

lemma Mkdir_each_types:
  assumes "\<forall>c. \<not> io env c"
    and "\<forall>q \<in> set ps. length (Base q) \<le> NameMax \<and> (type_at d q = None \<or> type_at d q = Some Directory)"
  shows "fst (Mkdir_each env perm d ps) = None"
    and "type_at (snd (Mkdir_each env perm d ps)) = (\<lambda>q. if q \<in> set ps then Some Directory else type_at d q)"
  using assms(2)
proof (induction ps arbitrary: d)
  case (Cons p ps)
  {
    case 1
    then show ?case using Cons.IH(1) [of "snd (Mkdir_one env perm d p)"] Mkdir_one_types [OF assms(1), of p d perm]
      by (cases "Mkdir_one env perm d p") (auto split: option.splits)
  next
    case 2
    then show ?case using Cons.IH(2) [of "snd (Mkdir_one env perm d p)"] Mkdir_one_types [OF assms(1), of p d perm]
      by (cases "Mkdir_one env perm d p") (auto simp: fun_eq_iff split: option.splits)
  }
qed auto

text \<open>Whatever happens, a directory call only turns missing directories into directories.\<close>

definition dirs_added :: "string set \<Rightarrow> Disk \<Rightarrow> Disk \<Rightarrow> bool" where
  "dirs_added S d d' \<longleftrightarrow> (\<forall>q. type_at d' q = type_at d q \<or> q \<in> S \<and> type_at d q = None \<and> type_at d' q = Some Directory)"

lemma dirs_added_trans: "dirs_added S d d' \<Longrightarrow> dirs_added S d' d'' \<Longrightarrow> dirs_added S d d''"
  unfolding dirs_added_def by metis

lemma dirs_added_refl [simp]: "dirs_added S d d"
  by (simp add: dirs_added_def)

lemma Mkdir_one_added: "p \<in> S \<Longrightarrow> dirs_added S d (snd (Mkdir_one env perm d p))"
  by (auto simp: Mkdir_one_def dirs_added_def new_node_def split: option.splits)

lemma Mkdir_each_added: "set ps \<subseteq> S \<Longrightarrow> dirs_added S d (snd (Mkdir_each env perm d ps))"
proof (induction ps arbitrary: d)
  case (Cons p ps)
  obtain e d1 where d1: "Mkdir_one env perm d p = (e, d1)" by fastforce
  then have "dirs_added S d d1" using Mkdir_one_added [of p S d env perm] Cons.prems by simp
  then show ?case using d1 Cons.IH [of d1] Cons.prems by (cases e) (auto intro: dirs_added_trans)
qed simp

lemma MkdirAll_added: "dirs_added {q. q = p \<or> below q p} d (snd (MkdirAll env d p perm))"
proof -
  let ?S = "{q. q = p \<or> below q p}"
  obtain e d1 where d1: "Mkdir_each env perm d (ancestors p) = (e, d1)" by fastforce
  then have "dirs_added ?S d d1" using Mkdir_each_added [of "ancestors p" ?S d env perm] ancestors_iff by auto
  then show ?thesis using d1 Mkdir_one_added [of p ?S d1 env perm]
    by (cases e) (auto simp: MkdirAll_def intro: dirs_added_trans)
qed

lemma below_Dir:
  assumes "plain_path p" and "Dir p \<noteq> ''.''"
  shows "below q p \<longleftrightarrow> q = Dir p \<or> below q (Dir p)"
proof -
  let ?els = "split_on CHR ''/'' p"
  have b: "butlast ?els \<noteq> []" "Dir p = join_on CHR ''/'' (butlast ?els)" using assms Dir_plain by (auto split: if_splits)
  have p: "p = Dir p @ CHR ''/'' # last ?els"
    using join_on_snoc [OF b(1), of "CHR ''/''" "last ?els"] b(2) by simp
  have nl: "CHR ''/'' \<notin> set (last ?els)" using split_on_no_sep [of "last ?els" "CHR ''/''" p] by simp
  show ?thesis
  proof
    assume "below q p"
    then obtain r where "q @ CHR ''/'' # r = Dir p @ CHR ''/'' # last ?els" using p by (auto simp: below_def HasPrefix_iff)
    then consider "q = Dir p" | us where "q @ CHR ''/'' # us = Dir p" | us where "q = Dir p @ CHR ''/'' # us"
      by (auto simp: append_eq_append_conv2 Cons_eq_append_conv append_eq_Cons_conv)
    then show "q = Dir p \<or> below q (Dir p)"
    proof cases
      case 2
      then show ?thesis by (metis append.assoc append_Cons append_Nil below_def HasPrefix_iff)
    next
      case 3
      then have "us @ CHR ''/'' # r = last ?els" using \<open>q @ CHR ''/'' # r = Dir p @ CHR ''/'' # last ?els\<close> by simp
      then show ?thesis using nl by (metis in_set_conv_decomp)
    qed simp
  next
    assume "q = Dir p \<or> below q (Dir p)"
    then show "below q p" using Dir_shorter [OF assms] by (auto simp: below_def HasPrefix_iff)
  qed
qed

lemma Dir_top: "plain_path p \<Longrightarrow> Dir p = ''.'' \<Longrightarrow> \<not> below q p"
proof
  assume p: "plain_path p" and top: "Dir p = ''.''" and "below q p"
  then obtain r where r: "p = q @ CHR ''/'' # r" by (auto simp: below_def HasPrefix_iff)
  have "butlast (split_on CHR ''/'' p) \<noteq> []"
    using split_on_nonempty by (simp add: r split_on_append_both butlast_append)
  then have j: "join_on CHR ''/'' (butlast (split_on CHR ''/'' p)) = ''.''" using Dir_plain [OF p] top by simp
  have "split_on CHR ''/'' (join_on CHR ''/'' (butlast (split_on CHR ''/'' p))) = butlast (split_on CHR ''/'' p)"
    by (rule split_join) (use \<open>butlast (split_on CHR ''/'' p) \<noteq> []\<close> split_on_no_sep in \<open>auto dest: in_set_butlastD\<close>)
  then have "butlast (split_on CHR ''/'' p) = [''.'']" unfolding j by simp
  then have "''.'' \<in> set (butlast (split_on CHR ''/'' p))" by (simp only: list.set_intros)
  then have "''.'' \<in> set (split_on CHR ''/'' p)" by (rule in_set_butlastD)
  then show False using p by (auto simp: plain_path_def plain_element_def)
qed

text \<open>\<open>free d p\<close>: nothing but directories above the path, and no directory or link at the path itself.\<close>

definition free :: "Disk \<Rightarrow> string \<Rightarrow> bool" where
  "free d p \<longleftrightarrow> \<not> blocked d p \<and> (type_at d p = None \<or> type_at d p = Some Regular)"

lemma blocked_iff: "blocked d p \<longleftrightarrow> (\<exists>q. below q p \<and> type_at d q \<noteq> None \<and> type_at d q \<noteq> Some Directory)"
  using ancestors_iff by (auto simp: blocked_def)

lemma good_path_element: "good_path p \<Longrightarrow> length (Base p) \<le> NameMax"
  using Base_plain [OF good_path_plain, of p] by (simp add: good_path_def good_element_def MaxNameLen_def NameMax_def)

lemma made_ready:
  assumes "\<forall>c. \<not> io env c" and "good_path p" and "free d p"
    and "(if Dir p = ''.'' then (None, d) else MkdirAll env d (Dir p) perm) = (e, d')"
  shows "e = None" and "dir_ready d' p" and "\<And>q. q = p \<or> type_at d q \<noteq> None \<Longrightarrow> type_at d' q = type_at d q"
    and "\<And>q. below q p \<Longrightarrow> type_at d' q = Some Directory" and "\<And>q. \<not> below q p \<Longrightarrow> type_at d' q = type_at d q"
proof -
  note plain = good_path_plain [OF assms(2)]
  have above: "below q p \<Longrightarrow> length (Base q) \<le> NameMax \<and> (type_at d q = None \<or> type_at d q = Some Directory)" for q
    using assms(2,3) good_path_above [OF assms(2)] good_path_element by (auto simp: free_def blocked_iff)
  have all: "e = None \<and> type_at d' = (\<lambda>q. if below q p then Some Directory else type_at d q)"
  proof (cases "Dir p = ''.''")
    case True
    then show ?thesis using assms(4) Dir_top [OF plain True] by auto
  next
    case False
    note bd = below_Dir [OF plain False]
    have each: "\<forall>q \<in> set (ancestors (Dir p)). length (Base q) \<le> NameMax \<and> (type_at d q = None \<or> type_at d q = Some Directory)"
      using above bd by (auto simp: ancestors_iff)
    obtain e1 d1 where d1: "Mkdir_each env perm d (ancestors (Dir p)) = (e1, d1)" by fastforce
    have t1: "e1 = None" "type_at d1 = (\<lambda>q. if below q (Dir p) then Some Directory else type_at d q)"
      using Mkdir_each_types [OF assms(1) each, of perm] d1 by (simp_all add: ancestors_iff)
    have "\<not> below (Dir p) (Dir p)" using below_length by blast
    then have dp: "length (Base (Dir p)) \<le> NameMax" "type_at d1 (Dir p) = None \<or> type_at d1 (Dir p) = Some Directory"
      using above [of "Dir p"] bd t1(2) by simp_all
    have "MkdirAll env d (Dir p) perm = Mkdir_one env perm d1 (Dir p)"
      using d1 t1(1) dp(2) by (auto simp: MkdirAll_def)
    then have "Mkdir_one env perm d1 (Dir p) = (e, d')" using assms(4) False by simp
    then show ?thesis using Mkdir_one_types [OF assms(1) dp, of perm] t1(2) bd by (auto simp: fun_eq_iff)
  qed
  then show "e = None" "dir_ready d' p" by (simp_all add: dir_ready_def ancestors_iff)
  have "\<not> below p p" using below_length by blast
  then show "\<And>q. q = p \<or> type_at d q \<noteq> None \<Longrightarrow> type_at d' q = type_at d q" using all above by fastforce
  show "\<And>q. below q p \<Longrightarrow> type_at d' q = Some Directory" "\<And>q. \<not> below q p \<Longrightarrow> type_at d' q = type_at d q" using all by simp_all
qed

section \<open>One file\<close>

text \<open>The file of an entry is on disk, with its content and mode, and its owner where owners are set.\<close>

definition rendered :: "bool \<Rightarrow> Disk \<Rightarrow> Meta \<Rightarrow> bool" where
  "rendered own d e \<longleftrightarrow> (\<exists>n. disk_at d (Path e) = Some n \<and> f_type n = Regular \<and> HashContent (f_data n) = Hash e
     \<and> f_mode n = Mode e AND mode_mask \<and> (own \<longrightarrow> f_uid n = UID e \<and> f_gid n = GID e))"

lemma applyMeta_eq:
  assumes "\<forall>c. \<not> io env c" and "disk_at (disk m) (Path e) = Some n" and "f_type n \<noteq> Other"
  shows "applyMeta env m e = (None, m\<lparr>disk := disk (snd (applyMeta env m e))\<rparr>)"
    and "disk_at (disk (snd (applyMeta env m e))) = (disk_at (disk m))(Path e \<mapsto>
      (if canChown m then n\<lparr>f_mode := Mode e AND mode_mask, f_uid := UID e, f_gid := GID e\<rparr>
       else n\<lparr>f_mode := Mode e AND mode_mask\<rparr>))"
  using assms by (auto simp: applyMeta_def Chmod_def Lchown_def fun_eq_iff)

lemma applyMeta_rendered:
  assumes "\<forall>c. \<not> io env c" and "disk_at (disk m) (Path e) = Some n" and "f_type n = Regular" and "HashContent (f_data n) = Hash e"
  shows "rendered (canChown m) (disk (snd (applyMeta env m e))) e"
  using applyMeta_eq(2) [OF assms(1,2)] assms(3,4) by (auto simp: rendered_def)

lemma tmp_not_above:
  assumes "plain_path p"
  shows "\<not> below (tmp_of p) p"
proof
  assume "below (tmp_of p) p"
  then have "below (tmp_of p) (tmp_of p)" using tmp_of_ancestors [OF assms] by (simp flip: ancestors_iff)
  then show False using below_length by fastforce
qed

lemma writeAtomic_succeeds:
  assumes "\<forall>c. \<not> io env c" and "good_path p" and "free d p" and "length (Base p) + 10 \<le> NameMax"
    and "type_at d (tmp_of p) = None \<or> type_at d (tmp_of p) = Some Regular"
  shows "fst (writeAtomic env p c mode d) = None"
proof -
  note plain = good_path_plain [OF assms(2)]
  obtain e1 d1 where s1: "(if Dir p = ''.'' then (None, d) else MkdirAll env d (Dir p) 0x1ED) = (e1, d1)" by fastforce
  note made = made_ready [OF assms(1-3) s1]
  have "type_at d1 (tmp_of p) = None \<or> type_at d1 (tmp_of p) = Some Regular"
    using made(5) tmp_not_above [OF plain] assms(5) by simp
  moreover have "dir_ready d1 (tmp_of p)" using made(2) tmp_of_ancestors [OF plain] by (simp add: dir_ready_def)
  moreover have "length (Base (tmp_of p)) \<le> NameMax" using assms(4) tmp_of_Base [OF plain] by simp
  moreover obtain e2 d2 where s2: "OpenTrunc env d1 (tmp_of p) mode = (e2, d2)" by fastforce
  ultimately have e2: "e2 = None" and t2: "type_at d2 = (type_at d1)(tmp_of p \<mapsto> Regular)"
    using assms(1) by (auto simp: OpenTrunc_def type_at_def new_node_def fun_eq_iff touch_def split: if_splits option.splits)
  obtain e3 d3 where s3: "WriteTo env d2 (tmp_of p) c = (e3, d3)" by fastforce
  have e3: "e3 = None" and t3: "type_at d3 = type_at d2"
    using s3 assms(1) t2 by (auto simp: WriteTo_def type_at_def fun_eq_iff split: if_splits option.splits)
  have "type_at d3 p \<noteq> Some Directory"
    using t2 t3 tmp_of_not_self [OF plain] made(3) [of p] assms(3) by (auto simp: free_def)
  moreover have "type_at d3 (tmp_of p) = Some Regular" using t2 t3 by simp
  moreover have "dir_ready d3 p"
    using made(2) t2 t3 tmp_not_above [OF plain] by (auto simp: dir_ready_def ancestors_iff)
  ultimately have "fst (Rename_to env d3 (tmp_of p) p) = None"
    using assms(1) by (auto simp: Rename_to_def type_at_def split: option.splits)
  then show ?thesis
    using assms(1) made(1) e2 e3 unfolding writeAtomic_def Let_def s1 prod.case s2
    by (auto simp: s3 split: prod.splits option.splits)
qed

lemma renderFile_rendered:
  assumes "\<forall>c. \<not> io env c" and "good_path (Path e)" and "free (disk m) (Path e)" and "length (Base (Path e)) + 10 \<le> NameMax"
    and "type_at (disk m) (tmp_of (Path e)) = None \<or> type_at (disk m) (tmp_of (Path e)) = Some Regular"
    and "t_Content T (m_tree m) (Hash e) = Inr c" and "HashContent c = Hash e"
  shows "rendered (canChown m) (disk (snd (renderFile env T m e))) e"
proof (cases "\<exists>lf. readLocal env (disk m) (Path e) = Inr lf \<and> lf_hash lf = Hash e")
  case True
  then obtain n where "disk_at (disk m) (Path e) = Some n" "f_type n = Regular" "HashContent (f_data n) = Hash e"
    by (auto simp: readLocal_def Lstat_def ReadFile_def Let_def ownerOf_def split: sum.splits option.splits if_splits)
  then show ?thesis using True applyMeta_rendered [OF assms(1)] by (auto simp: renderFile_def Let_def)
next
  case False
  have local_ok: "readLocal env (disk m) (Path e) = Inl NotExist \<or> (\<exists>lf. readLocal env (disk m) (Path e) = Inr lf)"
    using assms(1,3) by (auto simp: readLocal_def Lstat_def ReadFile_def free_def type_at_def ownerOf_def split: option.splits)
  obtain x d1 where wr: "writeAtomic env (Path e) c (Mode e) (disk m) = (x, d1)" by fastforce
  have x: "x = None" using writeAtomic_succeeds [OF assms(1-5), of c "Mode e"] wr by simp
  have "type_at (disk m) (Path e) \<noteq> Some Directory" using assms(3) by (auto simp: free_def)
  then obtain n where "disk_at d1 (Path e) = Some n" "f_type n = Regular" "f_data n = c"
    using writeAtomic_outcome [OF good_path_plain [OF assms(2)] _ wr] x by auto
  then have "rendered (canChown m) (disk (snd (applyMeta env (m\<lparr>disk := d1\<rparr>) e))) e"
    using applyMeta_rendered [OF assms(1), of "m\<lparr>disk := d1\<rparr>" e n] assms(7) by simp
  then show ?thesis using False local_ok x wr assms(6) by (auto simp: renderFile_def Let_def split: sum.splits)
qed

section \<open>The other entries\<close>

lemma applyMeta_types [simp]: "type_at (disk (snd (applyMeta env m e))) = type_at (disk m)"
proof -
  have ch: "type_at (snd (Chmod env d p mode)) = type_at d" for d p mode
    by (auto simp: Chmod_def type_at_def fun_eq_iff split: option.splits)
  have lc: "type_at (snd (Lchown env d p u g)) = type_at d" for d p u g
    by (auto simp: Lchown_def type_at_def fun_eq_iff split: option.splits)
  show ?thesis using ch lc by (auto simp: applyMeta_def split: option.splits)
qed

lemma renderDir_types: "dirs_added {q. q = Path e \<or> below q (Path e)} (disk m) (disk (snd (renderDir env m e)))"
proof -
  have "type_at (disk (snd (renderDir env m e))) = type_at (snd (MkdirAll env (disk m) (Path e) (Mode e)))"
    by (simp add: renderDir_def)
  then show ?thesis using MkdirAll_added [of "Path e" "disk m" env "Mode e"] by (simp add: dirs_added_def)
qed

text \<open>Writing a file adds directories above it, the file, and no scratch file.\<close>

definition file_added :: "string \<Rightarrow> Disk \<Rightarrow> Disk \<Rightarrow> bool" where
  "file_added p d d' \<longleftrightarrow> (\<forall>q. type_at d' q = type_at d q
     \<or> below q p \<and> type_at d q = None \<and> type_at d' q = Some Directory
     \<or> q = p \<and> type_at d' q = Some Regular \<or> q = tmp_of p \<and> type_at d' q = None)"

lemma writeAtomic_types:
  assumes "\<forall>c. \<not> io env c" and "plain_path p"
  shows "file_added p d (snd (writeAtomic env p c mode d))"
proof -
  obtain e1 d1 where s1: "(if Dir p = ''.'' then (None, d) else MkdirAll env d (Dir p) 0x1ED) = (e1, d1)" by fastforce
  obtain e2 d2 where s2: "OpenTrunc env d1 (tmp_of p) mode = (e2, d2)" by fastforce
  obtain e3 d3 where s3: "WriteTo env d2 (tmp_of p) c = (e3, d3)" by fastforce
  obtain e4 d4 where s4: "Rename_to env d3 (tmp_of p) p = (e4, d4)" by fastforce
  have t1: "dirs_added {q. below q p} d d1"
    using s1 MkdirAll_added [of "Dir p" d env "0x1ED"] below_Dir [OF assms(2)] by (auto split: if_splits simp: dirs_added_def)
  have t2: "e2 \<noteq> None \<Longrightarrow> type_at d2 = type_at d1" "e2 = None \<Longrightarrow> type_at d2 = (type_at d1)(tmp_of p \<mapsto> Regular)"
    using s2 by (auto simp: OpenTrunc_def type_at_def new_node_def touch_def fun_eq_iff split: if_splits option.splits)
  have t3: "e2 = None \<Longrightarrow> e3 = None \<and> type_at d3 = type_at d2"
    using s3 assms(1) t2(2) by (auto simp: WriteTo_def type_at_def fun_eq_iff split: if_splits option.splits)
  have t4: "e4 \<noteq> None \<Longrightarrow> d4 = d3" "e4 = None \<Longrightarrow> type_at d4 = (type_at d3)(tmp_of p := None, p := type_at d3 (tmp_of p))"
    using s4 tmp_of_not_self [OF assms(2)]
    by (auto simp: Rename_to_def type_at_def touch_def fun_eq_iff split: if_splits option.splits)
  have t5: "type_at d3 (tmp_of p) = Some Regular \<Longrightarrow> type_at (snd (Remove env d3 (tmp_of p))) = (type_at d3)(tmp_of p := None)"
    using assms(1) by (auto simp: Remove_def)
  have "e2 = None \<Longrightarrow> e4 \<noteq> None \<Longrightarrow> file_added p d (snd (Remove env d4 (tmp_of p)))"
    using t1 t2(2) t3 t4(1) t5 by (auto simp: file_added_def dirs_added_def)
  moreover have "e2 = None \<Longrightarrow> e4 = None \<Longrightarrow> file_added p d d4"
    using t1 t2(2) t3 t4(2) tmp_of_not_self [OF assms(2)] by (auto simp: file_added_def dirs_added_def)
  moreover have "e2 \<noteq> None \<Longrightarrow> file_added p d d2" "file_added p d d1"
    using t1 t2(1) by (auto simp: file_added_def dirs_added_def)
  ultimately show ?thesis
    using assms(1) t3 unfolding writeAtomic_def Let_def s1 prod.case s2
    by (cases e2; cases e4) (auto simp: s3 s4 discard_def)
qed

lemma renderFile_types:
  assumes "\<forall>c. \<not> io env c" and "plain_path (Path e)"
  shows "file_added (Path e) (disk m) (disk (snd (renderFile env T m e)))"
  using writeAtomic_types [OF assms, of "disk m" _ "Mode e"]
  by (auto simp: renderFile_def Let_def file_added_def split: sum.splits option.splits)

lemma live_above:
  assumes "namespace_ok v" and "live_in v p" and "below q p" and "q \<noteq> ''''"
  shows "live_dir v q"
proof -
  have "live_in v (q @ CHR ''/'' # r) \<Longrightarrow> live_dir v q" for r
  proof (induction "length r" arbitrary: r rule: less_induct)
    case less
    show ?case
    proof (cases "CHR ''/'' \<in> set r")
      case True
      then obtain r1 name where r: "r = r1 @ CHR ''/'' # name" "CHR ''/'' \<notin> set name" by (metis split_list_last)
      then have "live_in v ((q @ CHR ''/'' # r1) @ CHR ''/'' # name)" using less.prems by simp
      then have "live_dir v (q @ CHR ''/'' # r1)" using r(2) assms(1) unfolding namespace_ok_def by blast
      then show ?thesis using less.hyps [of r1] r(1) by (auto simp: live_dir_def live_in_def)
    next
      case False
      then show ?thesis using less.prems assms(1,4) by (auto simp: namespace_ok_def)
    qed
  qed
  then show ?thesis using assms(2,3) by (auto simp: below_def HasPrefix_iff)
qed

lemma plain_above: "plain_path p \<Longrightarrow> below q p \<Longrightarrow> q \<noteq> ''''"
proof
  assume "plain_path p" and "below q p" and "q = ''''"
  then obtain r where "p = CHR ''/'' # r" by (auto simp: below_def HasPrefix_iff)
  then have "'''' \<in> set (split_on CHR ''/'' p)" by simp
  then show False using \<open>plain_path p\<close> by (auto simp: plain_path_def plain_element_def)
qed

text \<open>\<open>place_ok d p\<close>: the file can be written, scratch file included.\<close>

definition place_ok :: "Disk \<Rightarrow> string \<Rightarrow> bool" where
  "place_ok d p \<longleftrightarrow> free d p \<and> (type_at d (tmp_of p) = None \<or> type_at d (tmp_of p) = Some Regular)"

lemma place_kept:
  assumes "namespace_ok v" and "\<forall>q. live_in v q \<longrightarrow> plain_path q \<and> \<not> HasPrefix (Base q) tmpPrefix"
    and "v p = Some pm" and "\<not> Deleted pm" and "Kind pm = KindFile"
    and "v (Path e) = Some em" and "\<not> Deleted em" and "Kind em = Kind e" and "Path e \<noteq> p"
    and "\<forall>c. \<not> io env c" and "place_ok (disk m) p"
  shows "place_ok (disk (render_entry env T e m)) p"
proof -
  have kinds: "KindFile \<noteq> KindDir" by (simp add: KindFile_def KindDir_def)
  have live: "live_in v p" "live_in v (Path e)" using assms(3,4,6,7) by (auto simp: live_in_def)
  note plain = assms(2) [rule_format, OF live(1)] assms(2) [rule_format, OF live(2)]
  have p1: "\<not> below p (Path e)"
    using live_above [OF assms(1) live(2), of p] plain assms(3,5) kinds by (auto simp: live_dir_def plain_path_def)
  have p2: "below (Path e) p \<Longrightarrow> Kind e \<noteq> KindFile"
    using live_above [OF assms(1) live(1), of "Path e"] plain assms(6,8) kinds by (auto simp: live_dir_def plain_path_def)
  have t1: "tmp_of p \<noteq> Path e" using plain tmp_of_other by blast
  have t2: "\<not> below (tmp_of p) (Path e)"
  proof
    assume b: "below (tmp_of p) (Path e)"
    then have "live_in v (tmp_of p)" using live_above [OF assms(1) live(2) b] plain_above [OF _ b] plain
      by (auto simp: live_dir_def live_in_def)
    then show False using assms(2) tmp_of_Base [of p] plain by (metis tmpPrefix_props(5))
  qed
  have t3: "tmp_of (Path e) \<noteq> p" using plain tmp_of_other by blast
  have "place_ok (disk (snd (renderDir env m e))) p"
    using renderDir_types [of e m env] assms(9,11) p1 t1 t2
    unfolding place_ok_def free_def blocked_iff dirs_added_def by (metis (mono_tags, lifting) mem_Collect_eq)
  moreover have "Kind e = KindFile \<Longrightarrow> place_ok (disk (snd (renderFile env T m e))) p"
  proof -
    assume k: "Kind e = KindFile"
    let ?d = "disk (snd (renderFile env T m e))"
    have added: "file_added (Path e) (disk m) ?d" using renderFile_types [OF assms(10)] plain by blast
    have "type_at ?d p = type_at (disk m) p" using added assms(9) p1 t3 unfolding file_added_def by metis
    moreover have "type_at ?d (tmp_of p) = type_at (disk m) (tmp_of p) \<or> type_at ?d (tmp_of p) = None"
      using added t1 t2 unfolding file_added_def by metis
    moreover have "type_at ?d q = type_at (disk m) q \<or> type_at ?d q = Some Directory \<or> type_at ?d q = None" if "below q p" for q
      using added that p2 k unfolding file_added_def by metis
    ultimately show "place_ok ?d p" using assms(11) unfolding place_ok_def free_def blocked_iff by metis
  qed
  ultimately show ?thesis using assms(11) by (simp add: render_entry_def)
qed

lemma render_entry_chown:
  assumes "\<forall>c. \<not> io env c"
  shows "canChown (render_entry env T e m) = canChown m"
proof -
  have "canChown (snd (applyMeta env m' e)) = canChown m'" for m' :: "'a Mirror"
    using assms by (auto simp: applyMeta_def Chmod_def Lchown_def split: option.splits if_splits)
  then show ?thesis
    by (simp add: render_entry_def renderDir_def renderFile_def Let_def split: sum.splits option.splits)
qed

lemma fold_render_chown:
  "\<forall>c. \<not> io env c \<Longrightarrow> canChown (fold (render_entry env T) es m) = canChown m"
  by (induction es arbitrary: m) (auto simp: render_entry_chown)

lemma rendered_file: "rendered own d e \<Longrightarrow> \<exists>n. file_at d (Path e) n \<and>
   (\<forall>d'. file_at d' (Path e) n \<longrightarrow> rendered own d' e)"
  by (auto simp: rendered_def file_at_def)

context tree_contract
begin

lemma fold_place_kept:
  assumes "inv s" and "namespace_ok (view s)"
    and "\<forall>q. live_in (view s) q \<longrightarrow> plain_path q \<and> \<not> HasPrefix (Base q) tmpPrefix"
    and "view s p = Some pm" and "\<not> Deleted pm" and "Kind pm = KindFile" and "\<forall>c. \<not> io env c"
    and "\<forall>e \<in> set es. Path e \<noteq> p \<and> view s (Path e) = Some (replicated e) \<and> \<not> Deleted e"
    and "place_ok (disk m) p"
  shows "place_ok (disk (fold (render_entry env (T f)) es m)) p"
  using assms(8,9)
proof (induction es arbitrary: m)
  case (Cons e es)
  have "place_ok (disk (render_entry env (T f) e m)) p"
    by (rule place_kept [OF assms(2-6) _ _ _ _ assms(7), of e "replicated e"]) (use Cons.prems in auto)
  then show ?case using Cons by simp
qed simp

lemma render_writes:
  assumes "inv (m_tree m)" and "up f" and "namespace_ok (view (m_tree m))"
    and "\<forall>q. live_in (view (m_tree m)) q \<longrightarrow> plain_path q \<and> \<not> HasPrefix (Base q) tmpPrefix"
    and "\<forall>c. \<not> io env c" and "view (m_tree m) p = Some pm" and "needs_blob pm" and "Kind pm = KindFile" and "good_path p"
    and "length (Base p) + 10 \<le> NameMax" and "place_ok (disk m) p" and "\<not> isInflight m p"
  shows "rendered (canChown m) (disk (snd (render env (T f) m))) pm"
proof -
  have pm: "\<not> Deleted pm" "Path pm = p" using assms(1,6,7) view_path by (auto simp: needs_blob_def)
  obtain es where es: "t_Live (T f) (m_tree m) = Inr es" using Live_up [OF assms(2)] by blast
  note live = Live_view [OF assms(1) es]
  have dist: "distinct (map Path (sort_key Path es))" using Live_Inr [OF assms(1) es] by (simp add: distinct_map_sort)
  have "live_in (view (m_tree m)) p" using assms(6) pm by (auto simp: live_in_def)
  then obtain e where "e \<in> set (sort_key Path es)" "Path e = p" using Live_iff [OF assms(1) es] by auto
  then obtain xs ys where split: "sort_key Path es = xs @ e # ys" and e: "Path e = p" by (meson split_list)
  have sub: "set es = set (xs @ e # ys)" using split by (metis set_sort)
  then have e_view: "replicated e = pm" "\<not> Deleted e" using live [of e] e assms(6) by auto
  have others: "\<forall>a \<in> set (xs @ ys). Path a \<noteq> p \<and> view (m_tree m) (Path a) = Some (replicated a) \<and> \<not> Deleted a"
  proof
    fix a
    assume a: "a \<in> set (xs @ ys)"
    then have "Path a \<in> Path ` set (xs @ ys)" by (rule imageI)
    then have "Path a \<noteq> p" using dist unfolding split e [symmetric] by auto
    then show "Path a \<noteq> p \<and> view (m_tree m) (Path a) = Some (replicated a) \<and> \<not> Deleted a"
      using live [of a] sub a by auto
  qed
  let ?m1 = "fold (render_entry env (T f)) xs m"
  have "place_ok (disk ?m1) p"
    using fold_place_kept [OF assms(1,3,4,6) pm(1) assms(8,5), of xs m f] others assms(11) by auto
  moreover obtain c where c: "t_Content (T f) (m_tree m) (Hash pm) = Inr c" "HashContent c = Hash pm"
    using Content_up [OF assms(1,2,6,7)] Content_Inr [OF assms(1)] by blast
  moreover have he: "Hash e = Hash pm" "Kind e = KindFile" using e_view(1) assms(8) by auto
  ultimately have "rendered (canChown m) (disk (snd (renderFile env (T f) ?m1 e))) e"
    using renderFile_rendered [OF assms(5), of e ?m1 "T f" c] assms(9,10) e fold_render_chown [OF assms(5), of "T f" xs m]
    by (simp add: place_ok_def)
  then have "rendered (canChown m) (disk (render_entry env (T f) e ?m1)) e"
    using he assms(12) e by (simp add: render_entry_def isInflight_def KindFile_def KindDir_def)
  then obtain n where n: "file_at (disk (render_entry env (T f) e ?m1)) p n"
    "\<And>d'. file_at d' p n \<Longrightarrow> rendered (canChown m) d' e" using rendered_file e by metis
  have tmp: "tmp_of (Path a) \<noteq> p" if "a \<in> set (xs @ ys)" for a
    using that others assms(4) \<open>live_in (view (m_tree m)) p\<close> tmp_of_other by (metis live_in_def replicated_simps(10))
  let ?m2 = "fold (render_entry env (T f)) (sort_key Path es) m"
  have "file_at (disk (fold (render_entry env (T f)) ys (render_entry env (T f) e ?m1))) p n"
    by (rule fold_render_file) (use others tmp n(1) in auto)
  then have "file_at (disk ?m2) p n" by (simp add: split)
  moreover have "p \<notin> set (doomed env (T f) ?m2 es)"
    using \<open>e \<in> set (sort_key Path es)\<close> e by (auto simp: doomed_def)
  ultimately have "file_at (disk (snd (render env (T f) m))) p n"
    by (simp add: render_runs [OF assms(1) es] Let_def fold_remove_file)
  then have "rendered (canChown m) (disk (snd (render env (T f) m))) e" by (rule n(2))
  then show ?thesis using e_view(1) e pm(2) by (auto simp: rendered_def)
qed

end

end
