(* ===== verification/Mirror_Theorems.thy ===== *)
theory Mirror_Theorems
  imports Mirror_Render
begin

text \<open>
  The properties of the mirror over the syncer's tree.
\<close>

definition example_env :: os_env where
  "example_env = \<lparr>io = (\<lambda>_. False), os_now = 2000, umask = 18, euid = 0, egid = 0\<rparr>"

definition example_inode :: Inode where
  "example_inode = \<lparr>f_type = Regular, f_data = ''old'', f_mode = 420, f_uid = 0, f_gid = 0, f_mtime = 2000\<rparr>"

lemma example_env_io [simp]: "\<not> io example_env c"
  by (simp add: example_env_def)

lemma example_domain: "tree example_store p = Some m \<Longrightarrow> p = ''d'' \<and> Kind m = KindDir \<or> p = ''a'' \<and> Deleted m"
  by (auto simp: tree_def row_at_def example_store_def rowOf_def split: if_splits)

lemma single_element: "CHR ''/'' \<notin> set p \<Longrightarrow> plain_element p \<Longrightarrow> plain_path p \<and> Base p = p \<and> (\<forall>q. \<not> below q p)"
  using Base_plain [of p] by (auto simp: plain_path_def split_on_plain plain_element_def below_def HasPrefix_iff)

lemma with_file_domain:
  assumes "tree (store with_file) p = Some m"
  shows "p = ''d'' \<and> Kind m = KindDir \<or> p = ''a'' \<and> Deleted m \<or> p = ''f'' \<and> is_file m ''f'' ''abc'' 420 0 0"
proof -
  obtain n where "tree (store with_file) = (tree example_store)(''f'' \<mapsto> n)" "is_file n ''f'' ''abc'' 420 0 0"
    using PutFile_contract [OF example_sound(1) with_file_run] by auto
  then show ?thesis using assms example_domain [of p m] by (auto split: if_splits)
qed

lemma namespace_flat:
  assumes "\<And>p m. v p = Some m \<Longrightarrow> \<not> Deleted m \<Longrightarrow> Valid (Kind m) \<and> CHR ''/'' \<notin> set p"
  shows "namespace_ok v"
  using assms by (fastforce simp: namespace_ok_def live_in_def)

section \<open>Properties\<close>




lemma example_plain: "\<forall>p. live_in (tree example_store) p \<longrightarrow> plain_path p"
proof (intro allI impI)
  fix p
  assume "live_in (tree example_store) p"
  then have "p = ''d''" using example_domain by (auto simp: live_in_def)
  then show "plain_path p" using single_element [of "''d''"] by (simp add: plain_element_def)
qed


text \<open>C28. An atomic write is all or nothing: whatever calls fail and at whichever point, the path holds afterwards either what it
  held before, and an error is returned, or a regular file with exactly the new content. It succeeds only if the last
  element of the path has at most 245 bytes, because the scratch file's name is ten bytes longer and names
  end at 255, so the files with longer names that the tree accepts never reach the disk.\<close>

theorem writeAtomic_all_or_nothing:
  assumes "plain_path p" and "type_at d p \<noteq> Some Directory"
  shows "case writeAtomic env p c mode d of
           (None, d') \<Rightarrow> length (Base p) \<le> 245
             \<and> (\<exists>n. disk_at d' p = Some n \<and> f_type n = Regular \<and> f_data n = c \<and> f_mtime n = os_now env)
         | (Some e, d') \<Rightarrow> disk_at d' p = disk_at d p"
proof (cases "writeAtomic env p c mode d")
  case (Pair e d')
  then show ?thesis using writeAtomic_outcome [OF assms Pair] by (cases e) (auto simp: NameMax_def)
qed

theorem writeAtomic_all_or_nothing_witness:
  "let r = writeAtomic example_env ''f'' ''new'' 420 [(''f'', example_inode)]
   in fst r = None \<and> (\<exists>n. disk_at (snd r) ''f'' = Some n \<and> f_data n = ''new'')"
proof -
  let ?r = "writeAtomic example_env ''f'' ''new'' 420 [(''f'', example_inode)]"
  have p: "plain_path ''f''" "Base ''f'' = ''f''" "\<And>q. \<not> below q ''f''"
    using single_element [of "''f''"] by (simp_all add: plain_element_def)
  have "tmp_of ''f'' = ''.dcfs-tmp-f''" by code_simp
  then have "fst ?r = None"
    by (intro writeAtomic_succeeds)
      (use p in \<open>auto simp: free_def blocked_iff type_at_def disk_at_def example_inode_def NameMax_def\<close>)
  then show ?thesis
    using writeAtomic_all_or_nothing [OF p(1), where d = "[(''f'', example_inode)]" and env = example_env and c = "''new''" and mode = 420]
    by (cases ?r) (auto simp: type_at_def disk_at_def example_inode_def)
qed

text \<open>C29. Scanning never deletes: whatever the disk looks like and whatever calls fail, every path that is live in
  the tree is still live after a scan, and the disk is as it was.\<close>

theorem scan_never_deletes:
  assumes "sound_service (m_tree m)" and "live_in (tree (store (m_tree m))) q"
  shows "live_in (tree (store (m_tree (scan env (syncer_tree f) m)))) q \<and> disk (scan env (syncer_tree f) m) = disk m"
  using syncer_tree.scan_step [OF assms(1)] assms(2) by blast

theorem scan_never_deletes_witness:
  "live_in (tree (store (m_tree (scan example_env (syncer_tree no_faults) (Open_mirror example_env with_file []))))) ''f''"
proof -
  have "live_in (tree (store with_file)) ''f''" using with_file_entry by (auto simp: live_in_def is_file_def)
  then show ?thesis
    using scan_never_deletes [of "Open_mirror example_env with_file []" "''f''" example_env no_faults] with_file_facts(1)
    by (simp add: Open_mirror_def)
qed

text \<open>C30. A file made again after its deletion is destroyed: while the tree holds a tombstone for a path, a file the
  user puts there is not promoted, however new it is, and the next rendering removes it from the disk. Its
  content is nowhere kept.\<close>

theorem recreated_file_is_destroyed:
  assumes "sound_service (m_tree m)" and "reads_up f" and "tree (store (m_tree m)) q = Some t" and "Deleted t"
    and "file_at (disk m) q n" and "f_type n = Regular" and "good_path q" and "\<not> HasPrefix (Base q) tmpPrefix"
    and "\<not> isInflight m q" and "\<forall>p. \<not> io env (IoReadDir p)" and "\<not> io env (IoRemove q)"
    and "\<forall>p. live_in (tree (store (m_tree m))) p \<longrightarrow> plain_path p"
  shows "promote env (syncer_tree f) q b m = m \<and> disk_at (disk (snd (render env (syncer_tree f) m))) q = None"
  using syncer_tree.tombstone_wins [OF assms] by blast

theorem recreated_file_is_destroyed_witness:
  "let m = Open_mirror example_env example_service [(''a'', example_inode)]
   in promote example_env (syncer_tree no_faults) ''a'' False m = m
      \<and> disk_at (disk (snd (render example_env (syncer_tree no_faults) m))) ''a'' = None"
  unfolding Let_def
  by (rule recreated_file_is_destroyed [where t = "replicated (meta (entries example_store ! 1))" and n = example_inode])
    (use example_plain single_element [of "''a''"] in \<open>simp_all add: Open_mirror_def file_at_def disk_at_def example_inode_def
      tree_def example_rows plain_element_def HasPrefix_def tmpPrefix_def isInflight_def reads_up_def\<close>,
     simp add: example_store_def rowOf_def)

text \<open>A scan can undo a newer version of a peer: if the version of the tree was stamped before the file on disk
  was last written, which is so for every file that was rendered after the peer made its edit, promoting the
  file stores the old content of the disk as a new local version. The decision compares the time of writing the file with the
  version's time, while rendering sets no modification time.\<close>

theorem scan_undoes_newer_version:
  assumes "sound_service (m_tree m)" and "tree (store (m_tree m)) p = Some new" and "\<not> Deleted new"
    and "Wall (HLC (Ver new)) < f_mtime n" and "file_at (disk m) p n" and "f_type n = Regular" and "\<not> blocked (disk m) p"
    and "good_path p" and "int (length (f_data n)) \<le> MaxFileSize (cfg (m_tree m))" and "\<forall>c. \<not> io env c"
    and "local_seq (store (m_tree m)) < max_int64"
  shows "\<exists>m'. tree (store (m_tree (promote env (syncer_tree (\<lambda>_. False, w)) p False m))) p = Some m'
           \<and> Kind m' = KindFile \<and> \<not> Deleted m' \<and> Hash m' = HashContent (f_data n)"
proof -
  let ?T = "syncer_tree (\<lambda>_. False, w)"
  have "reads_up (\<lambda>_. False, w)" by (simp add: reads_up_def)
  then obtain st where get: "t_Get ?T (m_tree m) p = Inr st" "replicated st = new"
    using syncer_tree.Get_up [OF assms(1)] syncer_tree.Get_Inr [OF assms(1)] assms(2)
    by (cases "t_Get ?T (m_tree m) p") fastforce+
  then have newer: "diskIsNewer st True (f_mtime n)" using assms(3,4) by (auto simp: diskIsNewer_def)
  obtain uid gid where own: "ownershipFor (canChown m) n st True = (uid, gid)" by fastforce
  obtain s' where s': "local_step (\<lambda>_. False) (m_tree m) (LPutFile p (f_data n) (Perm (f_mode n)) uid gid) = (None, s')"
    using healthy_step [OF assms(1), of "LPutFile p (f_data n) (Perm (f_mode n)) uid gid"] assms(8,9,11) by auto
  have "promote env ?T p False m = m\<lparr>m_tree := s'\<rparr>"
    using assms(5-7,9,10) get(1) newer own s'
    by (simp add: promote_def Lstat_def ReadFile_def file_at_def stored_def Service_MaxFileSize_def)
  then show ?thesis using PutFile_contract [OF assms(1) s'] by (auto simp: is_file_def)
qed

theorem scan_undoes_newer_version_witness:
  "\<exists>m'. tree (store (m_tree (promote example_env (syncer_tree (\<lambda>_. False, 0)) ''f'' False
         (Open_mirror example_env with_file [(''f'', example_inode)])))) ''f'' = Some m' \<and> Hash m' = HashContent ''old''"
proof -
  let ?m = "Open_mirror example_env with_file [(''f'', example_inode)]"
  obtain m where m: "tree (store with_file) ''f'' = Some m" "is_file m ''f'' ''abc'' 420 0 0" using with_file_entry by blast
  have "\<not> op_idle example_service (LPutFile ''f'' ''abc'' 420 0 0)" by (simp add: live_at_def example_rows)
  then have "Ver m = Version (Timestamp 1000 0) ''n1''"
    using local_step_view(6) [OF example_sound(1) with_file_run] m(1) by (auto simp: example_Now)
  then have w: "Wall (HLC (Ver m)) < f_mtime example_inode" by (simp add: example_inode_def)
  show ?thesis
    using scan_undoes_newer_version [of ?m "''f''" m example_inode example_env 0] m w with_file_facts
      single_element [of "''f''"]
    by (auto simp: Open_mirror_def is_file_def file_at_def disk_at_def blocked_iff example_inode_def max_int64_def plain_element_def)
qed

text \<open>The claim of a later event can be dropped: when the user removes a file whose earlier event is being
  processed, the watcher claims the path again and has the removal pending, but releasing the batch drops the
  claim with the old one. Rendering may then write the file back, and when the removal is processed and the file
  is there it is taken for a replacement: the path stays live.\<close>

theorem later_claim_is_dropped:
  assumes "relative root name = Some p" and "p \<in> ev_Path ` set batch"
    and "pump_event env root name False True (w, m) = (w', m')"
    and "sound_service (m_tree m'')" and "live_in (tree (store (m_tree m''))) p" and "Lstat env' (disk m'') p = Inr info"
  shows "(p, True) \<in> set (pending w') \<and> isInflight m' p \<and> \<not> isInflight (release batch m') p
       \<and> live_in (tree (store (m_tree (apply_event env' (syncer_tree f) \<lparr>ev_Path = p, ev_Removed = True\<rparr> m'')))) p"
proof -
  have cleared: "p \<in> ev_Path ` set b \<or> \<not> isInflight x p \<Longrightarrow> \<not> isInflight (release b x) p" for b and x :: "'a Mirror"
    by (induction b arbitrary: x) (auto simp: release_def clearInflight_def isInflight_def)
  have "w' = w\<lparr>pending := note_change p True (pending w), timer := True\<rparr>" "m' = markInflight p m"
    using assms(1,3) by (simp_all add: pump_event_def Let_def)
  then show ?thesis
    using cleared [of batch m'] assms(2) syncer_tree.late_removal_is_dropped [OF assms(4-6)]
    by (simp add: note_change_def markInflight_def isInflight_def)
qed

theorem later_claim_is_dropped_witness:
  "let m = Open_mirror example_env with_file [(''f'', example_inode)];
       (w', m') = pump_event example_env ''/m'' ''/m/f'' False True (\<lparr>pending = [], timer = False, watched = [''.'']\<rparr>, m)
   in isInflight m' ''f'' \<and> \<not> isInflight (release [\<lparr>ev_Path = ''f'', ev_Removed = False\<rparr>] m') ''f''"
proof -
  let ?m = "Open_mirror example_env with_file [(''f'', example_inode)]"
  have rel: "relative ''/m'' ''/m/f'' = Some ''f''" by code_simp
  have live: "live_in (tree (store with_file)) ''f''" using with_file_entry by (auto simp: live_in_def is_file_def)
  have st: "Lstat example_env (disk ?m) ''f'' = Inr example_inode"
    using single_element [of "''f''"] by (simp add: Lstat_def Open_mirror_def disk_at_def blocked_iff plain_element_def)
  obtain w' m' where ev: "pump_event example_env ''/m'' ''/m/f'' False True (\<lparr>pending = [], timer = False, watched = [''.'']\<rparr>, ?m) = (w', m')"
    by fastforce
  show ?thesis
    using later_claim_is_dropped [OF rel _ ev, of "[\<lparr>ev_Path = ''f'', ev_Removed = False\<rparr>]" ?m example_env example_inode no_faults]
      with_file_facts(1) live st ev
    by (simp add: Open_mirror_def)
qed

section \<open>Watches\<close>

text \<open>A path that is neither a scratch file nor below a scratch directory of the disk.\<close>

definition not_scratch :: "Disk \<Rightarrow> string \<Rightarrow> bool" where
  "not_scratch d p \<longleftrightarrow> \<not> HasPrefix (Base p) tmpPrefix \<and> (\<forall>x \<in> set d. HasPrefix (Base (fst x)) tmpPrefix \<longrightarrow> \<not> below (fst x) p)"

lemma watch_list_covers:
  assumes "(p, n) \<in> set xs" and "f_type n = Directory" and "not_scratch xs p" and "\<forall>q. \<not> io env (IoReadDir q)"
    and "\<forall>s \<in> set skip. \<not> below s p"
  shows "p \<in> set (watch_list env skip xs)"
  using assms by (induction env skip xs rule: watch_list.induct) (auto simp: not_scratch_def)

lemma enqueueTree_watched: "watched (fst (enqueueTree env dir (w, m))) = watched w"
proof -
  have "watched (fst (fold (\<lambda>p (w, m). (w\<lparr>pending := note_change p False (pending w)\<rparr>, markInflight p m)) ps (w, m))) = watched w" for ps
    by (induction ps arbitrary: w m) simp_all
  then show ?thesis by (simp add: enqueueTree_def)
qed

lemma set_fold_insert: "set (fold List.insert xs ws) = set xs \<union> set ws"
  by (induction xs arbitrary: ws) auto

lemma pump_event_watched:
  "watched (fst (pump_event env root name created removed (w, m))) =
     (case relative root name of
        None \<Rightarrow> watched w
      | Some rel \<Rightarrow>
          if created \<and> (case Lstat env (disk m) rel of Inl e \<Rightarrow> False | Inr info \<Rightarrow> f_type info = Directory)
          then addWatches env rel (disk m) (watched w) else watched w)"
proof (cases "relative root name")
  case (Some rel)
  obtain w' m' where e: "enqueueTree env rel (w\<lparr>watched := addWatches env rel (disk m) (watched w)\<rparr>, m) = (w', m')" by fastforce
  then have "watched w' = addWatches env rel (disk m) (watched w)"
    using enqueueTree_watched [of env rel "w\<lparr>watched := addWatches env rel (disk m) (watched w)\<rparr>" m] by simp
  then show ?thesis using Some e by (simp add: pump_event_def Let_def)
qed (simp add: pump_event_def)

text \<open>Every directory is watched, as long as no call of the watcher fails: those on disk when the watcher starts, and when a directory
  appears, all that are in it by then. Watches are never given up. Directories with names of scratch files, and what is below
  them, are left out on purpose.\<close>

theorem directories_are_watched:
  assumes "\<forall>q. \<not> io env (IoReadDir q) \<and> \<not> io env (IoWatch q)" and "(p, n) \<in> set (disk m)" and "f_type n = Directory" and "not_scratch (disk m) p"
  shows "(\<forall>w. watch env (disk m) = Some w \<longrightarrow> p \<in> set (watched w))
       \<and> (relative root name = Some rel \<and> map_sum id f_type (Lstat env (disk m) rel) = Inr Directory \<and> rel \<noteq> ''.'' \<and> (p = rel \<or> below rel p) \<longrightarrow>
            p \<in> set (watched (fst (pump_event env root name True removed (w, m)))))
       \<and> set (watched w) \<subseteq> set (watched (fst (pump_event env root name created removed (w, m))))"
proof -
  have start: "p \<in> set (watch_list env [] (walk_order (disk m)))"
    by (rule watch_list_covers [OF _ assms(3)]) (use assms in \<open>auto simp: walk_order_def not_scratch_def\<close>)
  have created: "p \<in> set (watch_list env [] (filter (\<lambda>x. fst x = rel \<or> below rel (fst x)) (walk_order (disk m))))" if "p = rel \<or> below rel p"
    by (rule watch_list_covers [OF _ assms(3)]) (use assms that in \<open>auto simp: walk_order_def not_scratch_def\<close>)
  have "p \<in> set (watched w')" if "watch env (disk m) = Some w'" for w'
    using that start assms(1) by (auto simp: watch_def addWatches_def set_fold_insert split: if_splits)
  moreover have "p \<in> set (watched (fst (pump_event env root name True removed (w, m))))"
    if r: "relative root name = Some rel" "map_sum id f_type (Lstat env (disk m) rel) = Inr Directory" "rel \<noteq> ''.''" "p = rel \<or> below rel p"
  proof -
    obtain info where "Lstat env (disk m) rel = Inr info" "f_type info = Directory" using r(2) by (cases "Lstat env (disk m) rel") auto
    then show ?thesis using r(1,3) created [OF r(4)] assms(1) by (simp add: pump_event_watched addWatches_def set_fold_insert)
  qed
  moreover have "set (watched w) \<subseteq> set (watched (fst (pump_event env root name created removed (w, m))))"
    by (auto simp: pump_event_watched addWatches_def Let_def set_fold_insert split: option.splits)
  ultimately show ?thesis by blast
qed

end
