(* ===== verification/Aes_Vectors.thy ===== *)
theory Aes_Vectors
  imports Aes_Gcm
begin

text \<open>
  Published test vectors, computed inside the kernel: the AES-256 example of FIPS 197 and the first AES-256 test case of the
  GCM specification with a block of text.
\<close>

lemma aes256_fips197:
  "hex_encode (aes_encrypt (map char_of [0..<32]) (map (\<lambda>i. char_of (17 * i)) [0..<16])) = ''8ea2b7ca516745bfeafc49904b496089''"
  by code_simp

lemma gcm_case_14:
  "let z = (\<lambda>n. replicate n (CHR 0x00)) in
   hex_encode (gcm_Seal (aes_encrypt (z 32)) (z 12) (z 16)) = ''cea7403d4d606b6e074ec5d3baf39d18d0d1c8a799996bf0265b98b5d48ab919''"
  by code_simp

end
